(* ===== verification/Prelude.thy ===== *)
theory Prelude imports Main "HOL-Library.Word" begin

text \<open>
  What every component shares: the machine integer types of the Rust code, the result of a
  Rust computation (\<open>outcome\<close>: a value, an \<open>HError\<close>, a panic, undefined behaviour of an
  \<open>unsafe\<close> block, or no return at all), the checked operations of the standard library the
  source uses (indexing, slicing, \<open>copy_from_slice\<close>, \<open>resize\<close>, \<open>unwrap\<close>, overflow-checked
  addition, big-endian bytes), and the lemmas about them that the component proofs share.

  Arithmetic overflow panics, as in the development profile of Cargo (the crate sets no other).
  A \<open>usize\<close> is a \<open>nat\<close>: the lengths and indices it counts stay far below 2 to the 64 on the
  64-bit targets; a subtraction below zero is written out as a panic.
\<close>

section \<open>Machine integers and byte strings\<close>

type_synonym u8 = "8 word"
type_synonym u32 = "32 word"
type_synonym u64 = "64 word"
type_synonym bytes = "8 word list"
type_synonym hash = "8 word list"       \<comment> \<open>\<open>HashValue = [u8; 32]\<close>\<close>
type_synonym uuid = "8 word list"       \<comment> \<open>\<open>UuidBytes = [u8; 16]\<close>\<close>
type_synonym sha = "8 word list \<Rightarrow> 8 word list"  \<comment> \<open>the SHA-256 function of the crate sha2\<close>

named_theorems outcome_simps "case analysis of chained outcomes"
named_theorems byte_simps "lengths and round trips of byte encodings"

section \<open>The errors of the crate\<close>

text \<open>
  \<open>PipeError\<close> and \<open>HError\<close> of \<open>src/herrors.rs\<close>. A message is the format string of the source,
  white space collapsed, with the formatted values left out: no code reads them back.
\<close>

datatype pipe_error = Close | Full | Empty

datatype herror =
    H_UnexpectedEnd string
  | H_Message string
  | H_Protocol string
  | H_IO
  | H_Database
  | H_Pipe pipe_error
  | H_Join
  | H_Mpsc
  | H_OneShot
  | H_NetWork string
  | H_RingBuf string
  | H_Block string
  | H_Location string string
  | H_Chain string
  | H_ChainFull string
  | H_Storage string
  | H_LimitExceeded
  | H_Executor string
  | H_Center string
  | H_Serialization string
  | H_Identity string
  | H_Nodes string

section \<open>Results\<close>

datatype 'a outcome =
    Ok 'a
  | Err herror
  | Panic            \<comment> \<open>index or slice out of range, \<open>unwrap\<close> of \<open>None\<close>, overflow\<close>
  | Undefined        \<comment> \<open>undefined behaviour: a raw pointer read outside its allocation\<close>
  | Diverge          \<comment> \<open>the call never returns\<close>

text \<open>The \<open>?\<close> operator and plain sequencing.\<close>

fun and_then :: "'a outcome \<Rightarrow> ('a \<Rightarrow> 'b outcome) \<Rightarrow> 'b outcome" where
  "and_then (Ok x) f = f x"
| "and_then (Err e) f = Err e"
| "and_then Panic f = Panic"
| "and_then Undefined f = Undefined"
| "and_then Diverge f = Diverge"

definition is_ok :: "'a outcome \<Rightarrow> bool" where
  "is_ok r = (case r of Ok _ \<Rightarrow> True | _ \<Rightarrow> False)"

definition is_err :: "'a outcome \<Rightarrow> bool" where
  "is_err r = (case r of Err _ \<Rightarrow> True | _ \<Rightarrow> False)"

text \<open>\<open>Result::map_err(|_| e)\<close>.\<close>

definition map_err :: "herror \<Rightarrow> 'a outcome \<Rightarrow> 'a outcome" where
  "map_err e r = (case r of Err _ \<Rightarrow> Err e | _ \<Rightarrow> r)"

text \<open>\<open>Option::unwrap\<close>.\<close>

definition unwrap :: "'a option \<Rightarrow> 'a outcome" where
  "unwrap r = (case r of None \<Rightarrow> Panic | Some x \<Rightarrow> Ok x)"

lemma and_then_Ok [outcome_simps]:
  "and_then m f = Ok y \<longleftrightarrow> (\<exists>x. m = Ok x \<and> f x = Ok y)"
  by (cases m) auto

lemma and_then_Err [outcome_simps]:
  "and_then m f = Err e \<longleftrightarrow> m = Err e \<or> (\<exists>x. m = Ok x \<and> f x = Err e)"
  by (cases m) auto

lemma and_then_Panic [outcome_simps]:
  "and_then m f = Panic \<longleftrightarrow> m = Panic \<or> (\<exists>x. m = Ok x \<and> f x = Panic)"
  by (cases m) auto

lemma and_then_Undefined [outcome_simps]:
  "and_then m f = Undefined \<longleftrightarrow> m = Undefined \<or> (\<exists>x. m = Ok x \<and> f x = Undefined)"
  by (cases m) auto

lemma and_then_Diverge [outcome_simps]:
  "and_then m f = Diverge \<longleftrightarrow> m = Diverge \<or> (\<exists>x. m = Ok x \<and> f x = Diverge)"
  by (cases m) auto

lemma and_then_cong [fundef_cong]:
  "m = m' \<Longrightarrow> (\<And>x. m' = Ok x \<Longrightarrow> f x = f' x) \<Longrightarrow> and_then m f = and_then m' f'"
  by (cases m') auto

lemma is_ok_iff [simp]: "is_ok r \<longleftrightarrow> (\<exists>x. r = Ok x)"
  by (cases r) (auto simp: is_ok_def)

lemma is_err_iff [simp]: "is_err r \<longleftrightarrow> (\<exists>e. r = Err e)"
  by (cases r) (auto simp: is_err_def)

lemma unwrap_simps [simp]: "unwrap None = Panic" "unwrap (Some x) = Ok x"
  by (simp_all add: unwrap_def)

lemma unwrap_Ok [outcome_simps]: "unwrap r = Ok x \<longleftrightarrow> r = Some x"
  by (cases r) auto

lemma map_err_simps [simp]:
  "map_err e (Ok x) = Ok x" "map_err e (Err e') = Err e" "map_err e Panic = Panic"
  "map_err e Undefined = Undefined" "map_err e Diverge = Diverge"
  by (simp_all add: map_err_def)

lemma map_err_Ok [outcome_simps]: "map_err e r = Ok x \<longleftrightarrow> r = Ok x"
  by (cases r) auto

text \<open>\<open>logger_result\<close> of \<open>src/herrors.rs\<close>, less the logging; it is only handed values and errors.\<close>

definition logger_result :: "'a outcome \<Rightarrow> 'a option" where
  "logger_result r = (case r of Ok value \<Rightarrow> Some value | _ \<Rightarrow> None)"

section \<open>Checked operations of the standard library\<close>

text \<open>\<open>a + b\<close> on \<open>u64\<close> and \<open>u32\<close>: an overflow panics.\<close>

definition U64_MAX :: nat where
  "U64_MAX = 18446744073709551615"

definition U32_MAX :: nat where
  "U32_MAX = 4294967295"

definition add_u64 :: "u64 \<Rightarrow> u64 \<Rightarrow> u64 outcome" where
  "add_u64 a b = (if unat a + unat b \<le> U64_MAX then Ok (a + b) else Panic)"

definition sub_u64 :: "u64 \<Rightarrow> u64 \<Rightarrow> u64 outcome" where
  "sub_u64 a b = (if b \<le> a then Ok (a - b) else Panic)"

definition add_u32 :: "u32 \<Rightarrow> u32 \<Rightarrow> u32 outcome" where
  "add_u32 a b = (if unat a + unat b \<le> U32_MAX then Ok (a + b) else Panic)"

text \<open>\<open>a - b\<close> on \<open>usize\<close>.\<close>

definition sub_usize :: "nat \<Rightarrow> nat \<Rightarrow> nat outcome" where
  "sub_usize a b = (if b \<le> a then Ok (a - b) else Panic)"

text \<open>\<open>xs[i]\<close>, \<open>&xs[a..b]\<close>, \<open>xs[a..b].copy_from_slice(src)\<close>, \<open>Vec::resize\<close>, \<open>Vec::truncate\<close>.\<close>

definition vec_index :: "'a list \<Rightarrow> nat \<Rightarrow> 'a outcome" where
  "vec_index xs i = (if i < length xs then Ok (xs ! i) else Panic)"

definition slice :: "'a list \<Rightarrow> nat \<Rightarrow> nat \<Rightarrow> 'a list outcome" where
  "slice xs a b = (if a \<le> b \<and> b \<le> length xs then Ok (take (b - a) (drop a xs)) else Panic)"

definition write_at :: "'a list \<Rightarrow> nat \<Rightarrow> 'a list \<Rightarrow> 'a list" where
  "write_at xs a src = take a xs @ src @ drop (a + length src) xs"

definition copy_into :: "'a list \<Rightarrow> nat \<Rightarrow> nat \<Rightarrow> 'a list \<Rightarrow> 'a list outcome" where
  "copy_into xs a b src =
     (if a \<le> b \<and> b \<le> length xs \<and> length src = b - a then Ok (write_at xs a src) else Panic)"

definition vec_resize :: "'a list \<Rightarrow> nat \<Rightarrow> 'a \<Rightarrow> 'a list" where
  "vec_resize xs n v = take n xs @ replicate (n - length xs) v"

lemma add_u64_Ok [outcome_simps]:
  "add_u64 a b = Ok c \<longleftrightarrow> unat a + unat b \<le> U64_MAX \<and> c = a + b"
  by (auto simp: add_u64_def)

lemma unat_add_u64: "add_u64 a b = Ok c \<Longrightarrow> unat c = unat a + unat b"
  by (auto simp: add_u64_def U64_MAX_def unat_word_ariths split: if_splits)

lemma add_u64_cases:
  "add_u64 a b = Panic \<and> U64_MAX < unat a + unat b \<or>
   add_u64 a b = Ok (a + b) \<and> unat a + unat b \<le> U64_MAX \<and> unat (a + b) = unat a + unat b"
proof (cases "unat a + unat b \<le> U64_MAX")
  case True
  then have "add_u64 a b = Ok (a + b)" by (simp add: add_u64_def)
  with True unat_add_u64 show ?thesis by blast
next
  case False
  then show ?thesis by (simp add: add_u64_def)
qed

lemma unat_add_u32: "add_u32 a b = Ok c \<Longrightarrow> unat c = unat a + unat b"
  by (auto simp: add_u32_def U32_MAX_def unat_word_ariths split: if_splits)

lemma add_u32_Ok [outcome_simps]:
  "add_u32 a b = Ok c \<longleftrightarrow> unat a + unat b \<le> U32_MAX \<and> c = a + b"
  by (auto simp: add_u32_def)

lemma sub_usize_Ok [outcome_simps]: "sub_usize a b = Ok c \<longleftrightarrow> b \<le> a \<and> c = a - b"
  by (auto simp: sub_usize_def)

lemma slice_Ok [outcome_simps]:
  "slice xs a b = Ok ys \<longleftrightarrow> a \<le> b \<and> b \<le> length xs \<and> ys = take (b - a) (drop a xs)"
  by (auto simp: slice_def)

lemma vec_index_Ok [outcome_simps]: "vec_index xs i = Ok x \<longleftrightarrow> i < length xs \<and> x = xs ! i"
  by (auto simp: vec_index_def)

lemma length_write_at [simp]:
  "a + length src \<le> length xs \<Longrightarrow> length (write_at xs a src) = length xs"
  by (simp add: write_at_def)

lemma take_write_at_prefix:
  "a \<le> length xs \<Longrightarrow> take (a + length src) (write_at xs a src) = take a xs @ src"
  by (simp add: write_at_def)

lemma take_write_at [simp]: "a \<le> length xs \<Longrightarrow> n \<le> a \<Longrightarrow> take n (write_at xs a src) = take n xs"
  by (simp add: write_at_def min_def)

lemma length_vec_resize [simp]: "length (vec_resize xs n v) = n"
  by (simp add: vec_resize_def)

lemma take_vec_resize [simp]: "n \<le> m \<Longrightarrow> n \<le> length xs \<Longrightarrow> take n (vec_resize xs m v) = take n xs"
  by (simp add: vec_resize_def min_def)

section \<open>Big-endian bytes\<close>

text \<open>\<open>to_be_bytes\<close> of an unsigned integer of \<open>k\<close> bytes, and \<open>from_be_bytes\<close>.\<close>

fun be_bytes :: "nat \<Rightarrow> nat \<Rightarrow> bytes" where
  "be_bytes 0 n = []"
| "be_bytes (Suc k) n = be_bytes k (n div 256) @ [word_of_nat (n mod 256)]"

definition from_be :: "bytes \<Rightarrow> nat" where
  "from_be bs = foldl (\<lambda>a b. a * 256 + unat b) 0 bs"

lemma length_be_bytes [simp, byte_simps]: "length (be_bytes k n) = k"
  by (induction k arbitrary: n) auto

lemma unat_byte_mod: "unat (word_of_nat (n mod 256) :: u8) = n mod 256"
  by (simp add: unat_of_nat)

lemma from_be_be_bytes [byte_simps]: "n < 256 ^ k \<Longrightarrow> from_be (be_bytes k n) = n"
proof (induction k arbitrary: n)
  case 0
  then show ?case by (simp add: from_be_def)
next
  case (Suc k)
  from Suc.prems have "n div 256 < 256 ^ k" by (simp add: less_mult_imp_div_less mult.commute)
  then have "from_be (be_bytes k (n div 256)) = n div 256" by (rule Suc.IH)
  then show ?case by (simp add: from_be_def unat_byte_mod)
qed

lemma be_bytes_inject: "m < 256 ^ k \<Longrightarrow> n < 256 ^ k \<Longrightarrow> be_bytes k m = be_bytes k n \<longleftrightarrow> m = n"
  using from_be_be_bytes by metis

definition u32_be :: "u32 \<Rightarrow> bytes" where
  "u32_be x = be_bytes 4 (unat x)"

definition u64_be :: "u64 \<Rightarrow> bytes" where
  "u64_be x = be_bytes 8 (unat x)"

definition u32_from_be :: "bytes \<Rightarrow> u32" where
  "u32_from_be bs = word_of_nat (from_be bs)"

lemma unat_u32_less: "unat (x :: u32) < 256 ^ 4"
proof -
  have "unat x < 2 ^ LENGTH(32)" by (rule unsigned_less)
  then show ?thesis by simp
qed

lemma unat_u64_less: "unat (x :: u64) < 256 ^ 8"
proof -
  have "unat x < 2 ^ LENGTH(64)" by (rule unsigned_less)
  then show ?thesis by simp
qed

lemma length_u32_be [simp, byte_simps]: "length (u32_be x) = 4"
  by (simp add: u32_be_def)

lemma length_u64_be [simp, byte_simps]: "length (u64_be x) = 8"
  by (simp add: u64_be_def)

lemma u32_be_inject [simp]: "u32_be x = u32_be y \<longleftrightarrow> x = y"
  by (simp only: u32_be_def be_bytes_inject [OF unat_u32_less unat_u32_less] word_unat_eq_iff)

lemma u64_be_inject [simp]: "u64_be x = u64_be y \<longleftrightarrow> x = y"
  by (simp only: u64_be_def be_bytes_inject [OF unat_u64_less unat_u64_less] word_unat_eq_iff)

lemma from_be_u32_be [simp, byte_simps]: "from_be (u32_be x) = unat x"
  by (simp only: u32_be_def from_be_be_bytes [OF unat_u32_less])

lemma u32_from_be_u32_be [simp, byte_simps]: "u32_from_be (u32_be x) = x"
  by (simp add: u32_from_be_def)

section \<open>Constants\<close>

text \<open>\<open>src/constants.rs\<close>.\<close>

definition ZERO_HASH :: hash where "ZERO_HASH = replicate 32 0"
definition ZERO_UUID :: uuid where "ZERO_UUID = replicate 16 0"
definition MAX_MSG_SIZE :: nat where "MAX_MSG_SIZE = 1024 * 1024"
definition MAX_UDP_MSG_SIZE :: nat where "MAX_UDP_MSG_SIZE = 1024"
definition MAX_FILE_NAME_LEN :: nat where "MAX_FILE_NAME_LEN = 128"

lemma length_ZERO_HASH [simp]: "length ZERO_HASH = 32"
  by (simp add: ZERO_HASH_def)

lemma length_ZERO_UUID [simp]: "length ZERO_UUID = 16"
  by (simp add: ZERO_UUID_def)

section \<open>Splitting appended fields\<close>

text \<open>Fixed-width fields: two concatenations agree only field by field.\<close>

lemma append_field_eq:
  "length xs = length ys \<Longrightarrow> (xs @ us = ys @ vs) \<longleftrightarrow> xs = ys \<and> us = vs"
  by simp

end
