(* ===== verification/Hash.thy ===== *)
theory Hash imports Prelude begin

text \<open>
  \<open>src/hash.rs\<close> and the hashing part of \<open>src/archive.rs\<close>. SHA-256 (crate sha2) is the
  parameter \<open>sha\<close>: \<open>Sha256::new\<close>, a series of \<open>update\<close>s and \<open>finalize\<close> give \<open>sha\<close> of the
  concatenated updates. What is relied on is its output width (\<open>sha256_width\<close>).
  A file being read is the list of what its \<open>read\<close> calls return, end of file after the last.
\<close>

section \<open>Hashing bytes and files\<close>

definition sha256_width :: "sha \<Rightarrow> bool" where
  "sha256_width sha \<longleftrightarrow> (\<forall>bs. length (sha bs) = 32)"

text \<open>\<open>Hasher::zero\<close>, \<open>Hasher::hash\<close>, \<open>Hasher::random_hash\<close> (random bytes and clock as inputs).\<close>

definition hasher_zero :: hash where
  "hasher_zero = replicate 32 0"

definition hash_slice :: "sha \<Rightarrow> bytes \<Rightarrow> hash" where
  "hash_slice sha data = sha data"

definition random_hash :: "sha \<Rightarrow> bytes \<Rightarrow> u64 \<Rightarrow> hash" where
  "random_hash sha rnd ts = sha (rnd @ u64_be ts)"

text \<open>What one \<open>read(&mut buffer)\<close> gives: an I/O error or the bytes read; no bytes is end of file.\<close>

datatype io_read = ReadErr | ReadBytes bytes

fun hash_read_loop :: "sha \<Rightarrow> bytes \<Rightarrow> io_read list \<Rightarrow> hash outcome" where
  "hash_read_loop sha fed [] = Ok (sha fed)"
| "hash_read_loop sha fed (ReadErr # rs) = Err H_IO"
| "hash_read_loop sha fed (ReadBytes bs # rs) =
     (if length bs = 0 then Ok (sha fed) else hash_read_loop sha (fed @ bs) rs)"

text \<open>
  \<open>Hasher::hash_with_chunk_size\<close>: \<open>opened\<close> says whether \<open>File::open\<close> succeeds, \<open>reads\<close> is what
  the file returns when it is read with a buffer of \<open>chunk_size\<close> bytes.
\<close>

definition hash_with_chunk_size :: "sha \<Rightarrow> bool \<Rightarrow> (nat \<Rightarrow> io_read list) \<Rightarrow> nat \<Rightarrow> hash outcome" where
  "hash_with_chunk_size sha opened reads chunk_size =
     (if opened then hash_read_loop sha [] (reads chunk_size) else Err H_IO)"

definition hash_file :: "sha \<Rightarrow> bool \<Rightarrow> (nat \<Rightarrow> io_read list) \<Rightarrow> hash outcome" where
  "hash_file sha opened reads = hash_with_chunk_size sha opened reads (1024 * 1024)"

text \<open>Reads that hand out the file's content in non-empty pieces, whatever their sizes.\<close>

definition reads_of :: "bytes \<Rightarrow> io_read list \<Rightarrow> bool" where
  "reads_of content rs \<longleftrightarrow>
     (\<exists>cs. rs = map ReadBytes cs \<and> [] \<notin> set cs \<and> concat cs = content)"

lemma hash_read_loop_pieces:
  "[] \<notin> set cs \<Longrightarrow> hash_read_loop sha fed (map ReadBytes cs) = Ok (sha (fed @ concat cs))"
  by (induction cs arbitrary: fed) auto

lemma hash_read_loop_content:
  "reads_of content rs \<Longrightarrow> hash_read_loop sha fed rs = Ok (sha (fed @ content))"
  by (auto simp: reads_of_def hash_read_loop_pieces)

section \<open>Archiving\<close>

text \<open>\<open>DataId\<close>, \<open>Archiver::archive_slice\<close>, \<open>Archiver::archive_file\<close>; the v7 uuid is an input.\<close>

record data_id =
  id_hash :: hash
  id_uuid :: uuid

definition archive_slice :: "sha \<Rightarrow> uuid \<Rightarrow> bytes \<Rightarrow> data_id outcome" where
  "archive_slice sha new_uuid data = Ok \<lparr>id_hash = sha data, id_uuid = new_uuid\<rparr>"

definition archive_file ::
    "sha \<Rightarrow> uuid \<Rightarrow> bool \<Rightarrow> (nat \<Rightarrow> io_read list) \<Rightarrow> data_id outcome" where
  "archive_file sha new_uuid opened reads =
     (if opened then
        and_then (hash_read_loop sha [] (reads (2 * 1024 * 1024)))
          (\<lambda>h. Ok \<lparr>id_hash = h, id_uuid = new_uuid\<rparr>)
      else Err H_IO)"

section \<open>The Merkle root\<close>

text \<open>
  \<open>Hasher::hash_neighbor\<close>: the loop over \<open>(0..len).step_by(2)\<close> hashes each even position together
  with its right neighbour when there is one. \<open>neighbor_inputs\<close> are the strings it hashes.
\<close>

definition neighbor_inputs :: "hash list \<Rightarrow> bytes list" where
  "neighbor_inputs hs =
     map (\<lambda>i. hs ! i @ (if i + 1 < length hs then hs ! (i + 1) else []))
       (filter even [0..<length hs])"

definition hash_neighbor :: "sha \<Rightarrow> hash list \<Rightarrow> hash list" where
  "hash_neighbor sha hs = map sha (neighbor_inputs hs)"

text \<open>The \<open>loop\<close> of \<open>Hasher::merkle_root\<close>: at least one round, until one hash is left.\<close>

partial_function (option) merkle_loop :: "sha \<Rightarrow> hash list \<Rightarrow> hash list option" where
  "merkle_loop sha hs =
     (let hs' = hash_neighbor sha hs
      in if length hs' = 1 then Some hs' else merkle_loop sha hs')"

text \<open>\<open>Hasher::merkle_root\<close> on the hashes of the chain's blocks, in order.\<close>

definition merkle_root :: "sha \<Rightarrow> hash list \<Rightarrow> hash outcome" where
  "merkle_root sha hashes =
     (if hashes = [] then Err (H_Chain ''the chain is empty'')
      else (case merkle_loop sha hashes of
              None \<Rightarrow> Diverge
            | Some hs \<Rightarrow> vec_index hs 0))"

subsection \<open>One round\<close>

lemma filter_even_shift: "filter even [0..<Suc (Suc n)] = 0 # map (\<lambda>i. i + 2) (filter even [0..<n])"
proof -
  have "[0..<Suc (Suc n)] = 0 # 1 # map (Suc \<circ> Suc) [0..<n]"
    by (simp add: upt_conv_Cons map_Suc_upt flip: map_map del: upt_Suc)
  then show ?thesis by (simp add: filter_map comp_def)
qed

lemma neighbor_inputs_simps [simp]:
  "neighbor_inputs [] = []"
  "neighbor_inputs [a] = [a]"
  "neighbor_inputs (a # b # hs) = (a @ b) # neighbor_inputs hs"
  by (simp_all add: neighbor_inputs_def filter_even_shift comp_def upt_rec [of 0 "Suc 0"] del: upt_Suc)

lemma hash_neighbor_simps [simp]:
  "hash_neighbor sha [] = []"
  "hash_neighbor sha [a] = [sha a]"
  "hash_neighbor sha (a # b # hs) = sha (a @ b) # hash_neighbor sha hs"
  by (simp_all add: hash_neighbor_def)

fun pairs_rec :: "'a list \<Rightarrow> 'a list" where
  "pairs_rec [] = []"
| "pairs_rec [a] = [a]"
| "pairs_rec (a # b # xs) = a # pairs_rec xs"

lemma length_hash_neighbor [simp]: "length (hash_neighbor sha hs) = (length hs + 1) div 2"
  by (induction hs rule: pairs_rec.induct) auto

lemma hash_neighbor_Nil_iff [simp]: "hash_neighbor sha hs = [] \<longleftrightarrow> hs = []"
  by (cases hs rule: pairs_rec.cases) auto

lemma hash_neighbor_append:
  "even (length xs) \<Longrightarrow> hash_neighbor sha (xs @ ys) = hash_neighbor sha xs @ hash_neighbor sha ys"
  by (induction xs rule: pairs_rec.induct) auto

lemma hash_neighbor_width:
  "sha256_width sha \<Longrightarrow> h \<in> set (hash_neighbor sha hs) \<Longrightarrow> length h = 32"
  by (auto simp: hash_neighbor_def sha256_width_def)

text \<open>Strings hashed in one round determine the hashes they were built from.\<close>

lemma neighbor_inputs_inject:
  assumes "length xs = length ys" and "\<forall>h \<in> set xs. length h = 32" and "\<forall>h \<in> set ys. length h = 32"
    and "neighbor_inputs xs = neighbor_inputs ys"
  shows "xs = ys"
  using assms
proof (induction xs arbitrary: ys rule: pairs_rec.induct)
  case 1
  then show ?case by simp
next
  case (2 a)
  then show ?case by (cases ys rule: pairs_rec.cases) auto
next
  case (3 a b xs)
  then show ?case by (cases ys rule: pairs_rec.cases) auto
qed

subsection \<open>Termination and the number of rounds\<close>

text \<open>\<open>merkle_depth n\<close>: the rounds the loop makes on \<open>n\<close> hashes.\<close>

function merkle_depth :: "nat \<Rightarrow> nat" where
  "merkle_depth n = (if n \<le> 2 then 1 else Suc (merkle_depth ((n + 1) div 2)))"
  by pat_completeness auto
termination
  by (relation "measure id") auto

declare merkle_depth.simps [simp del]

lemma merkle_loop_rounds:
  "hs \<noteq> [] \<Longrightarrow>
     merkle_loop sha hs = Some ((hash_neighbor sha ^^ merkle_depth (length hs)) hs)"
proof (induction "length hs" arbitrary: hs rule: less_induct)
  case less
  let ?hs' = "hash_neighbor sha hs"
  show ?case
  proof (cases "length hs \<le> 2")
    case True
    with less.prems have "length ?hs' = 1" by (cases hs) auto
    with True show ?thesis
      by (simp add: merkle_loop.simps [of sha hs] merkle_depth.simps [of "length hs"])
  next
    case False
    then have "length ?hs' < length hs" and "?hs' \<noteq> []" and "length ?hs' \<noteq> 1" by auto
    with less.hyps [of ?hs'] have "merkle_loop sha hs =
        Some ((hash_neighbor sha ^^ merkle_depth (length ?hs')) ?hs')"
      by (simp add: merkle_loop.simps [of sha hs])
    with False show ?thesis
      by (simp add: merkle_depth.simps [of "length hs"] funpow_swap1)
  qed
qed

lemma merkle_depth_ge: "n \<le> 2 ^ merkle_depth n"
proof (induction n rule: merkle_depth.induct)
  case (1 n)
  show ?case
  proof (cases "n \<le> 2")
    case True
    then show ?thesis by (simp add: merkle_depth.simps [of n])
  next
    case False
    with 1 have "(n + 1) div 2 \<le> 2 ^ merkle_depth ((n + 1) div 2)" by simp
    with False show ?thesis by (simp add: merkle_depth.simps [of n])
  qed
qed

lemma merkle_depth_pos: "0 < merkle_depth n"
  by (simp add: merkle_depth.simps [of n])

subsection \<open>The top-down reference\<close>

text \<open>
  The tree a reader has in mind: a node of height \<open>d + 1\<close> hashes its left subtree over the first
  \<open>2 ^ d\<close> leaves, followed by its right subtree when leaves remain.
\<close>

fun merkle_tree :: "sha \<Rightarrow> nat \<Rightarrow> hash list \<Rightarrow> hash" where
  "merkle_tree sha 0 hs = (case hs of [] \<Rightarrow> [] | h # _ \<Rightarrow> h)"
| "merkle_tree sha (Suc d) hs =
     (if length hs \<le> 2 ^ d then sha (merkle_tree sha d hs)
      else sha (merkle_tree sha d (take (2 ^ d) hs) @ merkle_tree sha d (drop (2 ^ d) hs)))"

lemma rounds_append:
  "2 ^ d dvd length xs \<Longrightarrow>
     (hash_neighbor sha ^^ d) (xs @ ys) = (hash_neighbor sha ^^ d) xs @ (hash_neighbor sha ^^ d) ys"
proof (induction d arbitrary: xs ys)
  case 0
  then show ?case by simp
next
  case (Suc d)
  from Suc.prems obtain k where k: "length xs = 2 * (2 ^ d * k)"
    by (auto simp: dvd_def mult.assoc)
  then have "2 ^ d dvd length (hash_neighbor sha xs)" by simp
  with Suc.IH k show ?case
    by (simp add: funpow_Suc_right hash_neighbor_append del: funpow.simps)
qed

lemma rounds_eq_tree:
  "hs \<noteq> [] \<Longrightarrow> length hs \<le> 2 ^ d \<Longrightarrow> (hash_neighbor sha ^^ d) hs = [merkle_tree sha d hs]"
proof (induction d arbitrary: hs)
  case 0
  then show ?case by (cases hs) auto
next
  case (Suc d)
  show ?case
  proof (cases "length hs \<le> 2 ^ d")
    case True
    with Suc show ?thesis by simp
  next
    case False
    let ?l = "take (2 ^ d) hs" and ?r = "drop (2 ^ d) hs"
    have "(hash_neighbor sha ^^ d) (?l @ ?r) = [merkle_tree sha d ?l, merkle_tree sha d ?r]"
      using False Suc by (subst rounds_append) auto
    with False show ?thesis by simp
  qed
qed

lemma merkle_root_Ok:
  "hs \<noteq> [] \<Longrightarrow> merkle_root sha hs = Ok (merkle_tree sha (merkle_depth (length hs)) hs)"
  by (simp add: merkle_root_def merkle_loop_rounds rounds_eq_tree merkle_depth_ge vec_index_def)

lemma merkle_root_round:
  assumes "2 < length hs"
  shows "merkle_root sha (hash_neighbor sha hs) = merkle_root sha hs"
proof -
  from assms have "Suc (length hs) div 2 \<noteq> Suc 0" by arith
  then have "merkle_loop sha hs = merkle_loop sha (hash_neighbor sha hs)"
    by (simp add: merkle_loop.simps [of sha hs] Let_def)
  with assms show ?thesis by (auto simp: merkle_root_def)
qed

subsection \<open>Binding\<close>

text \<open>All the strings hashed on the way to the root.\<close>

fun merkle_inputs :: "sha \<Rightarrow> nat \<Rightarrow> hash list \<Rightarrow> bytes list" where
  "merkle_inputs sha 0 hs = []"
| "merkle_inputs sha (Suc d) hs = neighbor_inputs hs @ merkle_inputs sha d (hash_neighbor sha hs)"

lemma rounds_inject:
  assumes "sha256_width sha" and "length xs = length ys"
    and "\<forall>h \<in> set xs. length h = 32" and "\<forall>h \<in> set ys. length h = 32"
    and "inj_on sha (set (merkle_inputs sha d xs) \<union> set (merkle_inputs sha d ys))"
    and "(hash_neighbor sha ^^ d) xs = (hash_neighbor sha ^^ d) ys"
  shows "xs = ys"
  using assms(2-)
proof (induction d arbitrary: xs ys)
  case 0
  then show ?case by simp
next
  case (Suc d)
  have inj: "inj_on sha (set (neighbor_inputs xs) \<union> set (neighbor_inputs ys))"
    by (rule inj_on_subset [OF Suc.prems(4)]) auto
  have inj': "inj_on sha (set (merkle_inputs sha d (hash_neighbor sha xs)) \<union>
      set (merkle_inputs sha d (hash_neighbor sha ys)))"
    by (rule inj_on_subset [OF Suc.prems(4)]) auto
  have "hash_neighbor sha xs = hash_neighbor sha ys"
  proof (rule Suc.IH [OF _ _ _ inj'])
    show "(hash_neighbor sha ^^ d) (hash_neighbor sha xs) = (hash_neighbor sha ^^ d) (hash_neighbor sha ys)"
      using Suc.prems(5) by (simp add: funpow_swap1)
  qed (use Suc.prems(1) hash_neighbor_width [OF assms(1)] in auto)
  then have "neighbor_inputs xs = neighbor_inputs ys"
    using inj by (simp add: hash_neighbor_def inj_on_map_eq_map)
  then show ?case by (rule neighbor_inputs_inject [OF Suc.prems(1-3)])
qed

section \<open>Properties\<close>

text \<open>Reading a file piece by piece, whatever the pieces the file hands out and whatever
  the buffer size, gives the hash of the whole content.\<close>

theorem chunked_hash_is_slice_hash:
  assumes "reads_of content (reads chunk_size)"
  shows "hash_with_chunk_size sha True reads chunk_size = Ok (hash_slice sha content)"
  using assms by (simp add: hash_with_chunk_size_def hash_slice_def hash_read_loop_content)

theorem chunked_hash_is_slice_hash_instance:
  "hash_with_chunk_size (take 2) True (\<lambda>_. [ReadBytes [1], ReadBytes [2, 3]]) 2 = Ok [1, 2]"
proof -
  have "reads_of [1, 2, 3] [ReadBytes [1], ReadBytes [2, 3]]"
    unfolding reads_of_def by (rule exI [of _ "[[1], [2, 3]]"]) simp
  then show ?thesis
    using chunked_hash_is_slice_hash [of "[1, 2, 3]" "\<lambda>_. [ReadBytes [1], ReadBytes [2, 3]]" 2 "take 2"]
    by (simp add: hash_slice_def)
qed

text \<open>C16: On every chain the root computation returns: the bottom-up loop stops after
  \<open>merkle_depth\<close> rounds with the root of the top-down tree over the block hashes; only the
  empty chain is refused.\<close>

theorem merkle_root_is_tree:
  "merkle_root sha hs =
     (if hs = [] then Err (H_Chain ''the chain is empty'')
      else Ok (merkle_tree sha (merkle_depth (length hs)) hs))"
proof (cases "hs = []")
  case True
  then show ?thesis by (simp add: merkle_root_def)
next
  case False
  then show ?thesis by (simp add: merkle_root_Ok)
qed

text \<open>C18: The root binds the chain: two chains of the same length with the same root have the
  same block hashes, as long as SHA-256 has no collision among the strings hashed on the way.\<close>

theorem merkle_root_binding:
  assumes "sha256_width sha" and "length xs = length ys" and "xs \<noteq> []"
    and "\<forall>h \<in> set xs. length h = 32" and "\<forall>h \<in> set ys. length h = 32"
    and "inj_on sha (set (merkle_inputs sha (merkle_depth (length xs)) xs) \<union>
                     set (merkle_inputs sha (merkle_depth (length xs)) ys))"
    and "merkle_root sha xs = merkle_root sha ys"
  shows "xs = ys"
proof -
  have ys: "ys \<noteq> []" using assms(2,3) by auto
  have "merkle_tree sha (merkle_depth (length xs)) xs = merkle_tree sha (merkle_depth (length ys)) ys"
    using assms(7) by (simp add: merkle_root_Ok assms(3) ys)
  then have "(hash_neighbor sha ^^ merkle_depth (length xs)) xs =
        (hash_neighbor sha ^^ merkle_depth (length xs)) ys"
    by (simp add: rounds_eq_tree merkle_depth_ge assms(2) assms(3) ys flip: assms(2))
  with assms show ?thesis by (intro rounds_inject [of sha xs ys]) auto
qed

theorem merkle_root_binding_witness:
  "let sha = (\<lambda>bs. take 32 (bs @ replicate 32 1)) in
     merkle_root sha [ZERO_HASH, ZERO_HASH] \<noteq> merkle_root sha [replicate 32 7, ZERO_HASH]"
proof -
  let ?sha = "\<lambda>bs :: bytes. take 32 (bs @ replicate 32 1)"
  let ?xs = "[ZERO_HASH, ZERO_HASH]" and ?ys = "[replicate 32 7, ZERO_HASH]"
  have d: "merkle_depth (length ?xs) = 1" by (simp add: merkle_depth.simps)
  have w: "sha256_width ?sha" by (auto simp: sha256_width_def min_def)
  have inj: "inj_on ?sha (set (merkle_inputs ?sha (merkle_depth (length ?xs)) ?xs) \<union>
      set (merkle_inputs ?sha (merkle_depth (length ?xs)) ?ys))"
    unfolding d by (simp add: ZERO_HASH_def)
  have "?xs \<noteq> ?ys" by (simp add: ZERO_HASH_def)
  with merkle_root_binding [OF w _ _ _ _ inj] show ?thesis by (auto simp: Let_def ZERO_HASH_def)
qed

text \<open>The root alone does not bind the length: the hashes of one round have the same root as
  the chain they come from, so the digest block's length field is needed to tell them apart.\<close>

theorem merkle_root_same_after_round:
  "merkle_root sha (hash_neighbor sha (a # b # c # hs)) = merkle_root sha (a # b # c # hs)"
  by (rule merkle_root_round) simp

end
