(* ===== verification/Block.thy ===== *)
theory Block imports Hash begin

text \<open>
  \<open>src/block.rs\<close> and the \<open>VoteBlock\<close> of \<open>src/network/protocol.rs\<close>. A trait is a record of its
  required methods (\<open>block_impl\<close> for \<open>Block\<close>, extended by \<open>carrier_impl\<close> and \<open>digester_impl\<close> for
  \<open>Carrier\<close> and \<open>Digester\<close>); its default methods take that record, as generic code does. The
  clock reading \<open>Utc::now().timestamp() as u64\<close> is the argument \<open>now\<close>.

  The locale \<open>lawful_block\<close> is what the chain code relies on when it is handed a block type;
  it is interpreted on the three block types of the crate.
\<close>

section \<open>The traits\<close>

record 'b block_impl =
  prev_hash_of :: "'b \<Rightarrow> hash"
  hash_of :: "'b \<Rightarrow> hash"
  index_of :: "'b \<Rightarrow> nat"
  genesis_of :: "u64 \<Rightarrow> u32 \<Rightarrow> 'b"
  hash_block_of :: "'b \<Rightarrow> hash"
  hash_verify_of :: "'b \<Rightarrow> unit outcome"
  digest_id_of :: "'b \<Rightarrow> nat"
  timestamp_of :: "'b \<Rightarrow> u64"

text \<open>\<open>Block::time_verify\<close> and \<open>Block::verify\<close>, the default methods.\<close>

definition time_verify :: "('b, 'z) block_impl_scheme \<Rightarrow> 'b \<Rightarrow> u64 \<Rightarrow> u64 \<Rightarrow> unit outcome" where
  "time_verify I b time_start time_gap =
     (let timestamp = timestamp_of I b in
      if timestamp < time_start
      then Err (H_Block ''timestamp is not correct, block is invalid in this chain'')
      else and_then (add_u64 time_start time_gap) (\<lambda>limit.
        if timestamp > limit
        then Err (H_Block ''timestamp is not correct, block is invalid in this chain'')
        else Ok ()))"

definition block_verify ::
    "('b, 'z) block_impl_scheme \<Rightarrow> 'b \<Rightarrow> hash \<Rightarrow> u64 \<Rightarrow> u64 \<Rightarrow> unit outcome" where
  "block_verify I b pre_hash time_start time_gap =
     and_then (hash_verify_of I b) (\<lambda>_.
     and_then (time_verify I b time_start time_gap) (\<lambda>_.
     if prev_hash_of I b \<noteq> pre_hash
     then Err (H_Block ''prev_hash is not correct, block is invalid in this chain'')
     else Ok ()))"

lemma time_verify_cases:
  "time_verify I b start gap =
     (if unat (timestamp_of I b) < unat start
      then Err (H_Block ''timestamp is not correct, block is invalid in this chain'')
      else if U64_MAX < unat start + unat gap then Panic
      else if unat start + unat gap < unat (timestamp_of I b)
      then Err (H_Block ''timestamp is not correct, block is invalid in this chain'')
      else Ok ())"
  using add_u64_cases [of start gap]
  by (auto simp: time_verify_def Let_def word_less_nat_alt)

text \<open>The message of every \<open>hash_verify\<close>.\<close>

definition hash_mismatch :: herror where
  "hash_mismatch = H_Block ''block hash is not equal to the hash of its fields''"

section \<open>Data blocks\<close>

record data_block_args =
  da_prev_hash :: hash
  da_data_hash :: hash
  da_data_uuid :: uuid
  da_digest_id :: u32
  da_index :: u32

definition data_block_args_new ::
    "hash \<Rightarrow> hash \<Rightarrow> uuid \<Rightarrow> u32 \<Rightarrow> u32 \<Rightarrow> data_block_args" where
  "data_block_args_new prev data_hash data_uuid digest_id index =
     \<lparr>da_prev_hash = prev, da_data_hash = data_hash, da_data_uuid = data_uuid,
      da_digest_id = digest_id, da_index = index\<rparr>"

record data_block =
  db_hash :: hash
  db_timestamp :: u64
  db_prev_hash :: hash
  db_data_hash :: hash
  db_data_uuid :: uuid
  db_digest_id :: u32
  db_index :: u32

text \<open>The byte string \<open>DataBlock::hash_block\<close> feeds to the hasher, and its digest.\<close>

definition data_preimage :: "data_block \<Rightarrow> bytes" where
  "data_preimage b =
     u64_be (db_timestamp b) @ db_prev_hash b @ db_data_hash b @ db_data_uuid b @
     u32_be (db_digest_id b) @ u32_be (db_index b)"

definition data_hash_block :: "sha \<Rightarrow> data_block \<Rightarrow> hash" where
  "data_hash_block sha b = sha (data_preimage b)"

definition data_hash_verify :: "sha \<Rightarrow> data_block \<Rightarrow> unit outcome" where
  "data_hash_verify sha b =
     (if db_hash b \<noteq> data_hash_block sha b then Err hash_mismatch else Ok ())"

definition data_private_new ::
    "sha \<Rightarrow> u64 \<Rightarrow> hash \<Rightarrow> hash \<Rightarrow> uuid \<Rightarrow> u32 \<Rightarrow> u32 \<Rightarrow> data_block" where
  "data_private_new sha now prev data_hash data_uuid digest_id index =
     (let block = \<lparr>db_hash = ZERO_HASH, db_timestamp = now, db_prev_hash = prev,
                   db_data_hash = data_hash, db_data_uuid = data_uuid,
                   db_digest_id = digest_id, db_index = index\<rparr>
      in block\<lparr>db_hash := data_hash_block sha block\<rparr>)"

definition data_create :: "sha \<Rightarrow> u64 \<Rightarrow> data_block_args \<Rightarrow> data_block" where
  "data_create sha now args =
     data_private_new sha now (da_prev_hash args) (da_data_hash args) (da_data_uuid args)
       (da_digest_id args) (da_index args)"

definition data_genesis :: "sha \<Rightarrow> u64 \<Rightarrow> u32 \<Rightarrow> data_block" where
  "data_genesis sha now digest_id =
     data_create sha now (data_block_args_new ZERO_HASH ZERO_HASH ZERO_UUID digest_id 0)"

text \<open>\<open>Carrier\<close>: a block that carries a data hash and uuid, created from \<open>DataBlockArgs\<close>.\<close>

record 'b carrier_impl = "'b block_impl" +
  data_hash_of :: "'b \<Rightarrow> hash"
  data_uuid_of :: "'b \<Rightarrow> uuid"
  data_create_of :: "u64 \<Rightarrow> data_block_args \<Rightarrow> 'b"

definition data_block_impl :: "sha \<Rightarrow> data_block carrier_impl" where
  "data_block_impl sha =
     \<lparr>prev_hash_of = db_prev_hash, hash_of = db_hash, index_of = (\<lambda>b. unat (db_index b)),
      genesis_of = data_genesis sha, hash_block_of = data_hash_block sha,
      hash_verify_of = data_hash_verify sha, digest_id_of = (\<lambda>b. unat (db_digest_id b)),
      timestamp_of = db_timestamp, data_hash_of = db_data_hash, data_uuid_of = db_data_uuid,
      data_create_of = data_create sha\<rparr>"

section \<open>Digest blocks\<close>

record digest_block_args =
  ga_prev_hash :: hash
  ga_merkle_root :: hash
  ga_length :: u32
  ga_digest_id :: u32

definition digest_block_args_new :: "hash \<Rightarrow> hash \<Rightarrow> u32 \<Rightarrow> u32 \<Rightarrow> digest_block_args" where
  "digest_block_args_new prev root len digest_id =
     \<lparr>ga_prev_hash = prev, ga_merkle_root = root, ga_length = len, ga_digest_id = digest_id\<rparr>"

record digest_block =
  dg_hash :: hash
  dg_digest_id :: u32
  dg_timestamp :: u64
  dg_prev_hash :: hash
  dg_merkle_root :: hash
  dg_length :: u32

definition digest_preimage :: "digest_block \<Rightarrow> bytes" where
  "digest_preimage b =
     u64_be (dg_timestamp b) @ dg_prev_hash b @ dg_merkle_root b @
     u32_be (dg_length b) @ u32_be (dg_digest_id b)"

definition digest_hash_block :: "sha \<Rightarrow> digest_block \<Rightarrow> hash" where
  "digest_hash_block sha b = sha (digest_preimage b)"

definition digest_hash_verify :: "sha \<Rightarrow> digest_block \<Rightarrow> unit outcome" where
  "digest_hash_verify sha b =
     (if dg_hash b \<noteq> digest_hash_block sha b then Err hash_mismatch else Ok ())"

definition digest_private_new :: "sha \<Rightarrow> u64 \<Rightarrow> hash \<Rightarrow> hash \<Rightarrow> u32 \<Rightarrow> u32 \<Rightarrow> digest_block" where
  "digest_private_new sha now prev root len digest_id =
     (let block = \<lparr>dg_hash = ZERO_HASH, dg_digest_id = digest_id, dg_timestamp = now,
                   dg_prev_hash = prev, dg_merkle_root = root, dg_length = len\<rparr>
      in block\<lparr>dg_hash := digest_hash_block sha block\<rparr>)"

definition digest_create :: "sha \<Rightarrow> u64 \<Rightarrow> digest_block_args \<Rightarrow> digest_block" where
  "digest_create sha now args =
     digest_private_new sha now (ga_prev_hash args) (ga_merkle_root args) (ga_length args)
       (ga_digest_id args)"

definition digest_genesis :: "sha \<Rightarrow> u64 \<Rightarrow> u32 \<Rightarrow> digest_block" where
  "digest_genesis sha now digest_id =
     digest_create sha now (digest_block_args_new ZERO_HASH ZERO_HASH 1 digest_id)"

text \<open>
  \<open>Digester\<close>: \<open>digest\<close> is a function of the digested chain's block hashes (all that
  \<open>HashValue::merkle_root\<close> reads of the chain), \<open>length\<close> reads the length a block records.
\<close>

record 'd digester_impl = "'d block_impl" +
  digest_of :: "hash list \<Rightarrow> hash outcome"
  length_of :: "'d \<Rightarrow> u32"
  digest_create_of :: "u64 \<Rightarrow> digest_block_args \<Rightarrow> 'd"

definition digest_block_impl :: "sha \<Rightarrow> digest_block digester_impl" where
  "digest_block_impl sha =
     \<lparr>prev_hash_of = dg_prev_hash, hash_of = dg_hash, index_of = (\<lambda>b. unat (dg_digest_id b)),
      genesis_of = digest_genesis sha, hash_block_of = digest_hash_block sha,
      hash_verify_of = digest_hash_verify sha, digest_id_of = (\<lambda>b. unat (dg_digest_id b)),
      timestamp_of = dg_timestamp, digest_of = merkle_root sha, length_of = dg_length,
      digest_create_of = digest_create sha\<rparr>"

section \<open>Vote blocks\<close>

text \<open>The \<open>f32\<close> consensus result is its bit pattern; \<open>vote.to_string()\<close> is the word itself.\<close>

record vote_block_args =
  va_prev_hash :: hash
  va_expire_time :: u64
  va_block_hash :: hash
  va_voter :: hash
  va_vote :: bool
  va_suspected_block :: hash
  va_result :: u32
  va_index :: nat
  va_digest_id :: u32

definition vote_block_args_new ::
    "hash \<Rightarrow> u64 \<Rightarrow> hash \<Rightarrow> hash \<Rightarrow> bool \<Rightarrow> hash \<Rightarrow> u32 \<Rightarrow> nat \<Rightarrow> u32 \<Rightarrow> vote_block_args" where
  "vote_block_args_new prev expire_time block_hash voter vote suspected result index digest_id =
     \<lparr>va_prev_hash = prev, va_expire_time = expire_time, va_block_hash = block_hash, va_voter = voter,
      va_vote = vote, va_suspected_block = suspected, va_result = result, va_index = index,
      va_digest_id = digest_id\<rparr>"

record vote_block =
  vb_hash :: hash
  vb_prev_hash :: hash
  vb_expire_time :: u64
  vb_block_hash :: hash
  vb_voter :: hash
  vb_vote :: bool
  vb_timestamp :: u64
  vb_suspected_block :: hash
  vb_result :: u32
  vb_index :: nat
  vb_digest_id :: u32

definition str_bytes :: "string \<Rightarrow> bytes" where
  "str_bytes s = map (\<lambda>c. word_of_nat (of_char c)) s"

definition bool_to_string :: "bool \<Rightarrow> string" where
  "bool_to_string v = (if v then ''true'' else ''false'')"

definition vote_preimage :: "vote_block \<Rightarrow> bytes" where
  "vote_preimage b =
     vb_prev_hash b @ u64_be (vb_timestamp b) @ u64_be (vb_expire_time b) @ vb_block_hash b @
     vb_voter b @ str_bytes (bool_to_string (vb_vote b)) @ vb_suspected_block b @
     u32_be (vb_result b) @ be_bytes 8 (vb_index b) @ u32_be (vb_digest_id b)"

definition vote_hash_block :: "sha \<Rightarrow> vote_block \<Rightarrow> hash" where
  "vote_hash_block sha b = sha (vote_preimage b)"

definition vote_hash_verify :: "sha \<Rightarrow> vote_block \<Rightarrow> unit outcome" where
  "vote_hash_verify sha b =
     (if vb_hash b \<noteq> vote_hash_block sha b then Err hash_mismatch else Ok ())"

definition vote_private_new ::
    "sha \<Rightarrow> u64 \<Rightarrow> hash \<Rightarrow> u64 \<Rightarrow> hash \<Rightarrow> hash \<Rightarrow> bool \<Rightarrow> hash \<Rightarrow> u32 \<Rightarrow> nat \<Rightarrow> u32 \<Rightarrow> vote_block" where
  "vote_private_new sha now prev expire_time block_hash voter vote suspected result index digest_id =
     (let block = \<lparr>vb_hash = ZERO_HASH, vb_prev_hash = prev, vb_expire_time = expire_time,
                   vb_block_hash = block_hash, vb_voter = voter, vb_vote = vote,
                   vb_timestamp = now, vb_suspected_block = suspected, vb_result = result,
                   vb_index = index, vb_digest_id = digest_id\<rparr>
      in block\<lparr>vb_hash := vote_hash_block sha block\<rparr>)"

definition vote_create :: "sha \<Rightarrow> u64 \<Rightarrow> vote_block_args \<Rightarrow> vote_block" where
  "vote_create sha now args =
     vote_private_new sha now (va_prev_hash args) (va_expire_time args) (va_block_hash args)
       (va_voter args) (va_vote args) (va_suspected_block args) (va_result args) (va_index args)
       (va_digest_id args)"

text \<open>The inherent \<open>VoteBlock::new\<close> is the trait's \<open>create\<close>.\<close>

definition vote_new :: "sha \<Rightarrow> u64 \<Rightarrow> vote_block_args \<Rightarrow> vote_block" where
  "vote_new sha now args =
     vote_private_new sha now (va_prev_hash args) (va_expire_time args) (va_block_hash args)
       (va_voter args) (va_vote args) (va_suspected_block args) (va_result args) (va_index args)
       (va_digest_id args)"

lemma vote_new_create: "vote_new = vote_create"
  by (simp add: fun_eq_iff vote_new_def vote_create_def)

definition vote_genesis :: "sha \<Rightarrow> u64 \<Rightarrow> u32 \<Rightarrow> vote_block" where
  "vote_genesis sha now digest_id =
     vote_create sha now
       \<lparr>va_prev_hash = ZERO_HASH, va_expire_time = 0, va_block_hash = ZERO_HASH,
        va_voter = ZERO_HASH, va_vote = False, va_suspected_block = ZERO_HASH, va_result = 0,
        va_index = 0, va_digest_id = digest_id\<rparr>"

definition vote_block_impl :: "sha \<Rightarrow> vote_block block_impl" where
  "vote_block_impl sha =
     \<lparr>prev_hash_of = vb_prev_hash, hash_of = vb_hash, index_of = vb_index,
      genesis_of = vote_genesis sha, hash_block_of = vote_hash_block sha,
      hash_verify_of = vote_hash_verify sha, digest_id_of = (\<lambda>b. unat (vb_digest_id b)),
      timestamp_of = vb_timestamp\<rparr>"

section \<open>What the chain code relies on\<close>

text \<open>A verdict is the comparison of the stored with the computed hash; a genesis block is sealed,
  has the zero hash as predecessor and carries the clock reading and the given digest id.\<close>

locale lawful_block =
  fixes I :: "('b, 'z) block_impl_scheme"
  assumes hash_verify_cases:
      "hash_verify_of I b = (if hash_of I b = hash_block_of I b then Ok () else Err hash_mismatch)"
    and genesis_sealed:
      "hash_of I (genesis_of I now d) = hash_block_of I (genesis_of I now d)"
    and genesis_prev: "prev_hash_of I (genesis_of I now d) = ZERO_HASH"
    and genesis_time: "timestamp_of I (genesis_of I now d) = now"
    and genesis_digest_id: "digest_id_of I (genesis_of I now d) = unat d"
begin

lemma hash_verify_Ok: "hash_verify_of I b = Ok () \<longleftrightarrow> hash_of I b = hash_block_of I b"
  by (simp add: hash_verify_cases)

lemma genesis_hash_verify: "hash_verify_of I (genesis_of I now d) = Ok ()"
  by (simp add: hash_verify_Ok genesis_sealed)

lemma verify_Ok:
  "block_verify I b pre start gap = Ok () \<longleftrightarrow>
     hash_of I b = hash_block_of I b \<and> prev_hash_of I b = pre \<and>
     unat start \<le> unat (timestamp_of I b) \<and>
     unat (timestamp_of I b) \<le> unat start + unat gap \<and> unat start + unat gap \<le> U64_MAX"
  by (auto simp: block_verify_def hash_verify_cases time_verify_cases)

lemma verify_Panic:
  "block_verify I b pre start gap = Panic \<longleftrightarrow>
     hash_of I b = hash_block_of I b \<and> unat start \<le> unat (timestamp_of I b) \<and>
     U64_MAX < unat start + unat gap"
  by (auto simp: block_verify_def hash_verify_cases time_verify_cases)

lemma verify_returns:
  "block_verify I b pre start gap \<noteq> Undefined" "block_verify I b pre start gap \<noteq> Diverge"
  by (auto simp: block_verify_def hash_verify_cases time_verify_cases)

end

text \<open>In addition, the hash is the digest of a byte string that determines the other fields.\<close>

locale sealed_block = lawful_block I for I :: "('b, 'z) block_impl_scheme" +
  fixes sha :: sha and preimage :: "'b \<Rightarrow> bytes" and wf :: "'b \<Rightarrow> bool"
  assumes hash_block_sha: "hash_block_of I b = sha (preimage b)"
    and preimage_inject:
      "wf a \<Longrightarrow> wf b \<Longrightarrow> preimage a = preimage b \<Longrightarrow> hash_of I a = hash_of I b \<Longrightarrow> a = b"
begin

lemma same_seal_same_block:
  assumes "wf a" "wf b" "hash_verify_of I a = Ok ()" "hash_verify_of I b = Ok ()"
    and "hash_of I a = hash_of I b" and "inj_on sha {preimage a, preimage b}"
  shows "a = b"
proof -
  have "sha (preimage a) = sha (preimage b)"
    using assms(3-5) unfolding hash_verify_Ok hash_block_sha by (metis (no_types))
  with assms(6) have "preimage a = preimage b" by (auto dest: inj_onD)
  with assms(1,2) show ?thesis using assms(5) by (rule preimage_inject)
qed

end

subsection \<open>The three block types\<close>

text \<open>The widths of the fixed-size arrays.\<close>

definition data_block_wf :: "data_block \<Rightarrow> bool" where
  "data_block_wf b \<longleftrightarrow> length (db_hash b) = 32 \<and> length (db_prev_hash b) = 32 \<and>
     length (db_data_hash b) = 32 \<and> length (db_data_uuid b) = 16"

definition digest_block_wf :: "digest_block \<Rightarrow> bool" where
  "digest_block_wf b \<longleftrightarrow> length (dg_hash b) = 32 \<and> length (dg_prev_hash b) = 32 \<and>
     length (dg_merkle_root b) = 32"

definition vote_block_wf :: "vote_block \<Rightarrow> bool" where
  "vote_block_wf b \<longleftrightarrow> length (vb_hash b) = 32 \<and> length (vb_prev_hash b) = 32 \<and>
     length (vb_block_hash b) = 32 \<and> length (vb_voter b) = 32 \<and>
     length (vb_suspected_block b) = 32 \<and> vb_index b < 256 ^ 8"

lemmas data_defs = data_private_new_def data_create_def data_genesis_def data_block_args_new_def
  data_hash_block_def data_preimage_def data_hash_verify_def Let_def
lemmas digest_defs = digest_private_new_def digest_create_def digest_genesis_def
  digest_block_args_new_def digest_hash_block_def digest_preimage_def digest_hash_verify_def Let_def
lemmas vote_defs = vote_private_new_def vote_create_def vote_genesis_def vote_hash_block_def
  vote_preimage_def vote_hash_verify_def Let_def

lemma data_preimage_inject:
  assumes "data_block_wf a" "data_block_wf b" "data_preimage a = data_preimage b"
    and "db_hash a = db_hash b"
  shows "a = b"
  using assms by (cases a; cases b) (simp add: data_preimage_def data_block_wf_def)

lemma digest_preimage_inject:
  assumes "digest_block_wf a" "digest_block_wf b" "digest_preimage a = digest_preimage b"
    and "dg_hash a = dg_hash b"
  shows "a = b"
  using assms by (cases a; cases b) (simp add: digest_preimage_def digest_block_wf_def)

text \<open>The written-out vote has no fixed width, but the total length gives it away.\<close>

lemma length_vote_preimage:
  "vote_block_wf b \<Longrightarrow> length (vote_preimage b) = (if vb_vote b then 164 else 165)"
  by (simp add: vote_preimage_def vote_block_wf_def str_bytes_def bool_to_string_def)

lemma vote_preimage_inject:
  assumes "vote_block_wf a" "vote_block_wf b" "vote_preimage a = vote_preimage b"
    and "vb_hash a = vb_hash b"
  shows "a = b"
proof -
  have "vb_vote a = vb_vote b"
    using length_vote_preimage [OF assms(1)] length_vote_preimage [OF assms(2)] assms(3)
    by (auto split: if_splits)
  with assms show ?thesis
    by (cases a; cases b) (simp add: vote_preimage_def vote_block_wf_def be_bytes_inject)
qed

interpretation data_sealed: sealed_block "data_block_impl sha" sha data_preimage data_block_wf
  by unfold_locales
    (auto simp: data_block_impl_def data_defs intro: data_preimage_inject)

interpretation digest_sealed: sealed_block "digest_block_impl sha" sha digest_preimage digest_block_wf
  by unfold_locales
    (auto simp: digest_block_impl_def digest_defs intro: digest_preimage_inject)

interpretation vote_sealed: sealed_block "vote_block_impl sha" sha vote_preimage vote_block_wf
  by unfold_locales
    (auto simp: vote_block_impl_def vote_defs intro: vote_preimage_inject)

lemma data_impl_simps [simp]:
  "prev_hash_of (data_block_impl sha) = db_prev_hash" "hash_of (data_block_impl sha) = db_hash"
  "index_of (data_block_impl sha) b = unat (db_index b)"
  "genesis_of (data_block_impl sha) = data_genesis sha"
  "hash_block_of (data_block_impl sha) b = sha (data_preimage b)"
  "hash_verify_of (data_block_impl sha) = data_hash_verify sha"
  "digest_id_of (data_block_impl sha) b = unat (db_digest_id b)"
  "timestamp_of (data_block_impl sha) = db_timestamp"
  "data_hash_of (data_block_impl sha) = db_data_hash"
  "data_uuid_of (data_block_impl sha) = db_data_uuid"
  "data_create_of (data_block_impl sha) = data_create sha"
  by (simp_all add: data_block_impl_def data_hash_block_def)

lemma digest_impl_simps [simp]:
  "prev_hash_of (digest_block_impl sha) = dg_prev_hash" "hash_of (digest_block_impl sha) = dg_hash"
  "index_of (digest_block_impl sha) g = unat (dg_digest_id g)"
  "genesis_of (digest_block_impl sha) = digest_genesis sha"
  "hash_block_of (digest_block_impl sha) g = sha (digest_preimage g)"
  "hash_verify_of (digest_block_impl sha) = digest_hash_verify sha"
  "digest_id_of (digest_block_impl sha) g = unat (dg_digest_id g)"
  "timestamp_of (digest_block_impl sha) = dg_timestamp"
  "digest_of (digest_block_impl sha) = merkle_root sha"
  "length_of (digest_block_impl sha) = dg_length"
  "digest_create_of (digest_block_impl sha) = digest_create sha"
  by (simp_all add: digest_block_impl_def digest_hash_block_def)

lemma vote_impl_simps [simp]:
  "prev_hash_of (vote_block_impl sha) = vb_prev_hash" "hash_of (vote_block_impl sha) = vb_hash"
  "index_of (vote_block_impl sha) = vb_index"
  "genesis_of (vote_block_impl sha) = vote_genesis sha"
  "hash_block_of (vote_block_impl sha) v = sha (vote_preimage v)"
  "hash_verify_of (vote_block_impl sha) = vote_hash_verify sha"
  "digest_id_of (vote_block_impl sha) v = unat (vb_digest_id v)"
  "timestamp_of (vote_block_impl sha) = vb_timestamp"
  by (simp_all add: vote_block_impl_def vote_hash_block_def)

text \<open>For the concrete instances: a digest that tells one string from the others, and a block of
  each kind under it.\<close>

definition two_way_digest :: "bytes \<Rightarrow> sha" where
  "two_way_digest p bs = replicate 32 (if bs = p then 1 else 2)"

definition sample_data_block :: data_block where
  "sample_data_block = \<lparr>db_hash = replicate 32 1, db_timestamp = 10, db_prev_hash = ZERO_HASH,
     db_data_hash = ZERO_HASH, db_data_uuid = ZERO_UUID, db_digest_id = 1, db_index = 0\<rparr>"

definition sample_vote_block :: vote_block where
  "sample_vote_block = \<lparr>vb_hash = replicate 32 1, vb_prev_hash = ZERO_HASH, vb_expire_time = 0,
     vb_block_hash = ZERO_HASH, vb_voter = ZERO_HASH, vb_vote = True, vb_timestamp = 10,
     vb_suspected_block = ZERO_HASH, vb_result = 0, vb_index = 1, vb_digest_id = 1\<rparr>"

section \<open>Properties\<close>

text \<open>The verdict on a data block: it is accepted exactly when its hash is the digest of its
  fields, it follows the given predecessor and its timestamp lies in the window, read as
  integers; the check panics exactly when the hash is right, the timestamp is not too early and
  the end of the window overflows 64 bits.\<close>

theorem data_block_verdict:
  "(block_verify (data_block_impl sha) b pre start gap = Ok () \<longleftrightarrow>
      db_hash b = sha (data_preimage b) \<and> db_prev_hash b = pre \<and>
      unat start \<le> unat (db_timestamp b) \<and>
      unat (db_timestamp b) \<le> unat start + unat gap \<and> unat start + unat gap \<le> U64_MAX) \<and>
   (block_verify (data_block_impl sha) b pre start gap = Panic \<longleftrightarrow>
      db_hash b = sha (data_preimage b) \<and> unat start \<le> unat (db_timestamp b) \<and>
      U64_MAX < unat start + unat gap)"
  using data_sealed.verify_Ok [of sha b pre start gap] data_sealed.verify_Panic [of sha b pre start gap]
  by simp

text \<open>A freshly created block of each of the three types passes verification after the
  predecessor it was created with, in every window that contains the creation time.\<close>

theorem created_blocks_verify:
  assumes "unat start \<le> unat now" and "unat now \<le> unat start + unat gap"
    and "unat start + unat gap \<le> U64_MAX"
  shows "block_verify (data_block_impl sha) (data_create sha now da) (da_prev_hash da) start gap = Ok ()
    \<and> block_verify (digest_block_impl sha) (digest_create sha now ga) (ga_prev_hash ga) start gap = Ok ()
    \<and> block_verify (vote_block_impl sha) (vote_create sha now va) (va_prev_hash va) start gap = Ok ()"
  unfolding data_sealed.verify_Ok digest_sealed.verify_Ok vote_sealed.verify_Ok
  using assms
  by (simp add: data_defs digest_defs vote_defs)

theorem created_blocks_verify_instance:
  "block_verify (data_block_impl (take 32))
     (data_create (take 32) 7 (data_block_args_new ZERO_HASH ZERO_HASH ZERO_UUID 1 1)) ZERO_HASH 5 3 = Ok ()"
  using created_blocks_verify [of 5 7 3 "take 32" "data_block_args_new ZERO_HASH ZERO_HASH ZERO_UUID 1 1"]
  by (simp add: U64_MAX_def data_block_args_new_def)

text \<open>C23: A data block cannot be altered under its hash: any other block that keeps the hash
  field of a valid block fails the hash check, unless the two field strings collide.\<close>

theorem data_block_tamper_evident:
  assumes "data_block_wf a" and "data_block_wf b" and "a \<noteq> b" and "db_hash b = db_hash a"
    and "data_hash_verify sha a = Ok ()"
    and "inj_on sha {data_preimage a, data_preimage b}"
  shows "data_hash_verify sha b = Err hash_mismatch"
proof (rule ccontr)
  assume "data_hash_verify sha b \<noteq> Err hash_mismatch"
  then have "data_hash_verify sha b = Ok ()" by (simp add: data_hash_verify_def split: if_splits)
  then have "a = b"
    using data_sealed.same_seal_same_block [of a b sha] assms by simp
  with assms(3) show False by simp
qed

theorem data_block_tamper_evident_witness:
  "data_hash_verify (two_way_digest (data_preimage sample_data_block))
     (sample_data_block\<lparr>db_digest_id := 2\<rparr>) = Err hash_mismatch"
proof -
  let ?a = sample_data_block and ?b = "sample_data_block\<lparr>db_digest_id := 2\<rparr>"
  have ne: "data_preimage ?b \<noteq> data_preimage ?a"
    by (simp add: sample_data_block_def data_preimage_def)
  then have inj: "inj_on (two_way_digest (data_preimage ?a)) {data_preimage ?a, data_preimage ?b}"
    by (auto simp: two_way_digest_def)
  have ok: "data_hash_verify (two_way_digest (data_preimage ?a)) ?a = Ok ()"
    by (simp add: data_hash_verify_def data_hash_block_def two_way_digest_def)
       (simp add: sample_data_block_def)
  show ?thesis
    by (rule data_block_tamper_evident [OF _ _ _ _ ok inj])
       (simp_all add: data_block_wf_def sample_data_block_def)
qed

text \<open>The same for vote blocks, whose field string has no fixed width: the vote written as a
  word still determines the block.\<close>

theorem vote_block_tamper_evident:
  assumes "vote_block_wf a" and "vote_block_wf b" and "a \<noteq> b" and "vb_hash b = vb_hash a"
    and "vote_hash_verify sha a = Ok ()"
    and "inj_on sha {vote_preimage a, vote_preimage b}"
  shows "vote_hash_verify sha b = Err hash_mismatch"
proof (rule ccontr)
  assume "vote_hash_verify sha b \<noteq> Err hash_mismatch"
  then have "vote_hash_verify sha b = Ok ()" by (simp add: vote_hash_verify_def split: if_splits)
  then have "a = b"
    using vote_sealed.same_seal_same_block [of a b sha] assms by simp
  with assms(3) show False by simp
qed

theorem vote_block_tamper_evident_instance:
  "vote_hash_verify (two_way_digest (vote_preimage sample_vote_block))
     (sample_vote_block\<lparr>vb_vote := False\<rparr>) = Err hash_mismatch"
proof -
  let ?a = sample_vote_block and ?b = "sample_vote_block\<lparr>vb_vote := False\<rparr>"
  have wf: "vote_block_wf ?a" "vote_block_wf ?b"
    by (simp_all add: vote_block_wf_def sample_vote_block_def)
  have "length (vote_preimage ?b) \<noteq> length (vote_preimage ?a)"
    unfolding length_vote_preimage [OF wf(1)] length_vote_preimage [OF wf(2)]
    by (simp add: sample_vote_block_def)
  then have ne: "vote_preimage ?b \<noteq> vote_preimage ?a" by metis
  then have inj: "inj_on (two_way_digest (vote_preimage ?a)) {vote_preimage ?a, vote_preimage ?b}"
    by (auto simp: two_way_digest_def)
  have ok: "vote_hash_verify (two_way_digest (vote_preimage ?a)) ?a = Ok ()"
    by (simp add: vote_hash_verify_def vote_hash_block_def two_way_digest_def)
       (simp add: sample_vote_block_def)
  show ?thesis
    by (rule vote_block_tamper_evident [OF wf _ _ ok inj])
       (simp_all add: sample_vote_block_def)
qed

end
