(* ===== verification/ChainDefs.thy ===== *)
theory ChainDefs imports Block "HOL-Library.AList" begin

text \<open>
  \<open>src/chain.rs\<close>, the definitions: the \<open>Chain\<close> trait with its default methods, \<open>ChainLimit\<close>,
  \<open>BlockChain\<close>, \<open>ChainRef\<close>, \<open>Main\<close>, \<open>Sides\<close> and the \<open>ChainInfo\<close> builder; and
  \<open>Block::time_verify_with_chain\<close> of \<open>src/block.rs\<close>, which takes a chain.

  A method with \<open>&mut self\<close> returns its result and the new value. A \<open>ChainRef\<close> is a raw pointer
  into a block vector: the vector, an offset and a length; reading an element outside the vector
  is \<open>Undefined\<close>. The \<open>HashMap\<close> of \<open>Sides\<close> is an association list without duplicate keys.
\<close>

section \<open>Limits\<close>

record chain_limit =
  cl_max_len :: nat
  cl_time_gap :: u64

definition chain_limit_new :: "nat \<Rightarrow> u64 \<Rightarrow> chain_limit" where
  "chain_limit_new max_len time_gap = \<lparr>cl_max_len = max_len, cl_time_gap = time_gap\<rparr>"

definition limit_max_len :: "chain_limit \<Rightarrow> nat" where "limit_max_len l = cl_max_len l"

definition limit_time_gap :: "chain_limit \<Rightarrow> u64" where "limit_time_gap l = cl_time_gap l"

definition length_check :: "chain_limit \<Rightarrow> nat \<Rightarrow> unit outcome" where
  "length_check l len =
     (if len > cl_max_len l then Err (H_Chain ''chain length is too long, max length is {}'')
      else Ok ())"

definition time_check :: "('b, 'z) block_impl_scheme \<Rightarrow> chain_limit \<Rightarrow> u64 \<Rightarrow> 'b \<Rightarrow> unit outcome" where
  "time_check I l origin b =
     and_then (add_u64 origin (cl_time_gap l)) (\<lambda>limit.
       if timestamp_of I b > limit
       then Err (H_Chain ''the time gap between the new block and the origin block is too long'')
       else Ok ())"

definition chain_limit_default :: chain_limit where
  "chain_limit_default = \<lparr>cl_max_len = 1000, cl_time_gap = 60 * 60 * 24\<rparr>"

section \<open>The trait\<close>

record ('c, 'b) chain_impl =
  block_ref_of :: "'c \<Rightarrow> nat \<Rightarrow> 'b option"
  len_of :: "'c \<Rightarrow> nat"
  limit_of :: "'c \<Rightarrow> chain_limit"
  gap_of :: "'c \<Rightarrow> u64"

definition chain_origin ::
    "('c, 'b) chain_impl \<Rightarrow> ('b, 'z) block_impl_scheme \<Rightarrow> 'c \<Rightarrow> u64 option outcome" where
  "chain_origin C I c =
     (if len_of C c = 0 then Ok None
      else and_then (unwrap (block_ref_of C c 0)) (\<lambda>b. Ok (Some (timestamp_of I b))))"

text \<open>\<open>Chain::verify\<close>: the body of the loop \<open>for i in 1..len\<close> on the remaining indices.\<close>

fun verify_loop ::
    "('c, 'b) chain_impl \<Rightarrow> ('b, 'z) block_impl_scheme \<Rightarrow> 'c \<Rightarrow> u64 \<Rightarrow> u64 \<Rightarrow> nat list \<Rightarrow> unit outcome" where
  "verify_loop C I c time_start time_gap [] = Ok ()"
| "verify_loop C I c time_start time_gap (i # is) =
     and_then (unwrap (block_ref_of C c i)) (\<lambda>block.
     and_then (unwrap (block_ref_of C c (i - 1))) (\<lambda>pre_block.
     and_then (block_verify I block (hash_of I pre_block) time_start time_gap) (\<lambda>_.
     verify_loop C I c time_start time_gap is)))"

definition chain_verify ::
    "('c, 'b) chain_impl \<Rightarrow> ('b, 'z) block_impl_scheme \<Rightarrow> 'c \<Rightarrow> unit outcome" where
  "chain_verify C I c =
     (let len = len_of C c in
      if len = 0 \<or> len = 1 then Err (H_Chain ''empty chain'')
      else and_then (chain_origin C I c) (\<lambda>origin.
           and_then (unwrap origin) (\<lambda>time_start.
           verify_loop C I c time_start (gap_of C c) [1..<len])))"

definition chain_is_empty :: "('c, 'b) chain_impl \<Rightarrow> 'c \<Rightarrow> unit outcome" where
  "chain_is_empty C c = (if len_of C c = 0 then Err (H_Chain ''empty chain'') else Ok ())"

definition last_block_ref :: "('c, 'b) chain_impl \<Rightarrow> 'c \<Rightarrow> 'b option outcome" where
  "last_block_ref C c =
     (let len = len_of C c in
      if len = 0 then Ok None
      else and_then (unwrap (block_ref_of C c (len - 1))) (\<lambda>b. Ok (Some b)))"

definition last_index ::
    "('c, 'b) chain_impl \<Rightarrow> ('b, 'z) block_impl_scheme \<Rightarrow> 'c \<Rightarrow> nat option outcome" where
  "last_index C I c =
     (let len = len_of C c in
      if len = 0 then Ok None
      else and_then (unwrap (block_ref_of C c (len - 1))) (\<lambda>b. Ok (Some (index_of I b))))"

definition block_ref_by_index ::
    "('c, 'b) chain_impl \<Rightarrow> ('b, 'z) block_impl_scheme \<Rightarrow> 'c \<Rightarrow> nat \<Rightarrow> 'b option outcome" where
  "block_ref_by_index C I c index =
     and_then (unwrap (block_ref_of C c 0)) (\<lambda>first.
     and_then (sub_usize (len_of C c) 1) (\<lambda>l.
     and_then (unwrap (block_ref_of C c l)) (\<lambda>last_b.
     if index \<ge> index_of I first \<and> index \<le> index_of I last_b
     then and_then (unwrap (block_ref_of C c (index - index_of I first))) (\<lambda>b. Ok (Some b))
     else Ok None)))"

definition get_block_by_index :: "('c, 'b) chain_impl \<Rightarrow> 'c \<Rightarrow> nat \<Rightarrow> 'b option" where
  "get_block_by_index C c index = block_ref_of C c index"

text \<open>The search loops \<open>for i in 0..len\<close> of the three getters below.\<close>

fun search_loop :: "('c, 'b) chain_impl \<Rightarrow> 'c \<Rightarrow> ('b \<Rightarrow> bool) \<Rightarrow> nat list \<Rightarrow> 'b option outcome" where
  "search_loop C c P [] = Ok None"
| "search_loop C c P (i # is) =
     and_then (unwrap (block_ref_of C c i)) (\<lambda>b.
       if P b then Ok (block_ref_of C c i) else search_loop C c P is)"

definition get_block_by_hash ::
    "('c, 'b) chain_impl \<Rightarrow> ('b, 'z) block_impl_scheme \<Rightarrow> 'c \<Rightarrow> hash \<Rightarrow> 'b option outcome" where
  "get_block_by_hash C I c h = search_loop C c (\<lambda>b. hash_of I b = h) [0..<len_of C c]"

definition get_block_by_data_hash ::
    "('c, 'b) chain_impl \<Rightarrow> ('b, 'z) carrier_impl_scheme \<Rightarrow> 'c \<Rightarrow> hash \<Rightarrow> 'b option outcome" where
  "get_block_by_data_hash C I c h = search_loop C c (\<lambda>b. data_hash_of I b = h) [0..<len_of C c]"

definition get_block_by_data_uuid ::
    "('c, 'b) chain_impl \<Rightarrow> ('b, 'z) carrier_impl_scheme \<Rightarrow> 'c \<Rightarrow> uuid \<Rightarrow> 'b option outcome" where
  "get_block_by_data_uuid C I c u = search_loop C c (\<lambda>b. data_uuid_of I b = u) [0..<len_of C c]"

text \<open>\<open>Block::time_verify_with_chain\<close>.\<close>

definition time_verify_with_chain ::
    "('c, 'cb) chain_impl \<Rightarrow> ('cb, 'y) block_impl_scheme \<Rightarrow> ('b, 'z) block_impl_scheme \<Rightarrow>
     'b \<Rightarrow> 'c \<Rightarrow> unit outcome" where
  "time_verify_with_chain C J I b c =
     (if len_of C c = 0
      then Err (H_Block ''chain is empty, can not verify the block we have now!'')
      else and_then (chain_origin C J c) (\<lambda>origin.
           and_then (unwrap origin) (\<lambda>time_start.
           time_verify I b time_start (gap_of C c))))"

section \<open>Block chains\<close>

record 'b block_chain =
  bc_blocks :: "'b list"
  bc_limit :: chain_limit

text \<open>The three iterators of a chain yield its blocks in order.\<close>

definition bc_iter :: "'b block_chain \<Rightarrow> 'b list" where "bc_iter c = bc_blocks c"

definition bc_block_ref :: "'b block_chain \<Rightarrow> nat \<Rightarrow> 'b option" where
  "bc_block_ref c local_index =
     (if local_index < length (bc_blocks c) then Some (bc_blocks c ! local_index) else None)"

definition block_chain_impl :: "('b block_chain, 'b) chain_impl" where
  "block_chain_impl =
     \<lparr>block_ref_of = bc_block_ref, len_of = (\<lambda>c. length (bc_blocks c)), limit_of = bc_limit,
      gap_of = (\<lambda>c. cl_time_gap (bc_limit c))\<rparr>"

definition chain_new ::
    "('b, 'z) block_impl_scheme \<Rightarrow> u64 \<Rightarrow> u32 \<Rightarrow> chain_limit \<Rightarrow> 'b block_chain" where
  "chain_new I now digest_id limit =
     (let block = genesis_of I now digest_id; chain = \<lparr>bc_blocks = [], bc_limit = limit\<rparr>
      in chain\<lparr>bc_blocks := bc_blocks chain @ [block]\<rparr>)"

definition chain_block_verify ::
    "('b, 'z) block_impl_scheme \<Rightarrow> 'b block_chain \<Rightarrow> 'b \<Rightarrow> unit outcome" where
  "chain_block_verify I c block =
     (if length (bc_blocks c) = 0 then Err (H_Chain ''empty chain'')
      else let pre_hash = hash_of I (last (bc_blocks c)) in
           and_then (chain_origin block_chain_impl I c) (\<lambda>origin.
           and_then (unwrap origin) (\<lambda>time_origin.
           block_verify I block pre_hash time_origin (gap_of block_chain_impl c))))"

definition is_full :: "'b block_chain \<Rightarrow> bool" where
  "is_full c \<longleftrightarrow> length (bc_blocks c) \<ge> cl_max_len (bc_limit c)"

text \<open>\<open>Vec::push\<close> and \<open>BlockChain::add\<close>.\<close>

definition push_block :: "'b \<Rightarrow> 'b block_chain \<Rightarrow> 'b block_chain" where
  "push_block b c = c\<lparr>bc_blocks := bc_blocks c @ [b]\<rparr>"

definition chain_add ::
    "('b, 'z) block_impl_scheme \<Rightarrow> 'b block_chain \<Rightarrow> 'b \<Rightarrow> unit outcome \<times> 'b block_chain" where
  "chain_add I c block =
     (if length (bc_blocks c) = 0 then
        if prev_hash_of I block \<noteq> ZERO_HASH then (Err (H_Chain ''empty chain''), c)
        else (Ok (), push_block block c)
      else if is_full c then (Err (H_Chain ''chain is full''), c)
      else case chain_block_verify I c block of
             Ok _ \<Rightarrow> (Ok (), push_block block c)
           | r \<Rightarrow> (r, c))"

definition empty_with_capacity :: "nat \<Rightarrow> 'b block_chain" where
  "empty_with_capacity capacity = \<lparr>bc_blocks = [], bc_limit = chain_limit_default\<rparr>"

section \<open>Chain references\<close>

record 'b chain_ref =
  cr_buf :: "'b list"    \<comment> \<open>the vector the pointer points into\<close>
  cr_off :: nat          \<comment> \<open>the element it points at\<close>
  cr_len :: nat

definition cr_ref_len :: "'b chain_ref \<Rightarrow> nat" where "cr_ref_len r = cr_len r"

definition cr_read :: "'b chain_ref \<Rightarrow> nat \<Rightarrow> 'b outcome" where
  "cr_read r i = (if cr_off r + i < length (cr_buf r) then Ok (cr_buf r ! (cr_off r + i)) else Undefined)"

text \<open>\<open>ChainRef::new\<close> and its loop; the first block is skipped.\<close>

fun cr_new_loop ::
    "('b, 'z) block_impl_scheme \<Rightarrow> 'b chain_ref \<Rightarrow> u64 \<Rightarrow> u64 \<Rightarrow> nat list \<Rightarrow> unit outcome" where
  "cr_new_loop I r origin gap [] = Ok ()"
| "cr_new_loop I r origin gap (i # is) =
     (if i = 0 then cr_new_loop I r origin gap is
      else and_then (cr_read r (i - 1)) (\<lambda>p.
           and_then (cr_read r i) (\<lambda>b.
           and_then (block_verify I b (hash_of I p) origin gap) (\<lambda>_.
           cr_new_loop I r origin gap is))))"

definition cr_new ::
    "('b, 'z) block_impl_scheme \<Rightarrow> 'b list \<Rightarrow> nat \<Rightarrow> nat \<Rightarrow> u64 \<Rightarrow> u64 \<Rightarrow> 'b chain_ref outcome" where
  "cr_new I buf off len time_origin time_gap =
     (let r = \<lparr>cr_buf = buf, cr_off = off, cr_len = len\<rparr>
      in and_then (cr_new_loop I r time_origin time_gap [0..<len]) (\<lambda>_. Ok r))"

definition cr_block_ref :: "'b chain_ref \<Rightarrow> nat \<Rightarrow> 'b option outcome" where
  "cr_block_ref r local_index =
     (if local_index < cr_len r then and_then (cr_read r local_index) (\<lambda>b. Ok (Some b)) else Ok None)"

text \<open>Moving the pointer beyond the end of the vector is undefined already, before anything is read. The
  allocation is taken to end with the blocks: spare room behind them is not modelled.\<close>

definition from_chain_by_index ::
    "('b, 'z) block_impl_scheme \<Rightarrow> 'b block_chain \<Rightarrow> nat \<times> nat \<Rightarrow> 'b chain_ref outcome" where
  "from_chain_by_index I c rng =
     (case rng of (start, end_i) \<Rightarrow>
      and_then (chain_verify block_chain_impl I c) (\<lambda>_.
      if start > end_i then Err (H_Chain ''start index is greater than end index'')
      else and_then (vec_index (bc_blocks c) 0) (\<lambda>first.
           and_then (sub_usize (length (bc_blocks c)) 1) (\<lambda>l.
           and_then (vec_index (bc_blocks c) l) (\<lambda>last_b.
           let min_index = max (index_of I first) start;
               max_index = min (index_of I last_b) end_i
           in and_then (sub_usize min_index (index_of I first)) (\<lambda>offset.
              and_then (sub_usize max_index min_index) (\<lambda>d.
              if offset \<le> length (bc_blocks c) then Ok \<lparr>cr_buf = bc_blocks c, cr_off = offset, cr_len = d + 1\<rparr>
              else Undefined)))))))"

text \<open>\<open>BlockChain::index_select\<close>, \<open>ChainRef::from_chain\<close>, \<open>ChainRef::from_slice\<close>, \<open>clone\<close>, \<open>len\<close>.\<close>

definition index_select ::
    "('b, 'z) block_impl_scheme \<Rightarrow> 'b block_chain \<Rightarrow> nat \<times> nat \<Rightarrow> 'b chain_ref outcome" where
  "index_select I c rng = and_then (from_chain_by_index I c rng) Ok"

definition from_chain :: "('b, 'z) block_impl_scheme \<Rightarrow> 'b block_chain \<Rightarrow> 'b chain_ref outcome" where
  "from_chain I c =
     and_then (chain_verify block_chain_impl I c) (\<lambda>_.
       Ok \<lparr>cr_buf = bc_blocks c, cr_off = 0, cr_len = length (bc_blocks c)\<rparr>)"

definition from_slice :: "'b list \<Rightarrow> 'b chain_ref" where
  "from_slice xs = \<lparr>cr_buf = xs, cr_off = 0, cr_len = length xs\<rparr>"

definition cr_clone :: "'b chain_ref \<Rightarrow> 'b chain_ref" where
  "cr_clone r = \<lparr>cr_buf = cr_buf r, cr_off = cr_off r, cr_len = cr_len r\<rparr>"

text \<open>The position loops of the four \<open>contain_*\<close> methods.\<close>

fun contain_loop :: "'b chain_ref \<Rightarrow> ('b \<Rightarrow> bool) \<Rightarrow> nat list \<Rightarrow> nat option outcome" where
  "contain_loop r P [] = Ok None"
| "contain_loop r P (i # is) =
     and_then (cr_read r i) (\<lambda>b. if P b then Ok (Some i) else contain_loop r P is)"

definition contain_hash ::
    "('b, 'z) block_impl_scheme \<Rightarrow> 'b chain_ref \<Rightarrow> hash \<Rightarrow> nat option outcome" where
  "contain_hash I r h = contain_loop r (\<lambda>b. hash_of I b = h) [0..<cr_len r]"

definition contain_data_hash ::
    "('b, 'z) carrier_impl_scheme \<Rightarrow> 'b chain_ref \<Rightarrow> hash \<Rightarrow> nat option outcome" where
  "contain_data_hash I r h = contain_loop r (\<lambda>b. data_hash_of I b = h) [0..<cr_len r]"

definition contain_uuid ::
    "('b, 'z) carrier_impl_scheme \<Rightarrow> 'b chain_ref \<Rightarrow> uuid \<Rightarrow> nat option outcome" where
  "contain_uuid I r u = contain_loop r (\<lambda>b. data_uuid_of I b = u) [0..<cr_len r]"

definition contain_index ::
    "('b, 'z) block_impl_scheme \<Rightarrow> 'b chain_ref \<Rightarrow> nat \<Rightarrow> nat option outcome" where
  "contain_index I r index = contain_loop r (\<lambda>b. index_of I b = index) [0..<cr_len r]"

fun hash_select_loop ::
    "('b, 'z) block_impl_scheme \<Rightarrow> 'b chain_ref \<Rightarrow> hash \<Rightarrow> nat list \<Rightarrow> 'b option outcome" where
  "hash_select_loop I r h [] = Ok None"
| "hash_select_loop I r h (i # is) =
     and_then (cr_block_ref r i) (\<lambda>found.
     and_then (unwrap found) (\<lambda>b.
     if hash_of I b = h then Ok (Some b) else hash_select_loop I r h is))"

definition hash_select ::
    "('b, 'z) block_impl_scheme \<Rightarrow> 'b chain_ref \<Rightarrow> hash \<Rightarrow> 'b option outcome" where
  "hash_select I r h = hash_select_loop I r h [0..<cr_len r]"

text \<open>\<open>as_slice\<close> and \<open>into_vec\<close>: a slice over elements that are not there is undefined.\<close>

definition as_slice :: "'b chain_ref \<Rightarrow> 'b list outcome" where
  "as_slice r =
     (if cr_off r + cr_len r \<le> length (cr_buf r)
      then Ok (take (cr_len r) (drop (cr_off r) (cr_buf r))) else Undefined)"

definition into_vec :: "'b chain_ref \<Rightarrow> 'b list outcome" where
  "into_vec r = and_then (as_slice r) Ok"

section \<open>The main chain and the side chains\<close>

record 'd main_chain =
  mc_data :: "'d block_chain"

definition main_impl :: "('d main_chain, 'd) chain_impl" where
  "main_impl =
     \<lparr>block_ref_of = (\<lambda>m. block_ref_of block_chain_impl (mc_data m)),
      len_of = (\<lambda>m. len_of block_chain_impl (mc_data m)),
      limit_of = (\<lambda>m. limit_of block_chain_impl (mc_data m)),
      gap_of = (\<lambda>m. gap_of block_chain_impl (mc_data m))\<rparr>"

definition main_new ::
    "('d, 'z) block_impl_scheme \<Rightarrow> u64 \<Rightarrow> u32 \<Rightarrow> chain_limit \<Rightarrow> 'd main_chain" where
  "main_new I now digest_id limit = \<lparr>mc_data = chain_new I now digest_id limit\<rparr>"

text \<open>\<open>Main::origin\<close> and \<open>Main::is_empty\<close> delegate to the inner chain.\<close>

definition main_origin :: "('d, 'z) block_impl_scheme \<Rightarrow> 'd main_chain \<Rightarrow> u64 option outcome" where
  "main_origin I m = chain_origin block_chain_impl I (mc_data m)"

definition main_is_empty :: "'d main_chain \<Rightarrow> unit outcome" where
  "main_is_empty m = chain_is_empty block_chain_impl (mc_data m)"

definition main_add_block ::
    "('d, 'z) block_impl_scheme \<Rightarrow> 'd main_chain \<Rightarrow> 'd \<Rightarrow> unit outcome \<times> 'd main_chain" where
  "main_add_block I m block =
     (case last_block_ref main_impl m of
        Ok (Some pre_block) \<Rightarrow>
          (case and_then (main_origin I m) (\<lambda>origin.
                and_then (unwrap origin) (\<lambda>time_start.
                block_verify I block (hash_of I pre_block) time_start (gap_of main_impl m))) of
             Ok _ \<Rightarrow> (case chain_add I (mc_data m) block of (r, c) \<Rightarrow> (r, m\<lparr>mc_data := c\<rparr>))
           | r \<Rightarrow> (r, m))
      | Ok None \<Rightarrow> (Err (H_Chain ''Main chain is empty, can not add block.''), m)
      | Err e \<Rightarrow> (Err e, m)
      | Panic \<Rightarrow> (Panic, m)
      | Undefined \<Rightarrow> (Undefined, m)
      | Diverge \<Rightarrow> (Diverge, m))"

record 'b sides =
  sd_data :: "(u32 \<times> 'b block_chain) list"

definition sides_new :: "'b sides" where
  "sides_new = \<lparr>sd_data = []\<rparr>"

definition sides_get :: "'b sides \<Rightarrow> u32 \<Rightarrow> 'b block_chain option" where
  "sides_get s digest_id = map_of (sd_data s) digest_id"

definition sides_insert :: "u32 \<Rightarrow> 'b block_chain \<Rightarrow> 'b sides \<Rightarrow> 'b sides" where
  "sides_insert digest_id chain s = s\<lparr>sd_data := AList.update digest_id chain (sd_data s)\<rparr>"

definition sides_add_chain ::
    "('b, 'z) block_impl_scheme \<Rightarrow> 'b sides \<Rightarrow> u32 \<Rightarrow> 'b block_chain \<Rightarrow> unit outcome \<times> 'b sides" where
  "sides_add_chain I s digest_id chain =
     (case chain_verify block_chain_impl I chain of
        Ok _ \<Rightarrow> (Ok (), sides_insert digest_id chain s)
      | r \<Rightarrow> (r, s))"

section \<open>Describing a chain\<close>

record chain_info =
  ci_digest_id :: "u32 option"
  ci_index :: "(u32 \<times> u32) option"
  ci_timestamp :: "(u64 \<times> u64) option"
  ci_hash :: "hash option"
  ci_merkle_root :: "hash option"
  ci_data_uuid :: "uuid option"
  ci_data_hash :: "hash option"

record chain_info_builder =
  cb_digest_id :: "u32 option"
  cb_index :: "(u32 \<times> u32) option"
  cb_timestamp :: "(u64 \<times> u64) option"
  cb_hash :: "hash option"
  cb_merkle_root :: "hash option"
  cb_data_uuid :: "uuid option"
  cb_data_hash :: "hash option"

definition builder_new :: chain_info_builder where
  "builder_new = \<lparr>cb_digest_id = None, cb_index = None, cb_timestamp = None, cb_hash = None,
     cb_merkle_root = None, cb_data_uuid = None, cb_data_hash = None\<rparr>"

definition builder_default :: chain_info_builder where "builder_default = builder_new"

definition builder_build :: "chain_info_builder \<Rightarrow> chain_info" where
  "builder_build b = \<lparr>ci_digest_id = cb_digest_id b, ci_index = cb_index b,
     ci_timestamp = cb_timestamp b, ci_hash = cb_hash b, ci_merkle_root = cb_merkle_root b,
     ci_data_uuid = cb_data_uuid b, ci_data_hash = cb_data_hash b\<rparr>"

definition builder_digest_id :: "u32 \<Rightarrow> chain_info_builder \<Rightarrow> chain_info_builder" where
  "builder_digest_id d b = b\<lparr>cb_digest_id := Some d\<rparr>"

definition builder_index :: "u32 \<Rightarrow> u32 \<Rightarrow> chain_info_builder \<Rightarrow> chain_info_builder" where
  "builder_index start end_i b = b\<lparr>cb_index := Some (start, end_i)\<rparr>"

definition builder_timestamp :: "u64 \<Rightarrow> u64 \<Rightarrow> chain_info_builder \<Rightarrow> chain_info_builder" where
  "builder_timestamp start end_t b = b\<lparr>cb_timestamp := Some (start, end_t)\<rparr>"

definition builder_hash :: "hash \<Rightarrow> chain_info_builder \<Rightarrow> chain_info_builder" where
  "builder_hash h b = b\<lparr>cb_hash := Some h\<rparr>"

definition builder_merkle_root :: "hash \<Rightarrow> chain_info_builder \<Rightarrow> chain_info_builder" where
  "builder_merkle_root h b = b\<lparr>cb_merkle_root := Some h\<rparr>"

definition builder_data_uuid :: "uuid \<Rightarrow> chain_info_builder \<Rightarrow> chain_info_builder" where
  "builder_data_uuid u b = b\<lparr>cb_data_uuid := Some u\<rparr>"

definition builder_data_hash :: "hash \<Rightarrow> chain_info_builder \<Rightarrow> chain_info_builder" where
  "builder_data_hash h b = b\<lparr>cb_data_hash := Some h\<rparr>"

end
