(* ===== verification/Chain.thy ===== *)
theory Chain imports ChainDefs begin

text \<open>
  What the chains of \<open>ChainDefs\<close> promise. The default methods of the \<open>Chain\<close> trait are studied
  once, in the locale \<open>lawful_chain\<close> (a chain type whose \<open>block_ref\<close> and \<open>len\<close> read a list of
  blocks), and instantiated on \<open>BlockChain\<close> and \<open>Main\<close>. The specification of verification is
  \<open>linked\<close>: each block passes \<open>Block::verify\<close> after its predecessor.
\<close>

section \<open>The specification\<close>

fun linked :: "('b, 'z) block_impl_scheme \<Rightarrow> u64 \<Rightarrow> u64 \<Rightarrow> 'b list \<Rightarrow> bool" where
  "linked I start gap (a # b # bs) \<longleftrightarrow>
     block_verify I b (hash_of I a) start gap = Ok () \<and> linked I start gap (b # bs)"
| "linked I start gap _ \<longleftrightarrow> True"

lemma linked_snoc:
  "bs \<noteq> [] \<Longrightarrow> linked I start gap (bs @ [b]) \<longleftrightarrow>
     linked I start gap bs \<and> block_verify I b (hash_of I (last bs)) start gap = Ok ()"
  by (induction I start gap bs rule: linked.induct) auto

lemma linked_nth:
  "linked I start gap bs \<longleftrightarrow>
     (\<forall>i. 0 < i \<and> i < length bs \<longrightarrow> block_verify I (bs ! i) (hash_of I (bs ! (i - 1))) start gap = Ok ())"
proof (induction I start gap bs rule: linked.induct)
  case (1 I start gap a b bs)
  show ?case
  proof
    assume *: "linked I start gap (a # b # bs)"
    show "\<forall>i. 0 < i \<and> i < length (a # b # bs) \<longrightarrow>
      block_verify I ((a # b # bs) ! i) (hash_of I ((a # b # bs) ! (i - 1))) start gap = Ok ()"
    proof (intro allI impI, elim conjE)
      fix i assume "0 < i" and i: "i < length (a # b # bs)"
      then obtain j where j: "i = Suc j" by (cases i) auto
      with * 1 i show "block_verify I ((a # b # bs) ! i) (hash_of I ((a # b # bs) ! (i - 1))) start gap = Ok ()"
        by (cases j) auto
    qed
  next
    assume *: "\<forall>i. 0 < i \<and> i < length (a # b # bs) \<longrightarrow>
      block_verify I ((a # b # bs) ! i) (hash_of I ((a # b # bs) ! (i - 1))) start gap = Ok ()"
    have "block_verify I ((b # bs) ! i) (hash_of I ((b # bs) ! (i - 1))) start gap = Ok ()"
      if "0 < i" "i < length (b # bs)" for i
      using *[rule_format, of "Suc i"] that by (cases i) auto
    with 1 *[rule_format, of 1] show "linked I start gap (a # b # bs)" by simp
  qed
qed auto

section \<open>Default methods of a lawful chain\<close>

locale lawful_chain =
  fixes C :: "('c, 'b) chain_impl" and view :: "'c \<Rightarrow> 'b list"
  assumes block_ref_view: "block_ref_of C c i = (if i < length (view c) then Some (view c ! i) else None)"
    and len_view: "len_of C c = length (view c)"
begin

lemma origin_view:
  "chain_origin C I c = Ok (if view c = [] then None else Some (timestamp_of I (hd (view c))))"
  by (simp add: chain_origin_def block_ref_view len_view hd_conv_nth)

lemma verify_loop_Ok:
  "\<forall>i \<in> set is. 0 < i \<and> i < length (view c) \<Longrightarrow>
   verify_loop C I c start gap is = Ok () \<longleftrightarrow>
     (\<forall>i \<in> set is. block_verify I (view c ! i) (hash_of I (view c ! (i - 1))) start gap = Ok ())"
  by (induction "is") (auto simp: block_ref_view and_then_Ok)

lemma verify_Ok:
  "chain_verify C I c = Ok () \<longleftrightarrow>
     2 \<le> length (view c) \<and> linked I (timestamp_of I (hd (view c))) (gap_of C c) (view c)"
proof (cases "2 \<le> length (view c)")
  case True
  then have "view c \<noteq> []" by auto
  with True have "chain_verify C I c =
      verify_loop C I c (timestamp_of I (hd (view c))) (gap_of C c) [1..<length (view c)]"
    by (auto simp: chain_verify_def Let_def len_view origin_view)
  with True show ?thesis by (auto simp: verify_loop_Ok linked_nth Suc_le_eq)
next
  case False
  then have "length (view c) = 0 \<or> length (view c) = 1" by arith
  then have "chain_verify C I c = Err (H_Chain ''empty chain'')"
    by (simp add: chain_verify_def Let_def len_view)
  with False show ?thesis by simp
qed

lemma verify_short:
  "length (view c) < 2 \<Longrightarrow> chain_verify C I c = Err (H_Chain ''empty chain'')"
  by (auto simp: chain_verify_def Let_def len_view less_2_cases_iff)

lemma last_block_ref_view:
  "last_block_ref C c = Ok (if view c = [] then None else Some (last (view c)))"
  by (simp add: last_block_ref_def Let_def block_ref_view len_view last_conv_nth)

lemma last_index_view:
  "last_index C I c = Ok (if view c = [] then None else Some (index_of I (last (view c))))"
  by (simp add: last_index_def Let_def block_ref_view len_view last_conv_nth)

lemma search_loop_view:
  "\<forall>i \<in> set is. i < length (view c) \<Longrightarrow>
     search_loop C c P is = Ok (List.find P (map (\<lambda>i. view c ! i) is))"
  by (induction "is") (auto simp: block_ref_view)

lemma search_view: "search_loop C c P [0..<len_of C c] = Ok (List.find P (view c))"
proof -
  have "search_loop C c P [0..<len_of C c] = Ok (List.find P (map (\<lambda>i. view c ! i) [0..<length (view c)]))"
    by (simp add: search_loop_view len_view)
  then show ?thesis by (simp add: map_nth)
qed

lemma block_ref_by_index_view:
  "block_ref_by_index C I c index =
     (if view c = [] then Panic
      else if index_of I (hd (view c)) \<le> index \<and> index \<le> index_of I (last (view c))
      then (if index - index_of I (hd (view c)) < length (view c)
            then Ok (Some (view c ! (index - index_of I (hd (view c))))) else Panic)
      else Ok None)"
  by (auto simp: block_ref_by_index_def block_ref_view len_view sub_usize_def hd_conv_nth
      last_conv_nth Suc_le_eq)

end

interpretation bc: lawful_chain block_chain_impl bc_blocks
  by unfold_locales (auto simp: block_chain_impl_def bc_block_ref_def)

interpretation mc: lawful_chain main_impl "\<lambda>m. bc_blocks (mc_data m)"
  by unfold_locales (auto simp: main_impl_def block_chain_impl_def bc_block_ref_def)

section \<open>Adding blocks\<close>

lemma gap_of_bc [simp]: "gap_of block_chain_impl c = cl_time_gap (bc_limit c)"
  by (simp add: block_chain_impl_def)

lemma gap_of_mc [simp]: "gap_of main_impl m = cl_time_gap (bc_limit (mc_data m))"
  by (simp add: main_impl_def)

lemma push_block_simps [simp]:
  "bc_blocks (push_block b c) = bc_blocks c @ [b]" "bc_limit (push_block b c) = bc_limit c"
  by (simp_all add: push_block_def)

lemma chain_new_simps [simp]:
  "bc_blocks (chain_new I now d limit) = [genesis_of I now d]"
  "bc_limit (chain_new I now d limit) = limit"
  by (simp_all add: chain_new_def Let_def)

text \<open>A chain that has a first block and whose other blocks are linked to it.\<close>

definition chain_inv :: "('b, 'z) block_impl_scheme \<Rightarrow> 'b block_chain \<Rightarrow> bool" where
  "chain_inv I c \<longleftrightarrow> bc_blocks c \<noteq> [] \<and>
     linked I (timestamp_of I (hd (bc_blocks c))) (cl_time_gap (bc_limit c)) (bc_blocks c)"

lemma chain_block_verify_view:
  "bc_blocks c \<noteq> [] \<Longrightarrow> chain_block_verify I c b =
     block_verify I b (hash_of I (last (bc_blocks c))) (timestamp_of I (hd (bc_blocks c)))
       (cl_time_gap (bc_limit c))"
  by (simp add: chain_block_verify_def bc.origin_view)

lemma chain_add_nonempty:
  "bc_blocks c \<noteq> [] \<Longrightarrow> chain_add I c b =
     (if is_full c then (Err (H_Chain ''chain is full''), c)
      else (chain_block_verify I c b,
            if chain_block_verify I c b = Ok () then push_block b c else c))"
  by (auto simp: chain_add_def split: outcome.split)

lemma chain_add_limit [simp]: "bc_limit (snd (chain_add I c b)) = bc_limit c"
  by (simp add: chain_add_def split: outcome.split)

lemma chain_add_hd:
  "bc_blocks c \<noteq> [] \<Longrightarrow> hd (bc_blocks (snd (chain_add I c b))) = hd (bc_blocks c)"
  by (simp add: chain_add_nonempty)

lemma chain_inv_new: "chain_inv I (chain_new I now d limit)"
  by (simp add: chain_inv_def)

lemma chain_inv_add: "chain_inv I c \<Longrightarrow> chain_inv I (snd (chain_add I c b))"
  by (auto simp: chain_inv_def chain_add_nonempty linked_snoc chain_block_verify_view)

lemma chain_inv_verify: "chain_inv I c \<Longrightarrow> 2 \<le> length (bc_blocks c) \<Longrightarrow> chain_verify block_chain_impl I c = Ok ()"
  by (simp add: bc.verify_Ok chain_inv_def)

text \<open>Offering a list of blocks, going on after a refusal as a caller may.\<close>

definition add_all :: "('b, 'z) block_impl_scheme \<Rightarrow> 'b block_chain \<Rightarrow> 'b list \<Rightarrow> 'b block_chain" where
  "add_all I = foldl (\<lambda>c b. snd (chain_add I c b))"

lemma add_all_inv:
  "chain_inv I c \<Longrightarrow> length (bc_blocks c) \<le> max 1 (cl_max_len (bc_limit c)) \<Longrightarrow>
     chain_inv I (add_all I c bs) \<and> bc_limit (add_all I c bs) = bc_limit c \<and>
     length (bc_blocks (add_all I c bs)) \<le> max 1 (cl_max_len (bc_limit c))"
proof (induction bs arbitrary: c)
  case Nil
  then show ?case by (simp add: add_all_def)
next
  case (Cons b bs)
  let ?c = "snd (chain_add I c b)"
  have "length (bc_blocks ?c) \<le> max 1 (cl_max_len (bc_limit ?c))"
    using Cons.prems by (auto simp: chain_add_nonempty chain_inv_def is_full_def)
  with Cons.IH [of ?c] Cons.prems show ?case by (simp add: add_all_def chain_inv_add)
qed

section \<open>What verification says about the blocks\<close>

context lawful_chain begin

lemma verify_loop_cong:
  assumes "\<forall>i \<in> set is. 0 < i \<and> i < length (view c) \<and> i < length (view c') \<and> view c ! i = view c' ! i \<and>
             hash_of I (view c ! (i - 1)) = hash_of I (view c' ! (i - 1))"
  shows "verify_loop C I c start gap is = verify_loop C I c' start gap is"
  using assms by (induction "is") (auto simp: block_ref_view)

lemma verify_first_irrelevant:
  assumes "view c = a # bs" and "view c' = a' # bs" and "gap_of C c' = gap_of C c"
    and "hash_of I a' = hash_of I a" and "timestamp_of I a' = timestamp_of I a"
  shows "chain_verify C I c' = chain_verify C I c"
proof -
  have "verify_loop C I c' start gap [1..<length (view c)] =
        verify_loop C I c start gap [1..<length (view c)]" for start gap
    using assms by (intro verify_loop_cong) (auto simp: nth_Cons split: nat.split)
  with assms show ?thesis by (simp add: chain_verify_def Let_def len_view origin_view)
qed

end

context sealed_block begin

text \<open>The last hash determines every block but the first, and the first block's hash.\<close>

lemma linked_binding:
  assumes "length xs = length ys" and "xs \<noteq> []"
    and "linked I s g xs" and "linked I s' g' ys"
    and "\<forall>b \<in> set xs. wf b" and "\<forall>b \<in> set ys. wf b"
    and "inj_on sha (preimage ` (set xs \<union> set ys))"
    and "hash_of I (last xs) = hash_of I (last ys)"
  shows "tl xs = tl ys \<and> hash_of I (hd xs) = hash_of I (hd ys)"
  using assms
proof (induction xs arbitrary: ys rule: rev_induct)
  case Nil
  then show ?case by simp
next
  case (snoc a xs)
  from snoc.prems(1) obtain ys' b where ys: "ys = ys' @ [b]" and len: "length xs = length ys'"
    by (cases ys rule: rev_cases) auto
  show ?case
  proof (cases "xs = []")
    case True
    with len snoc.prems(8) ys show ?thesis by simp
  next
    case False
    with len have ne: "ys' \<noteq> []" by auto
    from snoc.prems(3) False have a: "block_verify I a (hash_of I (last xs)) s g = Ok ()"
      and lx: "linked I s g xs" by (simp_all add: linked_snoc)
    from snoc.prems(4) ne ys have b: "block_verify I b (hash_of I (last ys')) s' g' = Ok ()"
      and ly: "linked I s' g' ys'" by (simp_all add: linked_snoc)
    have inj: "inj_on sha {preimage a, preimage b}"
      by (rule inj_on_subset [OF snoc.prems(7)]) (auto simp: ys)
    from a b have "hash_verify_of I a = Ok ()" "hash_verify_of I b = Ok ()"
      by (simp_all add: verify_Ok hash_verify_Ok)
    then have ab: "a = b"
      using same_seal_same_block [OF _ _ _ _ _ inj] snoc.prems(5,6,8) ys by simp
    with a b have "hash_of I (last xs) = hash_of I (last ys')" by (simp add: verify_Ok)
    moreover have "inj_on sha (preimage ` (set xs \<union> set ys'))"
      by (rule inj_on_subset [OF snoc.prems(7)]) (auto simp: ys)
    ultimately have "tl xs = tl ys' \<and> hash_of I (hd xs) = hash_of I (hd ys')"
      using snoc.IH [OF len False lx ly] snoc.prems(5,6) ys by simp
    with ab False ne ys show ?thesis by simp
  qed
qed

end

context lawful_block begin

lemma linked_window:
  "linked I start gap bs \<Longrightarrow> b \<in> set (tl bs) \<Longrightarrow>
     unat start \<le> unat (timestamp_of I b) \<and> unat (timestamp_of I b) \<le> unat start + unat gap"
  by (induction bs rule: induct_list012) (auto simp: verify_Ok)

lemma linked_prev:
  "linked I start gap bs \<Longrightarrow> Suc i < length bs \<Longrightarrow> prev_hash_of I (bs ! Suc i) = hash_of I (bs ! i)"
  by (auto simp: linked_nth verify_Ok)

end

section \<open>Selecting a segment\<close>

lemma from_chain_by_index_verified:
  assumes "chain_verify block_chain_impl I c = Ok ()"
  shows "from_chain_by_index I c (start, end_i) =
    (let f = index_of I (hd (bc_blocks c)); l = index_of I (last (bc_blocks c)) in
     if start > end_i then Err (H_Chain ''start index is greater than end index'')
     else if min l end_i < max f start then Panic
     else if length (bc_blocks c) < max f start - f then Undefined
     else Ok \<lparr>cr_buf = bc_blocks c, cr_off = max f start - f, cr_len = min l end_i - max f start + 1\<rparr>)"
proof -
  have "bc_blocks c \<noteq> []" and "Suc 0 \<le> length (bc_blocks c)"
    using assms by (auto simp: bc.verify_Ok)
  then show ?thesis
    using assms by (auto simp: from_chain_by_index_def vec_index_def sub_usize_def Let_def
        hd_conv_nth last_conv_nth)
qed

lemma index_select_eq: "index_select I c r = from_chain_by_index I c r"
  by (cases "from_chain_by_index I c r") (simp_all add: index_select_def)

text \<open>Consecutive block indices, as a full chain that starts at index \<open>n\<close> has.\<close>

fun indexed_from :: "('b, 'z) block_impl_scheme \<Rightarrow> nat \<Rightarrow> 'b list \<Rightarrow> bool" where
  "indexed_from I n [] \<longleftrightarrow> True"
| "indexed_from I n (b # bs) \<longleftrightarrow> index_of I b = n \<and> indexed_from I (Suc n) bs"

lemma indexed_from_last:
  "indexed_from I n bs \<Longrightarrow> bs \<noteq> [] \<Longrightarrow> index_of I (last bs) = n + length bs - 1"
  by (induction I n bs rule: indexed_from.induct) auto

lemma indexed_from_hd: "indexed_from I n bs \<Longrightarrow> bs \<noteq> [] \<Longrightarrow> index_of I (hd bs) = n"
  by (cases bs) auto

lemma indexed_from_nth: "indexed_from I n bs \<Longrightarrow> i < length bs \<Longrightarrow> index_of I (bs ! i) = n + i"
  by (induction I n bs arbitrary: i rule: indexed_from.induct) (auto simp: nth_Cons split: nat.split)

lemma find_at:
  assumes "k < length xs" and "P (xs ! k)" and "\<And>j. j < k \<Longrightarrow> \<not> P (xs ! j)"
  shows "List.find P xs = Some (xs ! k)"
  using assms by (auto simp: find_Some_iff)

lemma filter_indexed:
  "indexed_from I n bs \<Longrightarrow>
     filter (\<lambda>b. s \<le> index_of I b \<and> index_of I b \<le> e) bs = take (Suc e - max s n) (drop (s - n) bs)"
proof (induction I n bs rule: indexed_from.induct)
  case (1 I n)
  then show ?case by simp
next
  case (2 I n b bs)
  then have IH: "filter (\<lambda>b. s \<le> index_of I b \<and> index_of I b \<le> e) bs =
      take (Suc e - max s (Suc n)) (drop (s - Suc n) bs)" and b: "index_of I b = n" by simp_all
  show ?case
  proof (cases "n < s")
    case True
    then have "s - n = Suc (s - Suc n)" "max s n = s" "max s (Suc n) = s" by auto
    with IH b True show ?thesis by simp
  next
    case False
    then have "s - n = 0" "max s n = n" "max s (Suc n) = Suc n" "s - Suc n = 0" by auto
    with IH b False show ?thesis by (cases "n \<le> e") (simp_all add: Suc_diff_le)
  qed
qed

lemma as_slice_Undefined:
  "as_slice r = Undefined \<longleftrightarrow> length (cr_buf r) < cr_off r + cr_len r"
  by (auto simp: as_slice_def)

section \<open>A sample chain\<close>

text \<open>A genesis block and one more block of index \<open>i\<close>, valid under a stand-in digest.\<close>

definition sample_sha :: sha where
  "sample_sha = two_way_digest (data_preimage sample_data_block)"

definition sample_second :: "u32 \<Rightarrow> data_block" where
  "sample_second i = \<lparr>db_hash = replicate 32 2, db_timestamp = 12, db_prev_hash = replicate 32 1,
     db_data_hash = ZERO_HASH, db_data_uuid = ZERO_UUID, db_digest_id = 1, db_index = i\<rparr>"

definition sample_chain :: "u32 \<Rightarrow> data_block block_chain" where
  "sample_chain i = \<lparr>bc_blocks = [sample_data_block, sample_second i],
     bc_limit = chain_limit_new 5 100\<rparr>"

lemma sample_second_preimage: "data_preimage (sample_second i) \<noteq> data_preimage sample_data_block"
  by (simp add: data_preimage_def sample_second_def sample_data_block_def)

lemma sample_chain_verify:
  "chain_verify block_chain_impl (data_block_impl sample_sha) (sample_chain i) = Ok ()"
proof -
  have "sample_sha (data_preimage (sample_second i)) = replicate 32 2"
    using sample_second_preimage by (simp add: sample_sha_def two_way_digest_def)
  then have "block_verify (data_block_impl sample_sha) (sample_second i) (replicate 32 1) 10 100 = Ok ()"
    unfolding data_sealed.verify_Ok
    by (simp add: U64_MAX_def)
       (simp add: sample_second_def)
  then show ?thesis
    by (simp add: bc.verify_Ok sample_chain_def chain_limit_new_def)
       (simp add: sample_data_block_def)
qed

lemma sample_chain_indices [simp]:
  "bc_blocks (sample_chain i) = [sample_data_block, sample_second i]"
  "db_index sample_data_block = 0" "db_index (sample_second i) = i"
  by (simp_all add: sample_chain_def sample_data_block_def sample_second_def)

section \<open>Properties\<close>

text \<open>C1: A chain made by \<open>BlockChain::new\<close> and extended only through \<open>BlockChain::add\<close> passes
  \<open>Chain::verify\<close> as soon as it has a second block, whatever blocks were offered and refused on
  the way, and never outgrows its limit (the genesis block alone may exceed a limit of zero).\<close>

theorem built_chain_verifies:
  "let c = add_all I (chain_new I now d limit) offered in
     chain_verify block_chain_impl I c =
       (if length (bc_blocks c) < 2 then Err (H_Chain ''empty chain'') else Ok ()) \<and>
     length (bc_blocks c) \<le> max 1 (cl_max_len limit)"
proof -
  let ?c = "add_all I (chain_new I now d limit) offered"
  have "chain_inv I ?c \<and> bc_limit ?c = limit \<and> length (bc_blocks ?c) \<le> max 1 (cl_max_len limit)"
    using add_all_inv [OF chain_inv_new, of I now d limit offered] by simp
  then show ?thesis
    by (simp add: Let_def bc.verify_short chain_inv_verify)
qed

text \<open>C22: \<open>BlockChain::add\<close> on a chain of data blocks accepts a block exactly when there is room,
  its hash is right, it names the last block's hash and its time lies in the window that starts
  at the first block; then it is appended, and otherwise the chain is left as it was.\<close>

theorem chain_add_verdict:
  assumes "bc_blocks c \<noteq> []"
  shows "(fst (chain_add (data_block_impl sha) c b) = Ok () \<longleftrightarrow>
      length (bc_blocks c) < cl_max_len (bc_limit c) \<and>
      db_hash b = sha (data_preimage b) \<and>
      db_prev_hash b = db_hash (last (bc_blocks c)) \<and>
      unat (db_timestamp (hd (bc_blocks c))) \<le> unat (db_timestamp b) \<and>
      unat (db_timestamp b) \<le> unat (db_timestamp (hd (bc_blocks c))) + unat (cl_time_gap (bc_limit c)) \<and>
      unat (db_timestamp (hd (bc_blocks c))) + unat (cl_time_gap (bc_limit c)) \<le> U64_MAX) \<and>
    snd (chain_add (data_block_impl sha) c b) =
      (if fst (chain_add (data_block_impl sha) c b) = Ok () then push_block b c else c)"
  using assms
  by (auto simp: chain_add_nonempty chain_block_verify_view data_sealed.verify_Ok is_full_def
      not_le)

theorem chain_add_verdict_witness:
  "snd (chain_add (data_block_impl sample_sha) (sample_chain 1) sample_data_block) = sample_chain 1"
  using chain_add_verdict [of "sample_chain 1" sample_sha sample_data_block]
  by (simp add: sample_chain_def sample_second_def sample_data_block_def ZERO_HASH_def)

text \<open>C2: A verified chain is determined by its last hash: two verified chains of the same length
  that end in the same hash have the same blocks from the second on, and their first blocks have
  the same hash, as long as SHA-256 has no collision among their blocks.\<close>

theorem verified_chain_binding:
  assumes "chain_verify block_chain_impl (data_block_impl sha) c = Ok ()"
    and "chain_verify block_chain_impl (data_block_impl sha) c' = Ok ()"
    and "length (bc_blocks c) = length (bc_blocks c')"
    and "\<forall>b \<in> set (bc_blocks c) \<union> set (bc_blocks c'). data_block_wf b"
    and "inj_on sha (data_preimage ` (set (bc_blocks c) \<union> set (bc_blocks c')))"
    and "db_hash (last (bc_blocks c)) = db_hash (last (bc_blocks c'))"
  shows "tl (bc_blocks c) = tl (bc_blocks c') \<and> db_hash (hd (bc_blocks c)) = db_hash (hd (bc_blocks c'))"
proof -
  from assms(1) have "bc_blocks c \<noteq> []" by (auto simp: bc.verify_Ok)
  with assms data_sealed.linked_binding [of "bc_blocks c" "bc_blocks c'" sha]
  show ?thesis by (auto simp: bc.verify_Ok)
qed

theorem verified_chain_binding_witness:
  "tl (bc_blocks (sample_chain 7)) = tl (bc_blocks (sample_chain 7))
   \<and> db_hash (hd (bc_blocks (sample_chain 7))) = db_hash (hd (bc_blocks (sample_chain 7)))"
proof (rule verified_chain_binding [where sha = sample_sha])
  show "inj_on sample_sha
      (data_preimage ` (set (bc_blocks (sample_chain 7)) \<union> set (bc_blocks (sample_chain 7))))"
    using sample_second_preimage
    by (auto simp: inj_on_def sample_sha_def two_way_digest_def sample_chain_def)
  show "\<forall>b \<in> set (bc_blocks (sample_chain 7)) \<union> set (bc_blocks (sample_chain 7)). data_block_wf b"
    by (simp add: sample_chain_def data_block_wf_def sample_data_block_def sample_second_def)
qed (simp_all add: sample_chain_verify)

text \<open>Verification never looks inside the first block: replacing it by any block with the same
  hash and timestamp fields, whatever its other fields and whether or not its hash fits them,
  gives the same verdict.\<close>

theorem verify_ignores_first_block:
  assumes "bc_blocks c = a # bs" and "db_hash a' = db_hash a" and "db_timestamp a' = db_timestamp a"
  shows "chain_verify block_chain_impl (data_block_impl sha) (c\<lparr>bc_blocks := a' # bs\<rparr>) =
         chain_verify block_chain_impl (data_block_impl sha) c"
  by (rule bc.verify_first_irrelevant [where a = a and bs = bs and a' = a']) (use assms in simp_all)

theorem verify_ignores_first_block_instance:
  "chain_verify block_chain_impl (data_block_impl sample_sha)
     ((sample_chain 1)\<lparr>bc_blocks := sample_data_block\<lparr>db_index := 99\<rparr> # [sample_second 1]\<rparr>) =
   chain_verify block_chain_impl (data_block_impl sample_sha) (sample_chain 1)"
  by (rule verify_ignores_first_block [of _ sample_data_block]) (simp_all add: sample_chain_def)

text \<open>C35: On a verified chain with consecutive indices, selecting an index range that meets the
  chain's range gives exactly the blocks whose index lies in it, in order.\<close>

theorem index_select_segment:
  assumes "chain_verify block_chain_impl I c = Ok ()"
    and "indexed_from I n (bc_blocks c)"
    and "start \<le> end_i" and "start < n + length (bc_blocks c)" and "n \<le> end_i"
  shows "and_then (index_select I c (start, end_i)) as_slice =
    Ok (filter (\<lambda>b. start \<le> index_of I b \<and> index_of I b \<le> end_i) (bc_blocks c))"
proof -
  from assms(1) have ne: "bc_blocks c \<noteq> []" by (auto simp: bc.verify_Ok)
  let ?l = "n + length (bc_blocks c) - 1"
  have len: "min ?l end_i - max n start + 1 \<le> length (bc_blocks c) - (max n start - n)"
    and nodis: "\<not> min ?l end_i < max n start"
    using ne assms(3-5) by (cases "bc_blocks c"; auto)+
  have "take (min ?l end_i - max n start + 1) (drop (max n start - n) (bc_blocks c)) =
        take (Suc end_i - max start n) (drop (start - n) (bc_blocks c))"
    using nodis assms(3-5) by (auto simp: min_def max_def Suc_diff_le)
  then have seg: "filter (\<lambda>b. start \<le> index_of I b \<and> index_of I b \<le> end_i) (bc_blocks c) =
      take (min ?l end_i - max n start + 1) (drop (max n start - n) (bc_blocks c))"
    by (simp only: filter_indexed [OF assms(2)])
  have fit: "max n start - n + (min ?l end_i - max n start + 1) \<le> length (bc_blocks c)"
    using len nodis assms(4) ne by arith
  then have inside: "max n start - n \<le> length (bc_blocks c)" by simp
  have "index_select I c (start, end_i) = Ok \<lparr>cr_buf = bc_blocks c, cr_off = max n start - n,
      cr_len = min ?l end_i - max n start + 1\<rparr>"
    using assms(3) nodis inside
    by (simp add: index_select_eq from_chain_by_index_verified [OF assms(1)] Let_def
        indexed_from_hd [OF assms(2) ne] indexed_from_last [OF assms(2) ne])
  with fit show ?thesis by (simp only: and_then.simps as_slice_def chain_ref.simps if_True seg)
qed

theorem index_select_segment_witness:
  "and_then (index_select (data_block_impl sample_sha) (sample_chain 1) (1, 4)) as_slice =
     Ok [sample_second 1]"
proof -
  have "and_then (index_select (data_block_impl sample_sha) (sample_chain 1) (1, 4)) as_slice =
    Ok (filter (\<lambda>b. 1 \<le> unat (db_index b) \<and> unat (db_index b) \<le> 4) (bc_blocks (sample_chain 1)))"
    by (subst index_select_segment [OF sample_chain_verify, where n = 0])
       simp_all
  then show ?thesis by simp
qed

text \<open>C36: Verification does not look at the indices, and the selection trusts them: on any verified
  chain a range that misses the index span of the chain panics, and otherwise selecting the
  segment and reading it is undefined behaviour exactly when the range reaches further beyond the
  first index than the chain has blocks.\<close>

theorem index_select_hazards:
  assumes "chain_verify block_chain_impl I c = Ok ()" and "start \<le> end_i"
  shows "let f = index_of I (hd (bc_blocks c)); l = index_of I (last (bc_blocks c)) in
    (index_select I c (start, end_i) = Panic \<longleftrightarrow> min l end_i < max f start) \<and>
    (and_then (index_select I c (start, end_i)) as_slice = Undefined \<longleftrightarrow>
       max f start \<le> min l end_i \<and> length (bc_blocks c) \<le> min l end_i - f)"
proof -
  have "a - f + (b - a + 1) \<le> n \<longleftrightarrow> b - f < n" if "f \<le> a" "a \<le> b" for a b f n :: nat
    using that by arith
  then show ?thesis
    using assms by (auto simp: index_select_eq from_chain_by_index_verified [OF assms(1)] Let_def
        as_slice_def not_less not_le)
qed

theorem index_select_hazards_witness:
  "and_then (index_select (data_block_impl sample_sha) (sample_chain 100) (50, 60)) as_slice = Undefined
   \<and> index_select (data_block_impl sample_sha) (sample_chain 1) (5, 9) = Panic"
  using index_select_hazards [OF sample_chain_verify [of 100], of 50 60]
    index_select_hazards [OF sample_chain_verify [of 1], of 5 9]
  by (simp add: Let_def)

text \<open>Looking a block up by its index in a chain with consecutive indices finds the block of
  that index when the chain holds one and nothing otherwise; on a chain without blocks the
  lookup panics.\<close>

theorem block_ref_by_index_finds:
  assumes "indexed_from I n (bc_blocks c)"
  shows "block_ref_by_index block_chain_impl I c i =
    (if bc_blocks c = [] then Panic
     else Ok (List.find (\<lambda>b. index_of I b = i) (bc_blocks c)))"
proof (cases "bc_blocks c = []")
  case True
  then show ?thesis by (simp add: bc.block_ref_by_index_view)
next
  case False
  then have ne_len: "0 < length (bc_blocks c)" by simp
  note range = indexed_from_hd [OF assms False] indexed_from_last [OF assms False]
  show ?thesis
  proof (cases "n \<le> i \<and> i < n + length (bc_blocks c)")
    case True
    have "List.find (\<lambda>b. index_of I b = i) (bc_blocks c) = Some (bc_blocks c ! (i - n))"
    proof (rule find_at)
      show lt: "i - n < length (bc_blocks c)" using True ne_len by arith
      show "index_of I (bc_blocks c ! (i - n)) = i" using indexed_from_nth [OF assms lt] True by simp
      fix j assume "j < i - n"
      then show "index_of I (bc_blocks c ! j) \<noteq> i" using indexed_from_nth [OF assms, of j] lt by simp
    qed
    with True False range show ?thesis by (auto simp: bc.block_ref_by_index_view)
  next
    case out: False
    then have "List.find (\<lambda>b. index_of I b = i) (bc_blocks c) = None"
      by (auto simp: find_None_iff in_set_conv_nth indexed_from_nth [OF assms])
    moreover have "\<not> (n \<le> i \<and> i \<le> n + length (bc_blocks c) - 1)" using out ne_len by arith
    ultimately show ?thesis using False range by (simp add: bc.block_ref_by_index_view)
  qed
qed

theorem block_ref_by_index_finds_instance:
  "block_ref_by_index block_chain_impl (data_block_impl sample_sha) (sample_chain 1) 1 =
     Ok (Some (sample_second 1))"
  by (subst block_ref_by_index_finds [of _ 0]) simp_all

end
