(* ===== verification/Executor.thy ===== *)
theory Executor imports Chain begin

text \<open>
  \<open>src/keeper.rs\<close> and \<open>src/executor.rs\<close>. The keeper holds the main chain of digest blocks and the
  side chains of data blocks; the executor owns a keeper and a chain buffer (the locks around the
  two are held for a whole operation, so an operation is one step). A clock reading and the uuid
  drawn by an operation are arguments. The generic parameters \<open>B\<close> and \<open>D\<close> are the method
  records \<open>IB\<close> and \<open>ID\<close>.
\<close>

section \<open>The keeper\<close>

record ('b, 'd) chain_keeper =
  ck_main :: "'d main_chain"
  ck_sides :: "'b sides"

definition keeper_new ::
    "('d, 'z) block_impl_scheme \<Rightarrow> u64 \<Rightarrow> chain_limit \<Rightarrow> ('b, 'd) chain_keeper" where
  "keeper_new ID now limit = \<lparr>ck_main = main_new ID now 1 limit, ck_sides = sides_new\<rparr>"

definition main_ref :: "('b, 'd) chain_keeper \<Rightarrow> 'd main_chain" where "main_ref k = ck_main k"

definition sides_ref :: "('b, 'd) chain_keeper \<Rightarrow> 'b sides" where "sides_ref k = ck_sides k"

definition side_ref :: "('b, 'd) chain_keeper \<Rightarrow> u32 \<Rightarrow> 'b block_chain option" where
  "side_ref k digest_id =
     (if sd_data (ck_sides k) = [] then None else sides_get (ck_sides k) digest_id)"

definition keeper_is_full :: "('b, 'd) chain_keeper \<Rightarrow> bool" where
  "keeper_is_full k \<longleftrightarrow>
     len_of main_impl (ck_main k) > cl_max_len (limit_of main_impl (ck_main k))"

section \<open>The executor\<close>

record ('b, 'd) executor =
  ex_keeper :: "('b, 'd) chain_keeper"
  ex_chain_buf :: "'b block_chain"

definition executor_new ::
    "('b, 'y) block_impl_scheme \<Rightarrow> ('d, 'z) block_impl_scheme \<Rightarrow> u64 \<Rightarrow> u64 \<Rightarrow> chain_limit \<Rightarrow>
     ('b, 'd) executor" where
  "executor_new IB ID now now' limit =
     \<lparr>ex_keeper = keeper_new ID now limit, ex_chain_buf = chain_new IB now' 1 limit\<rparr>"

text \<open>\<open>add_block\<close>: the block is built after the last one of the buffer and returned.\<close>

definition add_block ::
    "sha \<Rightarrow> ('b, 'y) carrier_impl_scheme \<Rightarrow> uuid \<Rightarrow> u64 \<Rightarrow> ('b, 'd) executor \<Rightarrow> bytes \<Rightarrow>
     'b outcome \<times> ('b, 'd) executor" where
  "add_block sha IB uuid now e data =
     (and_then (archive_slice sha uuid data) (\<lambda>data_id.
      let chain = ex_chain_buf e in
      and_then (sub_usize (len_of block_chain_impl chain) 1) (\<lambda>l.
      and_then (unwrap (block_ref_of block_chain_impl chain l)) (\<lambda>pre_block.
      let pre_hash = hash_of IB pre_block;
          index = index_of IB pre_block + 1;
          digest_id = digest_id_of IB pre_block + 1;
          args = data_block_args_new pre_hash (id_hash data_id) (id_uuid data_id)
                   (word_of_nat digest_id) (word_of_nat index)
      in Ok (data_create_of IB now args)))), e)"

text \<open>\<open>add_chain\<close>: the digest block of the chain, and the two insertions.\<close>

definition make_digest ::
    "('b, 'y) block_impl_scheme \<Rightarrow> ('d, 'z) digester_impl_scheme \<Rightarrow> u64 \<Rightarrow> 'd main_chain \<Rightarrow>
     'b block_chain \<Rightarrow> (u32 \<times> 'd) outcome" where
  "make_digest IB ID now main chain =
     and_then (last_block_ref main_impl main) (\<lambda>found.
     and_then (unwrap found) (\<lambda>last_digest.
     and_then (digest_of ID (map (hash_of IB) (bc_blocks chain))) (\<lambda>root.
     and_then (add_u32 (word_of_nat (index_of ID last_digest)) 1) (\<lambda>digest_id.
     Ok (digest_id,
         digest_create_of ID now
           (digest_block_args_new (hash_of ID last_digest) root
              (word_of_nat (len_of block_chain_impl chain)) digest_id))))))"

definition keeper_add_chain ::
    "('b, 'y) block_impl_scheme \<Rightarrow> ('d, 'z) digester_impl_scheme \<Rightarrow> u64 \<Rightarrow> ('b, 'd) chain_keeper \<Rightarrow>
     'b block_chain \<Rightarrow> unit outcome \<times> ('b, 'd) chain_keeper" where
  "keeper_add_chain IB ID now k chain =
     (if keeper_is_full k
      then (Err (H_Executor ''The keeper is full, can not add a new chain.''), k)
      else case make_digest IB ID now (ck_main k) chain of
        Ok (digest_id, block) \<Rightarrow>
          (case main_add_block ID (ck_main k) block of
             (Ok _, main) \<Rightarrow>
               (case sides_add_chain IB (ck_sides k) digest_id chain of
                  (r, sides) \<Rightarrow> (r, \<lparr>ck_main = main, ck_sides = sides\<rparr>))
           | (r, main) \<Rightarrow> (r, k\<lparr>ck_main := main\<rparr>))
      | Err err \<Rightarrow> (Err err, k)
      | Panic \<Rightarrow> (Panic, k)
      | Undefined \<Rightarrow> (Undefined, k)
      | Diverge \<Rightarrow> (Diverge, k))"

definition add_chain ::
    "('b, 'y) block_impl_scheme \<Rightarrow> ('d, 'z) digester_impl_scheme \<Rightarrow> u64 \<Rightarrow> ('b, 'd) executor \<Rightarrow>
     'b block_chain \<Rightarrow> unit outcome \<times> ('b, 'd) executor" where
  "add_chain IB ID now e chain =
     (case keeper_add_chain IB ID now (ex_keeper e) chain of (r, k) \<Rightarrow> (r, e\<lparr>ex_keeper := k\<rparr>))"

text \<open>The executors a program can reach: the operations may fail and be retried in any order, at
  any clock reading, with any chains.\<close>

inductive executor_reach ::
    "sha \<Rightarrow> ('b, 'y) carrier_impl_scheme \<Rightarrow> ('d, 'z) digester_impl_scheme \<Rightarrow> chain_limit \<Rightarrow>
     ('b, 'd) executor \<Rightarrow> bool"
  for sha IB ID limit where
  reach_new: "executor_reach sha IB ID limit (executor_new IB ID now now' limit)"
| reach_block: "executor_reach sha IB ID limit e \<Longrightarrow>
    add_block sha IB uuid now e data = (r, e') \<Longrightarrow> executor_reach sha IB ID limit e'"
| reach_chain: "executor_reach sha IB ID limit e \<Longrightarrow>
    add_chain IB ID now e chain = (r, e') \<Longrightarrow> executor_reach sha IB ID limit e'"

section \<open>What the executor relies on\<close>

text \<open>A digester block created from its arguments carries them and is sealed; \<open>root_of\<close> reads the
  Merkle root it stores.\<close>

locale lawful_digester = lawful_block I for I :: "('d, 'z) digester_impl_scheme" +
  fixes root_of :: "'d \<Rightarrow> hash"
  assumes create_sealed: "hash_of I (digest_create_of I now a) = hash_block_of I (digest_create_of I now a)"
    and create_prev: "prev_hash_of I (digest_create_of I now a) = ga_prev_hash a"
    and create_index: "index_of I (digest_create_of I now a) = unat (ga_digest_id a)"
    and create_time: "timestamp_of I (digest_create_of I now a) = now"
    and create_length: "length_of I (digest_create_of I now a) = ga_length a"
    and create_root: "root_of (digest_create_of I now a) = ga_merkle_root a"
    and genesis_index: "index_of I (genesis_of I now d) = unat d"
begin

lemma create_verify:
  "block_verify I (digest_create_of I now a) (ga_prev_hash a) start gap = Ok () \<longleftrightarrow>
     unat start \<le> unat now \<and> unat now \<le> unat start + unat gap \<and> unat start + unat gap \<le> U64_MAX"
  by (simp add: verify_Ok create_sealed create_prev create_time)

end

interpretation digest_lawful: lawful_digester "digest_block_impl sha" dg_merkle_root
  by unfold_locales
    (simp_all add: digest_create_def digest_private_new_def digest_genesis_def
      digest_block_args_new_def digest_hash_block_def digest_preimage_def Let_def)

section \<open>The keeper invariant\<close>

lemma main_add_block_nonempty:
  assumes "bc_blocks (mc_data m) \<noteq> []"
  shows "main_add_block I m b =
    (let v = block_verify I b (hash_of I (last (bc_blocks (mc_data m))))
               (timestamp_of I (hd (bc_blocks (mc_data m)))) (cl_time_gap (bc_limit (mc_data m))) in
     if v \<noteq> Ok () then (v, m)
     else if is_full (mc_data m) then (Err (H_Chain ''chain is full''), m)
     else (Ok (), m\<lparr>mc_data := push_block b (mc_data m)\<rparr>))"
  using assms
  by (auto simp: main_add_block_def mc.last_block_ref_view main_origin_def bc.origin_view Let_def
      chain_add_nonempty chain_block_verify_view split: outcome.split)

text \<open>The digest blocks in \<open>main\<close> are numbered from 1 and linked; every stored side chain is verified
  and stored under the number of a digest block that holds its Merkle root and length.\<close>

definition committed ::
    "('b, 'y) block_impl_scheme \<Rightarrow> ('d, 'z) digester_impl_scheme \<Rightarrow> ('d \<Rightarrow> hash) \<Rightarrow> 'd list \<Rightarrow>
     u32 \<times> 'b block_chain \<Rightarrow> bool" where
  "committed IB ID root_of ds side \<longleftrightarrow> (case side of (d, c) \<Rightarrow>
     chain_verify block_chain_impl IB c = Ok () \<and> 2 \<le> unat d \<and> unat d \<le> length ds \<and>
     digest_of ID (map (hash_of IB) (bc_blocks c)) = Ok (root_of (ds ! (unat d - 1))) \<and>
     length_of ID (ds ! (unat d - 1)) = word_of_nat (length (bc_blocks c)))"

definition keeper_inv ::
    "('b, 'y) block_impl_scheme \<Rightarrow> ('d, 'z) digester_impl_scheme \<Rightarrow> ('d \<Rightarrow> hash) \<Rightarrow> chain_limit \<Rightarrow>
     ('b, 'd) chain_keeper \<Rightarrow> bool" where
  "keeper_inv IB ID root_of limit k \<longleftrightarrow>
     (let main = mc_data (ck_main k); ds = bc_blocks main in
      chain_inv ID main \<and> bc_limit main = limit \<and> indexed_from ID 1 ds \<and>
      length ds \<le> U32_MAX \<and> length ds \<le> max 1 (cl_max_len limit) \<and>
      (\<forall>side \<in> set (sd_data (ck_sides k)). committed IB ID root_of ds side))"

lemma set_update_subset: "set (AList.update k v xs) \<subseteq> insert (k, v) (set xs)"
  by (induction xs) auto

lemma committed_mono: "committed IB ID r ds side \<Longrightarrow> committed IB ID r (ds @ es) side"
  by (auto simp: committed_def nth_append split: prod.splits)

lemma indexed_from_snoc:
  "indexed_from I n (bs @ [b]) \<longleftrightarrow> indexed_from I n bs \<and> index_of I b = n + length bs"
  by (induction I n bs rule: indexed_from.induct) auto

lemma unat_u32_of_nat: "n \<le> U32_MAX \<Longrightarrow> unat (word_of_nat n :: u32) = n"
  by (simp add: unat_of_nat U32_MAX_def)

lemma add_u32_of_nat:
  assumes "n \<le> U32_MAX"
  shows "add_u32 (word_of_nat n) 1 = (if n < U32_MAX then Ok (word_of_nat (Suc n)) else Panic)"
proof -
  have "unat (word_of_nat n :: u32) + unat (1 :: u32) = Suc n"
    using unat_u32_of_nat [OF assms] by simp
  moreover have "(word_of_nat n :: u32) + 1 = word_of_nat (Suc n)" by simp
  ultimately show ?thesis unfolding add_u32_def by (simp only: Suc_le_eq)
qed

lemma unat_u32_Suc: "n < U32_MAX \<Longrightarrow> unat (1 + word_of_nat n :: u32) = Suc n"
  using unat_u32_of_nat [of "Suc n"] by simp

text \<open>The digest block \<open>add_chain\<close> makes for a chain with the given root and length.\<close>

definition next_digest ::
    "('d, 'z) digester_impl_scheme \<Rightarrow> u64 \<Rightarrow> 'd list \<Rightarrow> hash \<Rightarrow> nat \<Rightarrow> 'd" where
  "next_digest ID now ds root len =
     digest_create_of ID now
       (digest_block_args_new (hash_of ID (last ds)) root (word_of_nat len) (word_of_nat (Suc (length ds))))"

lemma len_of_bc [simp]: "len_of block_chain_impl c = length (bc_blocks c)"
  by (simp add: block_chain_impl_def)

lemma len_of_mc [simp]: "len_of main_impl m = length (bc_blocks (mc_data m))"
  by (simp add: main_impl_def)

lemma limit_of_mc [simp]: "limit_of main_impl m = bc_limit (mc_data m)"
  by (simp add: main_impl_def block_chain_impl_def)

lemma make_digest_eq:
  assumes "indexed_from ID 1 (bc_blocks (mc_data m))" and "bc_blocks (mc_data m) \<noteq> []"
    and "length (bc_blocks (mc_data m)) \<le> U32_MAX"
  shows "make_digest IB ID now m c =
    and_then (digest_of ID (map (hash_of IB) (bc_blocks c))) (\<lambda>root.
      if length (bc_blocks (mc_data m)) < U32_MAX
      then Ok (word_of_nat (Suc (length (bc_blocks (mc_data m)))),
               next_digest ID now (bc_blocks (mc_data m)) root (length (bc_blocks c)))
      else Panic)"
proof -
  let ?ds = "bc_blocks (mc_data m)"
  have "index_of ID (last ?ds) = length ?ds"
    using indexed_from_last [OF assms(1,2)] assms(2) by simp
  with assms(2) have "make_digest IB ID now m c =
      and_then (digest_of ID (map (hash_of IB) (bc_blocks c))) (\<lambda>root.
      and_then (add_u32 (word_of_nat (length ?ds)) 1) (\<lambda>d. Ok (d, digest_create_of ID now
        (digest_block_args_new (hash_of ID (last ?ds)) root (word_of_nat (length (bc_blocks c))) d))))"
    by (simp add: make_digest_def mc.last_block_ref_view)
  then show ?thesis
    unfolding add_u32_of_nat [OF assms(3)] next_digest_def
    by (cases "length ?ds < U32_MAX") simp_all
qed

context lawful_digester begin

lemma next_digest_facts:
  assumes "length ds < U32_MAX"
  shows "index_of I (next_digest I now ds root len) = Suc (length ds)"
    and "root_of (next_digest I now ds root len) = root"
    and "length_of I (next_digest I now ds root len) = word_of_nat len"
    and "timestamp_of I (next_digest I now ds root len) = now"
  using assms
  by (simp_all add: next_digest_def digest_block_args_new_def create_index create_root create_length
      create_time unat_u32_Suc)

lemma next_digest_verify:
  "block_verify I (next_digest I now ds root len) (hash_of I (last ds)) start gap = Ok () \<longleftrightarrow>
     unat start \<le> unat now \<and> unat now \<le> unat start + unat gap \<and> unat start + unat gap \<le> U64_MAX"
  using create_verify [of now "digest_block_args_new (hash_of I (last ds)) root (word_of_nat len)
      (word_of_nat (Suc (length ds)))"]
  by (simp add: next_digest_def digest_block_args_new_def)

text \<open>One call of \<open>add_chain\<close> on a keeper that satisfies the invariant, branch by branch.\<close>

lemma keeper_add_chain_eq:
  assumes "keeper_inv IB I root_of limit k"
  shows "keeper_add_chain IB I now k chain =
   (let main = mc_data (ck_main k); ds = bc_blocks main in
    if cl_max_len limit < length ds
    then (Err (H_Executor ''The keeper is full, can not add a new chain.''), k)
    else case digest_of I (map (hash_of IB) (bc_blocks chain)) of
      Ok root \<Rightarrow>
        if length ds = U32_MAX then (Panic, k)
        else
          let b = next_digest I now ds root (length (bc_blocks chain));
              v = block_verify I b (hash_of I (last ds)) (timestamp_of I (hd ds)) (cl_time_gap limit)
          in if v \<noteq> Ok () then (v, k)
             else if cl_max_len limit \<le> length ds then (Err (H_Chain ''chain is full''), k)
             else (chain_verify block_chain_impl IB chain,
                   \<lparr>ck_main = \<lparr>mc_data = push_block b main\<rparr>,
                    ck_sides = if chain_verify block_chain_impl IB chain = Ok ()
                               then sides_insert (word_of_nat (Suc (length ds))) chain (ck_sides k)
                               else ck_sides k\<rparr>)
    | Err e \<Rightarrow> (Err e, k) | Panic \<Rightarrow> (Panic, k) | Undefined \<Rightarrow> (Undefined, k) | Diverge \<Rightarrow> (Diverge, k))"
proof (cases "cl_max_len limit < length (bc_blocks (mc_data (ck_main k)))")
  case True
  with assms show ?thesis by (simp add: keeper_add_chain_def keeper_is_full_def keeper_inv_def Let_def)
next
  case False
  from assms have inv: "indexed_from I 1 (bc_blocks (mc_data (ck_main k)))"
    "bc_blocks (mc_data (ck_main k)) \<noteq> []" "length (bc_blocks (mc_data (ck_main k))) \<le> U32_MAX"
    "bc_limit (mc_data (ck_main k)) = limit"
    by (auto simp: keeper_inv_def Let_def chain_inv_def)
  from False have nf: "\<not> keeper_is_full k" by (simp add: keeper_is_full_def inv(4))
  show ?thesis
    using False inv nf
    by (cases "digest_of I (map (hash_of IB) (bc_blocks chain))")
      (auto simp: keeper_add_chain_def make_digest_eq Let_def main_add_block_nonempty is_full_def
        sides_add_chain_def split: outcome.splits)
qed

lemma keeper_inv_new: "keeper_inv IB I root_of limit (keeper_new I now limit)"
  by (simp add: keeper_inv_def keeper_new_def main_new_def sides_new_def chain_inv_new Let_def
      genesis_index U32_MAX_def)

lemma keeper_inv_push:
  assumes inv: "keeper_inv IB I root_of limit k"
    and root: "digest_of I (map (hash_of IB) (bc_blocks chain)) = Ok root"
    and room: "length (bc_blocks (mc_data (ck_main k))) < U32_MAX"
      "length (bc_blocks (mc_data (ck_main k))) < cl_max_len limit"
    and b: "b = next_digest I now (bc_blocks (mc_data (ck_main k))) root (length (bc_blocks chain))"
    and v: "block_verify I b (hash_of I (last (bc_blocks (mc_data (ck_main k)))))
      (timestamp_of I (hd (bc_blocks (mc_data (ck_main k))))) (cl_time_gap limit) = Ok ()"
  shows "keeper_inv IB I root_of limit
    \<lparr>ck_main = \<lparr>mc_data = push_block b (mc_data (ck_main k))\<rparr>,
     ck_sides = if chain_verify block_chain_impl IB chain = Ok ()
                then sides_insert (word_of_nat (Suc (length (bc_blocks (mc_data (ck_main k)))))) chain (ck_sides k)
                else ck_sides k\<rparr>"
proof -
  let ?ds = "bc_blocks (mc_data (ck_main k))"
  let ?d = "word_of_nat (Suc (length ?ds)) :: u32"
  from inv have ne: "?ds \<noteq> []" and lim: "bc_limit (mc_data (ck_main k)) = limit"
    and ix: "indexed_from I 1 ?ds" and lk: "chain_inv I (mc_data (ck_main k))"
    and com: "\<And>side. side \<in> set (sd_data (ck_sides k)) \<Longrightarrow> committed IB I root_of ?ds side"
    by (auto simp: keeper_inv_def Let_def chain_inv_def)
  have d: "unat ?d = Suc (length ?ds)"
    using room(1) by (intro unat_u32_of_nat) simp
  have main: "chain_inv I (push_block b (mc_data (ck_main k)))"
    using lk v by (simp add: chain_inv_def linked_snoc lim)
  have index: "indexed_from I 1 (?ds @ [b])"
    using ix next_digest_facts(1) [OF room(1)] by (simp add: indexed_from_snoc b)
  have new: "committed IB I root_of (?ds @ [b]) (?d, chain)"
    if "chain_verify block_chain_impl IB chain = Ok ()"
    unfolding committed_def prod.case d
    using that root ne next_digest_facts(2,3) [OF room(1)] by (simp add: b Suc_le_eq)
  have "committed IB I root_of (?ds @ [b]) side"
    if "side \<in> set (AList.update ?d chain (sd_data (ck_sides k)))"
      "chain_verify block_chain_impl IB chain = Ok ()" for side
  proof -
    have "side = (?d, chain) \<or> side \<in> set (sd_data (ck_sides k))"
      using that(1) set_update_subset [of ?d chain "sd_data (ck_sides k)"] by blast
    then show ?thesis
      using new [OF that(2)] com [of side] by (elim disjE) (simp_all add: committed_mono)
  qed
  then show ?thesis
    using main index room com
    by (auto simp: keeper_inv_def Let_def lim sides_insert_def committed_mono)
qed

lemma keeper_inv_add_chain:
  assumes "keeper_inv IB I root_of limit k"
  shows "keeper_inv IB I root_of limit (snd (keeper_add_chain IB I now k chain))"
proof -
  have "length (bc_blocks (mc_data (ck_main k))) \<le> U32_MAX"
    using assms by (simp add: keeper_inv_def Let_def)
  with assms keeper_inv_push [OF assms _ _ _ refl, of chain _ now] show ?thesis
    by (cases "chain_verify block_chain_impl IB chain = Ok ()")
      (auto simp: keeper_add_chain_eq [OF assms] Let_def simp del: of_nat_Suc split: outcome.split)
qed

lemma reach_keeper_inv:
  "executor_reach sha IB I limit e \<Longrightarrow> keeper_inv IB I root_of limit (ex_keeper e)"
proof (induction rule: executor_reach.induct)
  case (reach_new now now')
  then show ?case by (simp add: executor_new_def keeper_inv_new)
next
  case (reach_block e uuid now data r e')
  then show ?case by (simp add: add_block_def)
next
  case (reach_chain e now chain r e')
  then show ?case
    using keeper_inv_add_chain [of IB limit "ex_keeper e" now chain]
    by (auto simp: add_chain_def split: prod.splits)
qed

end

section \<open>Properties\<close>

abbreviation main_blocks :: "('b, 'd) executor \<Rightarrow> 'd list" where
  "main_blocks e \<equiv> bc_blocks (mc_data (ck_main (ex_keeper e)))"

lemma reach_inv:
  assumes "executor_reach sha (data_block_impl sha) (digest_block_impl sha) limit e"
  shows "keeper_inv (data_block_impl sha) (digest_block_impl sha) dg_merkle_root limit (ex_keeper e)"
  using assms by (rule digest_lawful.reach_keeper_inv)

lemma reach_main:
  assumes "executor_reach sha (data_block_impl sha) (digest_block_impl sha) limit e"
  shows "main_blocks e \<noteq> []" "length (main_blocks e) \<le> U32_MAX"
    "length (main_blocks e) \<le> max 1 (cl_max_len limit)"
    "bc_limit (mc_data (ck_main (ex_keeper e))) = limit"
  using reach_inv [OF assms] by (simp_all add: keeper_inv_def Let_def chain_inv_def)

text \<open>The clock readings at which the main chain of an executor takes a new block.\<close>

definition open_at :: "chain_limit \<Rightarrow> ('b, digest_block) executor \<Rightarrow> u64 \<Rightarrow> bool" where
  "open_at limit e now \<longleftrightarrow>
     (let start = dg_timestamp (hd (main_blocks e)) in
      unat start \<le> unat now \<and> unat now \<le> unat start + unat (cl_time_gap limit) \<and>
      unat start + unat (cl_time_gap limit) \<le> U64_MAX)"

text \<open>\<open>add_chain\<close> once the guards on the main chain are passed.\<close>

lemma add_chain_open:
  assumes reach: "executor_reach sha (data_block_impl sha) (digest_block_impl sha) limit e"
    and room: "length (main_blocks e) < cl_max_len limit" "length (main_blocks e) < U32_MAX"
    and t: "open_at limit e now"
    and root: "merkle_root sha (map db_hash (bc_blocks chain)) = Ok root"
  shows "add_chain (data_block_impl sha) (digest_block_impl sha) now e chain =
    (chain_verify block_chain_impl (data_block_impl sha) chain,
     e\<lparr>ex_keeper :=
       \<lparr>ck_main = \<lparr>mc_data = push_block (next_digest (digest_block_impl sha) now (main_blocks e) root
                                          (length (bc_blocks chain)))
                               (mc_data (ck_main (ex_keeper e)))\<rparr>,
        ck_sides = if chain_verify block_chain_impl (data_block_impl sha) chain = Ok ()
                   then sides_insert (word_of_nat (Suc (length (main_blocks e)))) chain (ck_sides (ex_keeper e))
                   else ck_sides (ex_keeper e)\<rparr>\<rparr>)"
proof -
  let ?ID = "digest_block_impl sha"
  have "block_verify ?ID (next_digest ?ID now (main_blocks e) root (length (bc_blocks chain)))
      (hash_of ?ID (last (main_blocks e))) (timestamp_of ?ID (hd (main_blocks e))) (cl_time_gap limit) = Ok ()"
    using t by (subst digest_lawful.next_digest_verify) (simp add: open_at_def Let_def)
  then show ?thesis
    using room root
    by (simp add: add_chain_def digest_lawful.keeper_add_chain_eq [OF reach_inv [OF reach]] Let_def
        del: of_nat_Suc)
qed

text \<open>Otherwise it fails and changes nothing.\<close>

lemma add_chain_refused:
  assumes reach: "executor_reach sha (data_block_impl sha) (digest_block_impl sha) limit e"
    and no: "\<not> (length (main_blocks e) < cl_max_len limit \<and> length (main_blocks e) < U32_MAX \<and>
               open_at limit e now \<and> bc_blocks chain \<noteq> [])"
  shows "fst (add_chain (data_block_impl sha) (digest_block_impl sha) now e chain) \<noteq> Ok () \<and>
         snd (add_chain (data_block_impl sha) (digest_block_impl sha) now e chain) = e"
proof (cases "bc_blocks chain = []")
  case True
  then have "merkle_root sha (map db_hash (bc_blocks chain)) = Err (H_Chain ''the chain is empty'')"
    by (simp add: merkle_root_def)
  then show ?thesis
    by (simp add: add_chain_def digest_lawful.keeper_add_chain_eq [OF reach_inv [OF reach]] Let_def)
next
  case False
  then obtain root where root: "merkle_root sha (map db_hash (bc_blocks chain)) = Ok root"
    by (simp add: merkle_root_Ok)
  let ?ID = "digest_block_impl sha"
  have "block_verify ?ID (next_digest ?ID now (main_blocks e) root (length (bc_blocks chain)))
      (hash_of ?ID (last (main_blocks e))) (timestamp_of ?ID (hd (main_blocks e))) (cl_time_gap limit) = Ok ()
      \<longleftrightarrow> open_at limit e now"
    by (subst digest_lawful.next_digest_verify) (simp add: open_at_def Let_def)
  with False no root reach_main(2) [OF reach] show ?thesis
    by (auto simp: add_chain_def digest_lawful.keeper_add_chain_eq [OF reach_inv [OF reach]] Let_def
        simp del: of_nat_Suc)
qed

lemma side_ref_insert:
  "side_ref \<lparr>ck_main = m, ck_sides = sides_insert d c (ck_sides k)\<rparr> d' =
     (if d' = d then Some c else side_ref k d')"
  by (auto simp: side_ref_def sides_get_def sides_insert_def update_conv')

text \<open>A verified chain that meets the guards is stored under the next number.\<close>

lemma add_chain_stores:
  assumes "executor_reach sha (data_block_impl sha) (digest_block_impl sha) limit e"
    and "length (main_blocks e) < cl_max_len limit" and "length (main_blocks e) < U32_MAX"
    and "open_at limit e now" and "chain_verify block_chain_impl (data_block_impl sha) c = Ok ()"
  shows "\<exists>e' b. add_chain (data_block_impl sha) (digest_block_impl sha) now e c = (Ok (), e') \<and>
    executor_reach sha (data_block_impl sha) (digest_block_impl sha) limit e' \<and>
    main_blocks e' = main_blocks e @ [b] \<and> hd (main_blocks e') = hd (main_blocks e) \<and>
    (\<forall>d. side_ref (ex_keeper e') d =
       (if d = word_of_nat (Suc (length (main_blocks e))) then Some c else side_ref (ex_keeper e) d))"
proof -
  let ?IB = "data_block_impl sha" and ?ID = "digest_block_impl sha"
  have "bc_blocks c \<noteq> []" using assms(5) by (auto simp: bc.verify_Ok)
  then obtain root where root: "merkle_root sha (map db_hash (bc_blocks c)) = Ok root"
    by (simp add: merkle_root_Ok)
  from add_chain_open [OF assms(1-4) root] assms(5) obtain e' where
    e': "add_chain ?IB ?ID now e c = (Ok (), e')"
      "main_blocks e' = main_blocks e @ [next_digest ?ID now (main_blocks e) root (length (bc_blocks c))]"
      "\<forall>d. side_ref (ex_keeper e') d =
         (if d = word_of_nat (Suc (length (main_blocks e))) then Some c else side_ref (ex_keeper e) d)"
    by (simp add: side_ref_insert del: of_nat_Suc)
  with executor_reach.reach_chain [OF assms(1) e'(1)] reach_main(1) [OF assms(1)] show ?thesis by auto
qed

lemma open_at_cong: "hd (main_blocks e') = hd (main_blocks e) \<Longrightarrow> open_at limit e' now = open_at limit e now"
  by (simp add: open_at_def)

lemma side_ref_committed:
  assumes "executor_reach sha (data_block_impl sha) (digest_block_impl sha) limit e"
    and "side_ref (ex_keeper e) d = Some c"
  shows "committed (data_block_impl sha) (digest_block_impl sha) dg_merkle_root (main_blocks e) (d, c)"
proof -
  have "(d, c) \<in> set (sd_data (ck_sides (ex_keeper e)))"
    using assms(2) by (auto simp: side_ref_def sides_get_def split: if_splits dest: map_of_SomeD)
  with reach_inv [OF assms(1)] show ?thesis by (simp add: keeper_inv_def Let_def)
qed

text \<open>C3: In every executor the program can reach, the digest blocks of the main chain are numbered
  from 1 and every stored side chain is a verified chain, kept under the number of a digest block
  that records its Merkle root and its length.\<close>

theorem stored_chains_committed:
  assumes "executor_reach sha (data_block_impl sha) (digest_block_impl sha) limit e"
  shows "(\<forall>i < length (main_blocks e). unat (dg_digest_id (main_blocks e ! i)) = Suc i) \<and>
    (\<forall>(d, c) \<in> set (sd_data (ck_sides (ex_keeper e))).
       chain_verify block_chain_impl (data_block_impl sha) c = Ok () \<and>
       2 \<le> unat d \<and> unat d \<le> length (main_blocks e) \<and>
       merkle_root sha (map db_hash (bc_blocks c)) = Ok (dg_merkle_root (main_blocks e ! (unat d - 1))) \<and>
       dg_length (main_blocks e ! (unat d - 1)) = word_of_nat (length (bc_blocks c)))"
proof -
  have "indexed_from (digest_block_impl sha) 1 (main_blocks e)"
    and "\<forall>side \<in> set (sd_data (ck_sides (ex_keeper e))).
           committed (data_block_impl sha) (digest_block_impl sha) dg_merkle_root (main_blocks e) side"
    using reach_inv [OF assms] by (simp_all add: keeper_inv_def Let_def)
  then show ?thesis
    using indexed_from_nth [of "digest_block_impl sha" 1 "main_blocks e"]
    by (auto simp: committed_def)
qed

text \<open>An executor in which the sample chain has been stored, for the concrete instances.\<close>

abbreviation sample_IB :: "data_block carrier_impl" where
  "sample_IB \<equiv> data_block_impl sample_sha"

abbreviation sample_ID :: "digest_block digester_impl" where
  "sample_ID \<equiv> digest_block_impl sample_sha"

definition sample_executor :: "nat \<Rightarrow> (data_block, digest_block) executor" where
  "sample_executor n = executor_new sample_IB sample_ID 10 10 (chain_limit_new n 100)"

definition sample_stored :: "nat \<Rightarrow> (data_block, digest_block) executor" where
  "sample_stored n = snd (add_chain sample_IB sample_ID 12 (sample_executor n) (sample_chain 1))"

lemma sample_reach: "executor_reach sample_sha sample_IB sample_ID (chain_limit_new n 100) (sample_executor n)"
  unfolding sample_executor_def by (rule executor_reach.reach_new)

lemma sample_stored_reach:
  "executor_reach sample_sha sample_IB sample_ID (chain_limit_new n 100) (sample_stored n)"
  unfolding sample_stored_def
  by (rule executor_reach.reach_chain [OF sample_reach prod.collapse [symmetric]])

lemma sample_main [simp]:
  "main_blocks (sample_executor n) = [digest_genesis sample_sha 10 1]"
  "ck_sides (ex_keeper (sample_executor n)) = sides_new"
  by (simp_all add: sample_executor_def executor_new_def keeper_new_def main_new_def)

lemma digest_genesis_time [simp]: "dg_timestamp (digest_genesis sha now d) = now"
  using digest_sealed.genesis_time [of sha now d] by simp

lemma sample_open [simp]: "open_at (chain_limit_new n 100) (sample_executor n) 12"
  by (simp add: open_at_def Let_def chain_limit_new_def U64_MAX_def)

lemma sample_root: "\<exists>root. merkle_root sample_sha (map db_hash (bc_blocks (sample_chain i))) = Ok root"
  by (simp add: merkle_root_Ok)

lemma sample_stored_sides:
  assumes "1 < n"
  shows "sd_data (ck_sides (ex_keeper (sample_stored n))) = [(2, sample_chain 1)]"
proof -
  obtain root where "merkle_root sample_sha (map db_hash (bc_blocks (sample_chain 1))) = Ok root"
    using sample_root by blast
  from add_chain_open [OF sample_reach _ _ sample_open this] assms show ?thesis
    by (simp add: sample_stored_def sample_chain_verify sides_insert_def sides_new_def
        chain_limit_new_def U32_MAX_def)
qed

theorem stored_chains_committed_witness:
  "merkle_root sample_sha (map db_hash (bc_blocks (sample_chain 1))) =
     Ok (dg_merkle_root (main_blocks (sample_stored 5) ! 1))"
  using stored_chains_committed [OF sample_stored_reach [of 5]]
  by (simp add: sample_stored_sides)

text \<open>C17: \<open>add_chain\<close> on a reachable executor succeeds exactly when the chain verifies, the main
  chain is below its limit and the clock lies in its time window, as long as the main chain has not used
  up the numbers a \<open>u32\<close> holds; then one digest block with the
  next number, the Merkle root and the length is appended and the chain is found under that
  number, while every other side chain stays as it was.\<close>

theorem add_chain_verdict:
  assumes "executor_reach sha (data_block_impl sha) (digest_block_impl sha) limit e"
    and "length (main_blocks e) < U32_MAX"
    and "add_chain (data_block_impl sha) (digest_block_impl sha) now e chain = (r, e')"
  shows "(r = Ok () \<longleftrightarrow> chain_verify block_chain_impl (data_block_impl sha) chain = Ok () \<and>
            length (main_blocks e) < cl_max_len limit \<and> open_at limit e now) \<and>
    (r = Ok () \<longrightarrow> (\<exists>b. main_blocks e' = main_blocks e @ [b] \<and>
       dg_prev_hash b = dg_hash (last (main_blocks e)) \<and> unat (dg_digest_id b) = Suc (length (main_blocks e)) \<and>
       merkle_root sha (map db_hash (bc_blocks chain)) = Ok (dg_merkle_root b) \<and>
       dg_length b = word_of_nat (length (bc_blocks chain)) \<and>
       (\<forall>d. side_ref (ex_keeper e') d =
          (if d = dg_digest_id b then Some chain else side_ref (ex_keeper e) d))))"
proof -
  let ?ds = "main_blocks e" and ?ID = "digest_block_impl sha"
  let ?ok = "length ?ds < cl_max_len limit \<and> length ?ds < U32_MAX \<and> open_at limit e now \<and> bc_blocks chain \<noteq> []"
  show ?thesis
  proof (cases ?ok)
    case False
    then have "r \<noteq> Ok ()" using add_chain_refused [OF assms(1), of now chain] assms(3) by simp
    moreover have "chain_verify block_chain_impl (data_block_impl sha) chain \<noteq> Ok ()" if "bc_blocks chain = []"
      using that by (simp add: bc.verify_Ok)
    ultimately show ?thesis using False assms(2) by blast
  next
    case True
    then obtain root where root: "merkle_root sha (map db_hash (bc_blocks chain)) = Ok root"
      by (simp add: merkle_root_Ok)
    let ?b = "next_digest ?ID now ?ds root (length (bc_blocks chain))"
    have b: "dg_prev_hash ?b = dg_hash (last ?ds)" "dg_digest_id ?b = word_of_nat (Suc (length ?ds))"
      "dg_merkle_root ?b = root" "dg_length ?b = word_of_nat (length (bc_blocks chain))"
      by (simp_all add: next_digest_def digest_create_def digest_private_new_def digest_block_args_new_def Let_def)
    have n: "unat (word_of_nat (Suc (length ?ds)) :: u32) = Suc (length ?ds)"
      using assms(2) by (intro unat_u32_of_nat) simp
    have "r = chain_verify block_chain_impl (data_block_impl sha) chain"
      and "r = Ok () \<Longrightarrow> main_blocks e' = ?ds @ [?b] \<and> (\<forall>d. side_ref (ex_keeper e') d =
          (if d = dg_digest_id ?b then Some chain else side_ref (ex_keeper e) d))"
      using assms(3) True
      unfolding add_chain_open [OF assms(1) conjunct1 [OF True] assms(2) _ root, OF conjunct1 [OF conjunct2 [OF conjunct2 [OF True]]]]
      by (auto simp: side_ref_insert b(2) simp del: of_nat_Suc)
    with True root b n show ?thesis by (metis (no_types))
  qed
qed

theorem add_chain_verdict_witness:
  "fst (add_chain sample_IB sample_ID 12 (sample_executor 5) (sample_chain 1)) = Ok ()"
  using add_chain_verdict [OF sample_reach [of 5] _ prod.collapse [symmetric], of 12 "sample_chain 1"]
  by (simp add: sample_chain_verify chain_limit_new_def U32_MAX_def)
    (simp add: open_at_def Let_def chain_limit_new_def U64_MAX_def)

text \<open>A chain that has a block but does not verify is refused by \<open>add_chain\<close> only after its digest block
  has gone into the main chain: the error is reported, no side chain is stored, and the main chain
  ends in a digest block that commits to the refused chain.\<close>

theorem refused_chain_leaves_digest:
  assumes "executor_reach sha (data_block_impl sha) (digest_block_impl sha) limit e"
    and "length (main_blocks e) < cl_max_len limit" and "length (main_blocks e) < U32_MAX"
    and "open_at limit e now" and "bc_blocks chain \<noteq> []"
    and "chain_verify block_chain_impl (data_block_impl sha) chain = Err err"
  shows "\<exists>b e'. add_chain (data_block_impl sha) (digest_block_impl sha) now e chain = (Err err, e') \<and>
    ck_sides (ex_keeper e') = ck_sides (ex_keeper e) \<and> main_blocks e' = main_blocks e @ [b] \<and>
    merkle_root sha (map db_hash (bc_blocks chain)) = Ok (dg_merkle_root b)"
proof -
  obtain root where root: "merkle_root sha (map db_hash (bc_blocks chain)) = Ok root"
    using assms(5) by (simp add: merkle_root_Ok)
  have "dg_merkle_root (next_digest (digest_block_impl sha) now (main_blocks e) root
      (length (bc_blocks chain))) = root"
    using assms(3) by (rule digest_lawful.next_digest_facts(2))
  with root show ?thesis
    unfolding add_chain_open [OF assms(1-4) root] assms(6) by simp
qed

definition lone_block :: "data_block block_chain" where
  "lone_block = \<lparr>bc_blocks = [sample_data_block], bc_limit = chain_limit_new 5 100\<rparr>"

theorem refused_chain_leaves_digest_instance:
  "\<exists>b e'. add_chain sample_IB sample_ID 12 (sample_executor 5) lone_block =
       (Err (H_Chain ''empty chain''), e') \<and>
    main_blocks e' = [digest_genesis sample_sha 10 1, b]"
proof -
  have "chain_verify block_chain_impl sample_IB lone_block = Err (H_Chain ''empty chain'')"
    by (rule bc.verify_short) (simp add: lone_block_def)
  with refused_chain_leaves_digest [OF sample_reach [of 5] _ _ sample_open, of lone_block]
  show ?thesis by (auto simp: lone_block_def chain_limit_new_def U32_MAX_def)
qed

text \<open>The keeper's own fullness test never fires in a reachable executor whose limit is at least one:
  with the main chain at its limit \<open>add_chain\<close> goes on to build the digest block and is stopped by
  the full main chain, with the chain's error and the state unchanged.\<close>

theorem keeper_full_never_fires:
  assumes "executor_reach sha (data_block_impl sha) (digest_block_impl sha) limit e"
    and "1 \<le> cl_max_len limit"
  shows "\<not> keeper_is_full (ex_keeper e) \<and>
    (length (main_blocks e) = cl_max_len limit \<and> length (main_blocks e) < U32_MAX \<and>
       open_at limit e now \<and> bc_blocks chain \<noteq> [] \<longrightarrow>
     add_chain (data_block_impl sha) (digest_block_impl sha) now e chain =
       (Err (H_Chain ''chain is full''), e))"
proof (intro conjI impI; (elim conjE)?)
  show "\<not> keeper_is_full (ex_keeper e)"
    using reach_main [OF assms(1)] assms(2) by (simp add: keeper_is_full_def)
next
  let ?ID = "digest_block_impl sha"
  assume *: "length (main_blocks e) = cl_max_len limit" "length (main_blocks e) < U32_MAX"
    "open_at limit e now" "bc_blocks chain \<noteq> []"
  then obtain root where root: "merkle_root sha (map db_hash (bc_blocks chain)) = Ok root"
    by (simp add: merkle_root_Ok)
  have "block_verify ?ID (next_digest ?ID now (main_blocks e) root (length (bc_blocks chain)))
      (hash_of ?ID (last (main_blocks e))) (timestamp_of ?ID (hd (main_blocks e))) (cl_time_gap limit) = Ok ()"
    using *(3) by (subst digest_lawful.next_digest_verify) (simp add: open_at_def Let_def)
  with * root show "add_chain (data_block_impl sha) ?ID now e chain = (Err (H_Chain ''chain is full''), e)"
    by (simp add: add_chain_def digest_lawful.keeper_add_chain_eq [OF reach_inv [OF assms(1)]] Let_def
        del: of_nat_Suc)
qed

theorem keeper_full_never_fires_instance:
  "add_chain sample_IB sample_ID 12 (sample_executor 1) (sample_chain 1) =
     (Err (H_Chain ''chain is full''), sample_executor 1)"
  using keeper_full_never_fires [OF sample_reach [of 1], of 12 "sample_chain 1"]
  by (simp add: chain_limit_new_def U32_MAX_def)
    (simp add: open_at_def Let_def chain_limit_new_def U64_MAX_def)

lemma reach_buffer:
  "executor_reach sha IB ID limit e \<Longrightarrow> \<exists>now. ex_chain_buf e = chain_new IB now 1 limit"
  by (induction rule: executor_reach.induct)
    (auto simp: executor_new_def add_block_def add_chain_def split: prod.splits)

text \<open>\<open>add_block\<close> on a reachable executor returns a block that carries the hash of the data and that
  the chain buffer would accept while its time window is open, but it does not store it: the
  executor is unchanged, so every call builds the block of index 1, with digest id 2.\<close>

theorem add_block_not_stored:
  assumes "executor_reach sha (data_block_impl sha) (digest_block_impl sha) limit e"
  shows "\<exists>b. add_block sha (data_block_impl sha) uuid now e data = (Ok b, e) \<and>
    db_data_hash b = sha data \<and> db_data_uuid b = uuid \<and> db_index b = 1 \<and> db_digest_id b = 2 \<and>
    (let start = db_timestamp (hd (bc_blocks (ex_chain_buf e))) in
     1 < cl_max_len limit \<and> unat start \<le> unat now \<and> unat now \<le> unat start + unat (cl_time_gap limit) \<and>
     unat start + unat (cl_time_gap limit) \<le> U64_MAX \<longrightarrow>
     fst (chain_add (data_block_impl sha) (ex_chain_buf e) b) = Ok ())"
proof -
  obtain t where t: "ex_chain_buf e = chain_new (data_block_impl sha) t 1 limit"
    using reach_buffer [OF assms] by blast
  have g: "db_index (data_genesis sha t 1) = 0" "db_digest_id (data_genesis sha t 1) = 1"
    by (simp_all add: data_defs)
  let ?a = "data_block_args_new (db_hash (data_genesis sha t 1)) (sha data) uuid 2 1"
  have "add_block sha (data_block_impl sha) uuid now e data = (Ok (data_create sha now ?a), e)"
    using bc.block_ref_view [of "ex_chain_buf e" 0]
    by (simp add: add_block_def archive_slice_def t g sub_usize_def Let_def)
  moreover have "db_data_hash (data_create sha now ?a) = sha data" "db_data_uuid (data_create sha now ?a) = uuid"
    "db_index (data_create sha now ?a) = 1" "db_digest_id (data_create sha now ?a) = 2"
    "db_timestamp (data_create sha now ?a) = now"
    "db_prev_hash (data_create sha now ?a) = db_hash (data_genesis sha t 1)"
    "db_hash (data_create sha now ?a) = sha (data_preimage (data_create sha now ?a))"
    by (simp_all add: data_defs)
  ultimately show ?thesis
    by (auto simp: t chain_add_nonempty is_full_def chain_block_verify_view data_sealed.verify_Ok Let_def)
qed

theorem add_block_not_stored_instance:
  "\<exists>b. add_block sample_sha sample_IB ZERO_UUID 12 (sample_executor 5) [1, 2] = (Ok b, sample_executor 5)"
  using add_block_not_stored [OF sample_reach [of 5], of ZERO_UUID 12 "[1, 2]"] by blast

end
