(* ===== verification/Widths.thy ===== *)
theory Widths imports Executor begin

text \<open>
  The sizes of the fixed-size arrays. A \<open>[u8; 32]\<close> is a list of bytes in the model; here it is shown
  that what the executor builds and keeps has the lengths the Rust types promise, which is what the
  binding properties assume of blocks.
\<close>

definition executor_typed :: "(data_block, digest_block) executor \<Rightarrow> bool" where
  "executor_typed e \<longleftrightarrow>
     (\<forall>b \<in> set (main_blocks e). digest_block_wf b) \<and>
     (\<forall>side \<in> set (sd_data (ck_sides (ex_keeper e))). \<forall>b \<in> set (bc_blocks (snd side)). data_block_wf b) \<and>
     (\<forall>b \<in> set (bc_blocks (ex_chain_buf e)). data_block_wf b)"

lemma merkle_root_width:
  assumes "sha256_width sha" and "merkle_root sha hs = Ok root"
  shows "length root = 32"
proof -
  from assms(2) have ne: "hs \<noteq> []" by (auto simp: merkle_root_def)
  obtain d where d: "merkle_depth (length hs) = Suc d"
    using merkle_depth_pos [of "length hs"] by (cases "merkle_depth (length hs)") auto
  from assms(2) ne have "root = merkle_tree sha (Suc d) hs" by (simp add: merkle_root_Ok d)
  with assms(1) show ?thesis by (simp add: sha256_width_def)
qed

lemma data_create_wf:
  assumes "sha256_width sha" and "length (da_prev_hash a) = 32" "length (da_data_hash a) = 32" "length (da_data_uuid a) = 16"
  shows "data_block_wf (data_create sha now a)"
  using assms by (simp add: data_block_wf_def data_defs sha256_width_def)

lemma digest_create_wf:
  assumes "sha256_width sha" and "length (ga_prev_hash a) = 32" "length (ga_merkle_root a) = 32"
  shows "digest_block_wf (digest_create sha now a)"
  using assms by (simp add: digest_block_wf_def digest_defs sha256_width_def)

lemma genesis_wf:
  assumes "sha256_width sha"
  shows "data_block_wf (data_genesis sha now d)" and "digest_block_wf (digest_genesis sha now d)"
  using assms
  by (simp_all add: data_genesis_def digest_genesis_def data_create_wf digest_create_wf
      data_block_args_new_def digest_block_args_new_def)

lemma chain_add_blocks: "set (bc_blocks (snd (chain_add I c b))) \<subseteq> insert b (set (bc_blocks c))"
  by (auto simp: chain_add_def push_block_def split: outcome.splits)

lemma main_add_block_blocks:
  "set (bc_blocks (mc_data (snd (main_add_block I m b)))) \<subseteq> insert b (set (bc_blocks (mc_data m)))"
  using chain_add_blocks [of I "mc_data m" b]
  by (auto simp: main_add_block_def case_prod_unfold split: outcome.split option.split)

lemma make_digest_wf:
  assumes "sha256_width sha" and "\<forall>b \<in> set (bc_blocks (mc_data m)). digest_block_wf b"
    and "make_digest IB (digest_block_impl sha) now m c = Ok (d, b)"
  shows "digest_block_wf b"
proof -
  from assms(3) obtain last_digest root where
    l: "last_block_ref main_impl m = Ok (Some last_digest)"
    and root: "merkle_root sha (map (hash_of IB) (bc_blocks c)) = Ok root"
    and b: "b = digest_create sha now (digest_block_args_new (dg_hash last_digest) root
      (word_of_nat (len_of block_chain_impl c)) d)"
    by (auto simp: make_digest_def and_then_Ok unwrap_def digest_block_impl_def split: option.splits)
  from l have "bc_blocks (mc_data m) \<noteq> []" by (auto simp: last_block_ref_def)
  with l have "last_digest \<in> set (bc_blocks (mc_data m))" by (simp add: mc.last_block_ref_view) auto
  with assms(2) have "length (dg_hash last_digest) = 32" by (simp add: digest_block_wf_def)
  with merkle_root_width [OF assms(1) root] show ?thesis
    unfolding b by (intro digest_create_wf [OF assms(1)]) (simp_all add: digest_block_args_new_def)
qed

lemma sides_add_chain_set:
  "set (sd_data (snd (sides_add_chain I s d c))) \<subseteq> insert (d, c) (set (sd_data s))"
  using set_update_subset [of d c "sd_data s"]
  by (auto simp: sides_add_chain_def sides_insert_def split: outcome.split)

lemma keeper_add_chain_typed:
  fixes k :: "(data_block, digest_block) chain_keeper"
  assumes "sha256_width sha" and "\<forall>b \<in> set (bc_blocks (mc_data (ck_main k))). digest_block_wf b"
  shows "(\<forall>b \<in> set (bc_blocks (mc_data (ck_main (snd (keeper_add_chain IB (digest_block_impl sha) now k chain))))).
      digest_block_wf b) \<and>
    (\<exists>d. set (sd_data (ck_sides (snd (keeper_add_chain IB (digest_block_impl sha) now k chain)))) \<subseteq>
      insert (d, chain) (set (sd_data (ck_sides k))))"
proof (cases "\<exists>d b. \<not> keeper_is_full k \<and> make_digest IB (digest_block_impl sha) now (ck_main k) chain = Ok (d, b)")
  case True
  then obtain d b where m: "\<not> keeper_is_full k"
    "make_digest IB (digest_block_impl sha) now (ck_main k) chain = Ok (d, b)" by blast
  obtain r m' where a: "main_add_block (digest_block_impl sha) (ck_main k) b = (r, m')" by (metis surj_pair)
  obtain r' s' where s: "sides_add_chain IB (ck_sides k) d chain = (r', s')" by (metis surj_pair)
  have "\<forall>b \<in> set (bc_blocks (mc_data m')). digest_block_wf b"
    using main_add_block_blocks [of "digest_block_impl sha" "ck_main k" b] make_digest_wf [OF assms m(2)] assms(2) a
    by auto
  moreover have "set (sd_data s') \<subseteq> insert (d, chain) (set (sd_data (ck_sides k)))"
    using sides_add_chain_set [of IB "ck_sides k" d chain] s by simp
  ultimately show ?thesis
    using m by (auto simp: keeper_add_chain_def a s split: outcome.split)
next
  case False
  then have "snd (keeper_add_chain IB (digest_block_impl sha) now k chain) = k"
    by (auto simp: keeper_add_chain_def split: outcome.split)
  with assms(2) show ?thesis by auto
qed

lemma add_chain_typed:
  assumes "sha256_width sha" and "executor_typed e" and "\<forall>b \<in> set (bc_blocks chain). data_block_wf b"
  shows "executor_typed (snd (add_chain IB (digest_block_impl sha) now e chain))"
  using keeper_add_chain_typed [OF assms(1), of "ex_keeper e" IB now chain] assms(2,3)
  by (fastforce simp: executor_typed_def add_chain_def case_prod_unfold)

lemma add_block_typed:
  assumes "sha256_width sha" and "executor_typed e" and "length uuid = 16"
    and "add_block sha (data_block_impl sha) uuid now e data = (r, e')"
  shows "executor_typed e'" and "r = Ok b \<Longrightarrow> data_block_wf b"
proof -
  from assms(4) have "e' = e" by (simp add: add_block_def)
  with assms(2) show "executor_typed e'" by simp
  assume "r = Ok b"
  with assms(4) obtain pre_block l where
    p: "unwrap (block_ref_of block_chain_impl (ex_chain_buf e) l) = Ok pre_block"
    and b: "b = data_create sha now (data_block_args_new (db_hash pre_block) (sha data) uuid
        (word_of_nat (unat (db_digest_id pre_block) + 1)) (word_of_nat (unat (db_index pre_block) + 1)))"
    by (auto simp: add_block_def archive_slice_def and_then_Ok data_block_impl_def Let_def)
  from p have "pre_block \<in> set (bc_blocks (ex_chain_buf e))"
    by (auto simp: unwrap_def block_chain_impl_def bc_block_ref_def split: if_splits option.splits)
  with assms(2) have "length (db_hash pre_block) = 32" by (simp add: executor_typed_def data_block_wf_def)
  with assms(1,3) show "data_block_wf b"
    unfolding b by (intro data_create_wf) (simp_all add: data_block_args_new_def sha256_width_def)
qed

lemma executor_new_typed:
  "sha256_width sha \<Longrightarrow>
     executor_typed (executor_new (data_block_impl sha) (digest_block_impl sha) now now' limit)"
  using genesis_wf [of sha]
  by (simp add: executor_typed_def executor_new_def keeper_new_def main_new_def sides_new_def
      chain_new_def data_block_impl_def digest_block_impl_def Let_def)

text \<open>The fixed-size arrays keep their sizes: in a new executor, and after any call of \<open>add_block\<close> or
  \<open>add_chain\<close> with arrays of the right sizes, refused or not, every hash of the main chain, the side
  chains and the buffer has 32 bytes and every uuid 16, and so has the block \<open>add_block\<close> returns.\<close>

theorem executor_stays_typed:
  assumes "sha256_width sha" and "executor_typed e" and "\<forall>b \<in> set (bc_blocks chain). data_block_wf b"
    and "length uuid = 16" and "add_block sha (data_block_impl sha) uuid now e data = (r, e')"
  shows "executor_typed (executor_new (data_block_impl sha) (digest_block_impl sha) now now' limit) \<and>
    executor_typed (snd (add_chain (data_block_impl sha) (digest_block_impl sha) now e chain)) \<and>
    executor_typed e' \<and> (\<forall>b. r = Ok b \<longrightarrow> data_block_wf b)"
  using executor_new_typed [OF assms(1)] add_chain_typed [OF assms(1-3)]
    add_block_typed [OF assms(1,2,4,5)] by blast

theorem executor_stays_typed_instance:
  "let sha = (\<lambda>bs. take 32 (bs @ replicate 32 1)); IB = data_block_impl sha; ID = digest_block_impl sha;
       e = executor_new IB ID 10 10 (chain_limit_new 5 100)
   in executor_typed (snd (add_chain IB ID 12 e (chain_new IB 11 1 (chain_limit_new 5 100)))) \<and>
      executor_typed (snd (add_block sha IB ZERO_UUID 12 e [1, 2]))"
proof -
  let ?sha = "\<lambda>bs :: bytes. take 32 (bs @ replicate 32 1)"
  let ?IB = "data_block_impl ?sha" and ?ID = "digest_block_impl ?sha"
  let ?e = "executor_new ?IB ?ID 10 10 (chain_limit_new 5 100)"
  have w: "sha256_width ?sha" by (auto simp: sha256_width_def min_def)
  have "\<forall>b \<in> set (bc_blocks (chain_new ?IB 11 1 (chain_limit_new 5 100))). data_block_wf b"
    using genesis_wf(1) [OF w] by (simp add: chain_new_def data_block_impl_def Let_def)
  from executor_stays_typed [OF w executor_new_typed [OF w] this, of ZERO_UUID 12 10 10 "chain_limit_new 5 100" "[1, 2]"]
  show ?thesis unfolding Let_def by (metis length_ZERO_UUID prod.collapse)
qed

end
