(* ===== verification/Pipe.thy ===== *)
theory Pipe imports Prelude begin

text \<open>
  \<open>src/pipe.rs\<close>: the two-way pipe over two bounded channels. The channels are tokio's: a parameter
  \<open>mpsc\<close> with the operations the pipe calls, and \<open>mpsc_ok\<close> is their documented behaviour. The
  channels live in a store, a channel is a number, and the two ends of a pipe hold the two numbers
  crossed. An operation that has to wait returns \<open>None\<close>.
\<close>

section \<open>The channels\<close>

datatype try_recv_error = TryEmpty | TryDisconnected
datatype try_send_error = TryFull | TryClosed

text \<open>\<open>Sender::send\<close> says whether the value was taken, \<open>Receiver::recv\<close> hands out \<open>None\<close> when the
  channel is closed and drained.\<close>

record ('c, 't) mpsc =
  mp_channel :: "nat \<Rightarrow> 'c"
  mp_send :: "'t \<Rightarrow> 'c \<Rightarrow> (bool \<times> 'c) option"
  mp_recv :: "'c \<Rightarrow> ('t option \<times> 'c) option"
  mp_try_send :: "'t \<Rightarrow> 'c \<Rightarrow> try_send_error option \<times> 'c"
  mp_try_recv :: "'c \<Rightarrow> (try_recv_error + 't) \<times> 'c"
  mp_close :: "'c \<Rightarrow> 'c"
  mp_sender_closed :: "'c \<Rightarrow> bool"
  mp_receiver_closed :: "'c \<Rightarrow> bool"

text \<open>What the documentation says of them: a channel is a queue of at most \<open>capacity\<close> values, open or
  closed (both ends of a pipe stay alive here).\<close>

type_synonym 't chan_view = "'t list \<times> bool \<times> nat"

definition mpsc_ok :: "('c, 't) mpsc \<Rightarrow> ('c \<Rightarrow> 't chan_view) \<Rightarrow> bool" where
  "mpsc_ok M view \<longleftrightarrow>
     (\<forall>capacity. view (mp_channel M capacity) = ([], False, capacity)) \<and>
     (\<forall>c q closed capacity. view c = (q, closed, capacity) \<longrightarrow>
        (mp_sender_closed M c \<longleftrightarrow> closed) \<and> (mp_receiver_closed M c \<longleftrightarrow> closed) \<and>
        view (mp_close M c) = (q, True, capacity) \<and>
        (\<forall>v. if closed then \<exists>c'. mp_send M v c = Some (False, c') \<and> view c' = view c
             else if length q < capacity then
               \<exists>c'. mp_send M v c = Some (True, c') \<and> view c' = (q @ [v], False, capacity)
             else mp_send M v c = None) \<and>
        (\<forall>v. if closed then \<exists>c'. mp_try_send M v c = (Some TryClosed, c') \<and> view c' = view c
             else if length q < capacity then
               \<exists>c'. mp_try_send M v c = (None, c') \<and> view c' = (q @ [v], False, capacity)
             else \<exists>c'. mp_try_send M v c = (Some TryFull, c') \<and> view c' = view c) \<and>
        (case q of
           v # vs \<Rightarrow> (\<exists>c'. mp_recv M c = Some (Some v, c') \<and> view c' = (vs, closed, capacity)) \<and>
             (\<exists>c'. mp_try_recv M c = (Inr v, c') \<and> view c' = (vs, closed, capacity))
         | [] \<Rightarrow> (if closed then \<exists>c'. mp_recv M c = Some (None, c') \<and> view c' = view c else mp_recv M c = None) \<and>
             (\<exists>c'. mp_try_recv M c = (Inl (if closed then TryDisconnected else TryEmpty), c') \<and> view c' = view c)))"

section \<open>The pipe\<close>

record pipe =
  pp_sender :: nat
  pp_receiver :: nat

text \<open>\<open>Pipe::new\<close>: two new channels, crossed; tokio refuses a capacity of 0 with a panic.\<close>

definition pipe_new ::
    "('c, 't) mpsc \<Rightarrow> nat \<Rightarrow> nat \<Rightarrow> nat \<Rightarrow> (nat \<Rightarrow> 'c) \<Rightarrow> ((pipe \<times> pipe) \<times> (nat \<Rightarrow> 'c)) outcome" where
  "pipe_new M chan chan2 capacity cs =
     (if capacity = 0 then Panic
      else Ok ((\<lparr>pp_sender = chan, pp_receiver = chan2\<rparr>, \<lparr>pp_sender = chan2, pp_receiver = chan\<rparr>),
               cs(chan := mp_channel M capacity, chan2 := mp_channel M capacity)))"

definition pipe_send ::
    "('c, 't) mpsc \<Rightarrow> pipe \<Rightarrow> 't \<Rightarrow> (nat \<Rightarrow> 'c) \<Rightarrow> (unit outcome \<times> (nat \<Rightarrow> 'c)) option" where
  "pipe_send M p value cs =
     (if mp_sender_closed M (cs (pp_sender p)) then Some (Err (H_Pipe Close), cs)
      else case mp_send M value (cs (pp_sender p)) of
        None \<Rightarrow> None
      | Some (accepted, c) \<Rightarrow>
          Some (if accepted then Ok () else Err (H_Message ''Error sending value: {}''), cs(pp_sender p := c)))"

definition pipe_recv ::
    "('c, 't) mpsc \<Rightarrow> pipe \<Rightarrow> (nat \<Rightarrow> 'c) \<Rightarrow> ('t outcome \<times> (nat \<Rightarrow> 'c)) option" where
  "pipe_recv M p cs =
     (case mp_recv M (cs (pp_receiver p)) of
        None \<Rightarrow> None
      | Some (Some value, c) \<Rightarrow> Some (Ok value, cs(pp_receiver p := c))
      | Some (None, c) \<Rightarrow> Some (Err (H_Message ''Error in receiving value''), cs(pp_receiver p := c)))"

definition pipe_close :: "('c, 't) mpsc \<Rightarrow> pipe \<Rightarrow> (nat \<Rightarrow> 'c) \<Rightarrow> nat \<Rightarrow> 'c" where
  "pipe_close M p cs = cs(pp_receiver p := mp_close M (cs (pp_receiver p)))"

definition pipe_is_closed :: "('c, 't) mpsc \<Rightarrow> pipe \<Rightarrow> (nat \<Rightarrow> 'c) \<Rightarrow> bool" where
  "pipe_is_closed M p cs = mp_receiver_closed M (cs (pp_receiver p))"

definition pipe_try_recv :: "('c, 't) mpsc \<Rightarrow> pipe \<Rightarrow> (nat \<Rightarrow> 'c) \<Rightarrow> 't outcome \<times> (nat \<Rightarrow> 'c)" where
  "pipe_try_recv M p cs =
     (case mp_try_recv M (cs (pp_receiver p)) of
        (Inr value, c) \<Rightarrow> (Ok value, cs(pp_receiver p := c))
      | (Inl TryEmpty, c) \<Rightarrow> (Err (H_Pipe Empty), cs(pp_receiver p := c))
      | (Inl TryDisconnected, c) \<Rightarrow> (Err (H_Pipe Close), cs(pp_receiver p := c)))"

definition pipe_try_send :: "('c, 't) mpsc \<Rightarrow> pipe \<Rightarrow> 't \<Rightarrow> (nat \<Rightarrow> 'c) \<Rightarrow> unit outcome \<times> (nat \<Rightarrow> 'c)" where
  "pipe_try_send M p value cs =
     (if mp_sender_closed M (cs (pp_sender p)) then (Err (H_Pipe Close), cs)
      else case mp_try_send M value (cs (pp_sender p)) of
        (None, c) \<Rightarrow> (Ok (), cs(pp_sender p := c))
      | (Some TryFull, c) \<Rightarrow> (Err (H_Pipe Full), cs(pp_sender p := c))
      | (Some TryClosed, c) \<Rightarrow> (Err (H_Pipe Close), cs(pp_sender p := c)))"

section \<open>A conversation\<close>

text \<open>The two ends use the pipe in any order. What an end has sent is what was accepted; an operation
  that waits is not done (it is tried again later in the list, or never).\<close>

datatype 't pipe_op = Send 't | TrySend 't | Recv | TryRecv | CloseOp

record ('c, 't) talk =
  tk_chans :: "nat \<Rightarrow> 'c"
  tk_sent :: "bool \<Rightarrow> 't list"
  tk_got :: "bool \<Rightarrow> 't list"

definition tell :: "bool \<Rightarrow> 't \<Rightarrow> unit outcome \<Rightarrow> (bool \<Rightarrow> 't list) \<Rightarrow> bool \<Rightarrow> 't list" where
  "tell e v r sent = (if r = Ok () then sent(e := sent e @ [v]) else sent)"

definition hear :: "bool \<Rightarrow> 't outcome \<Rightarrow> (bool \<Rightarrow> 't list) \<Rightarrow> bool \<Rightarrow> 't list" where
  "hear e r got = (case r of Ok v \<Rightarrow> got(e := got e @ [v]) | _ \<Rightarrow> got)"

fun talk_op :: "('c, 't) mpsc \<Rightarrow> (bool \<Rightarrow> pipe) \<Rightarrow> bool \<times> 't pipe_op \<Rightarrow> ('c, 't) talk \<Rightarrow> ('c, 't) talk" where
  "talk_op M p (e, Send v) t =
     (case pipe_send M (p e) v (tk_chans t) of
        None \<Rightarrow> t
      | Some (r, cs) \<Rightarrow> t\<lparr>tk_chans := cs, tk_sent := tell e v r (tk_sent t)\<rparr>)"
| "talk_op M p (e, TrySend v) t =
     (case pipe_try_send M (p e) v (tk_chans t) of
        (r, cs) \<Rightarrow> t\<lparr>tk_chans := cs, tk_sent := tell e v r (tk_sent t)\<rparr>)"
| "talk_op M p (e, Recv) t =
     (case pipe_recv M (p e) (tk_chans t) of
        None \<Rightarrow> t
      | Some (r, cs) \<Rightarrow> t\<lparr>tk_chans := cs, tk_got := hear e r (tk_got t)\<rparr>)"
| "talk_op M p (e, TryRecv) t =
     (case pipe_try_recv M (p e) (tk_chans t) of
        (r, cs) \<Rightarrow> t\<lparr>tk_chans := cs, tk_got := hear e r (tk_got t)\<rparr>)"
| "talk_op M p (e, CloseOp) t = t\<lparr>tk_chans := pipe_close M (p e) (tk_chans t)\<rparr>"

definition talk_run ::
    "('c, 't) mpsc \<Rightarrow> pipe \<times> pipe \<Rightarrow> (bool \<times> 't pipe_op) list \<Rightarrow> (nat \<Rightarrow> 'c) \<Rightarrow> ('c, 't) talk" where
  "talk_run M ab ops cs =
     fold (talk_op M (\<lambda>e. if e then fst ab else snd ab)) ops
       \<lparr>tk_chans = cs, tk_sent = (\<lambda>_. []), tk_got = (\<lambda>_. [])\<rparr>"

text \<open>What each operation does to the views of the channels.\<close>

definition chan_inv :: "'t chan_view \<Rightarrow> nat \<Rightarrow> 't list \<Rightarrow> 't list \<Rightarrow> bool \<Rightarrow> bool" where
  "chan_inv cv capacity sent got shut \<longleftrightarrow>
     (\<exists>q closed. cv = (q, closed, capacity) \<and> sent = got @ q \<and> length q \<le> capacity \<and> (shut \<longrightarrow> closed))"

lemma mpsc_okD:
  assumes "mpsc_ok M view" and "view c = (q, closed, capacity)"
  shows "mp_sender_closed M c \<longleftrightarrow> closed" "mp_receiver_closed M c \<longleftrightarrow> closed"
    "view (mp_close M c) = (q, True, capacity)"
    "\<not> closed \<Longrightarrow> length q < capacity \<Longrightarrow>
       \<exists>c'. mp_send M v c = Some (True, c') \<and> view c' = (q @ [v], False, capacity)"
    "\<not> closed \<Longrightarrow> \<not> length q < capacity \<Longrightarrow> mp_send M v c = None"
    "\<not> closed \<Longrightarrow> length q < capacity \<Longrightarrow>
       \<exists>c'. mp_try_send M v c = (None, c') \<and> view c' = (q @ [v], False, capacity)"
    "\<not> closed \<Longrightarrow> \<not> length q < capacity \<Longrightarrow> \<exists>c'. mp_try_send M v c = (Some TryFull, c') \<and> view c' = view c"
    "q = u # vs \<Longrightarrow> \<exists>c'. mp_recv M c = Some (Some u, c') \<and> view c' = (vs, closed, capacity)"
    "q = u # vs \<Longrightarrow> \<exists>c'. mp_try_recv M c = (Inr u, c') \<and> view c' = (vs, closed, capacity)"
    "q = [] \<Longrightarrow> mp_recv M c = None \<or> (\<exists>c'. mp_recv M c = Some (None, c') \<and> view c' = view c)"
    "q = [] \<Longrightarrow> \<exists>e c'. mp_try_recv M c = (Inl e, c') \<and> view c' = view c"
  using assms(1)[unfolded mpsc_ok_def, THEN conjunct2, rule_format, OF assms(2)]
  by (auto split: if_splits list.splits)

lemma pipe_send_view:
  assumes "mpsc_ok M view" and "chan_inv (view (cs (pp_sender p))) capacity sent got shut"
    and "pipe_send M p v cs = Some (r, cs')"
  shows "\<exists>c. cs' = cs(pp_sender p := c) \<and>
    chan_inv (view c) capacity (if r = Ok () then sent @ [v] else sent) got shut"
proof -
  obtain q closed where v: "view (cs (pp_sender p)) = (q, closed, capacity)" "sent = got @ q"
    "length q \<le> capacity" "shut \<longrightarrow> closed"
    using assms(2) by (auto simp: chan_inv_def)
  note ch = mpsc_okD [OF assms(1) v(1)]
  show ?thesis
  proof (cases closed)
    case True
    with assms(3) ch(1) v show ?thesis
      by (intro exI [of _ "cs (pp_sender p)"]) (auto simp: pipe_send_def chan_inv_def)
  next
    case open_: False
    show ?thesis
    proof (cases "length q < capacity")
      case True
      from ch(4) [OF open_ this, of v] assms(3) ch(1) open_ v True show ?thesis
        by (auto simp: pipe_send_def chan_inv_def)
    next
      case False
      from ch(5) [OF open_ this, of v] assms(3) ch(1) open_ show ?thesis by (simp add: pipe_send_def)
    qed
  qed
qed

lemma pipe_try_send_view:
  assumes "mpsc_ok M view" and "chan_inv (view (cs (pp_sender p))) capacity sent got shut"
    and "pipe_try_send M p v cs = (r, cs')"
  shows "\<exists>c. cs' = cs(pp_sender p := c) \<and>
    chan_inv (view c) capacity (if r = Ok () then sent @ [v] else sent) got shut"
proof -
  obtain q closed where v: "view (cs (pp_sender p)) = (q, closed, capacity)" "sent = got @ q"
    "length q \<le> capacity" "shut \<longrightarrow> closed"
    using assms(2) by (auto simp: chan_inv_def)
  note ch = mpsc_okD [OF assms(1) v(1)]
  show ?thesis
  proof (cases closed)
    case True
    with assms(3) ch(1) v show ?thesis
      by (intro exI [of _ "cs (pp_sender p)"]) (auto simp: pipe_try_send_def chan_inv_def)
  next
    case open_: False
    show ?thesis
    proof (cases "length q < capacity")
      case True
      from ch(6) [OF open_ this, of v] assms(3) ch(1) open_ v True show ?thesis
        by (auto simp: pipe_try_send_def chan_inv_def)
    next
      case False
      from ch(7) [OF open_ this, of v] assms(3) ch(1) open_ v False show ?thesis
        by (auto simp: pipe_try_send_def chan_inv_def)
    qed
  qed
qed

lemma pipe_recv_view:
  assumes "mpsc_ok M view" and "chan_inv (view (cs (pp_receiver p))) capacity sent got shut"
    and "pipe_recv M p cs = Some (r, cs')"
  shows "\<exists>c. cs' = cs(pp_receiver p := c) \<and>
    chan_inv (view c) capacity sent (case r of Ok v \<Rightarrow> got @ [v] | _ \<Rightarrow> got) shut"
proof -
  obtain q closed where v: "view (cs (pp_receiver p)) = (q, closed, capacity)" "sent = got @ q"
    "length q \<le> capacity" "shut \<longrightarrow> closed"
    using assms(2) by (auto simp: chan_inv_def)
  show ?thesis
  proof (cases q)
    case Nil
    from mpsc_okD(10) [OF assms(1) v(1) Nil] assms(3) obtain c' where
      "cs' = cs(pp_receiver p := c')" "view c' = ([], closed, capacity)" "is_err r"
      using v(1) Nil by (auto simp: pipe_recv_def)
    with v Nil show ?thesis by (cases r) (auto simp: chan_inv_def intro!: exI [of _ c'])
  next
    case (Cons u vs)
    from mpsc_okD(8) [OF assms(1) v(1) Cons] assms(3) obtain c' where
      "cs' = cs(pp_receiver p := c')" "view c' = (vs, closed, capacity)" "r = Ok u"
      by (auto simp: pipe_recv_def)
    with v Cons show ?thesis by (auto simp: chan_inv_def intro!: exI [of _ c'])
  qed
qed

lemma pipe_try_recv_view:
  assumes "mpsc_ok M view" and "chan_inv (view (cs (pp_receiver p))) capacity sent got shut"
    and "pipe_try_recv M p cs = (r, cs')"
  shows "\<exists>c. cs' = cs(pp_receiver p := c) \<and>
    chan_inv (view c) capacity sent (case r of Ok v \<Rightarrow> got @ [v] | _ \<Rightarrow> got) shut"
proof -
  obtain q closed where v: "view (cs (pp_receiver p)) = (q, closed, capacity)" "sent = got @ q"
    "length q \<le> capacity" "shut \<longrightarrow> closed"
    using assms(2) by (auto simp: chan_inv_def)
  show ?thesis
  proof (cases q)
    case Nil
    from mpsc_okD(11) [OF assms(1) v(1) Nil] assms(3) obtain c' where
      "cs' = cs(pp_receiver p := c')" "view c' = ([], closed, capacity)" "is_err r"
      using v(1) Nil by (auto simp: pipe_try_recv_def split: try_recv_error.splits)
    with v Nil show ?thesis by (cases r) (auto simp: chan_inv_def intro!: exI [of _ c'])
  next
    case (Cons u vs)
    from mpsc_okD(9) [OF assms(1) v(1) Cons] assms(3) obtain c' where
      "cs' = cs(pp_receiver p := c')" "view c' = (vs, closed, capacity)" "r = Ok u"
      by (auto simp: pipe_try_recv_def)
    with v Cons show ?thesis by (auto simp: chan_inv_def intro!: exI [of _ c'])
  qed
qed

lemma pipe_close_view:
  assumes "mpsc_ok M view" and "chan_inv (view (cs (pp_receiver p))) capacity sent got shut"
  shows "chan_inv (view (pipe_close M p cs (pp_receiver p))) capacity sent got True"
  using mpsc_okD(3) [OF assms(1)] assms(2) by (auto simp: chan_inv_def pipe_close_def)

text \<open>The invariant of a conversation: in each direction, what was sent is what was got and what is
  still in the channel. \<open>shut e\<close>: the end \<open>e\<close> has closed its receiver.\<close>

definition talk_inv ::
    "('c \<Rightarrow> 't chan_view) \<Rightarrow> nat \<Rightarrow> nat \<Rightarrow> nat \<Rightarrow> (bool \<Rightarrow> bool) \<Rightarrow> ('c, 't) talk \<Rightarrow> bool" where
  "talk_inv view chan chan2 capacity shut t \<longleftrightarrow>
     chan_inv (view (tk_chans t chan)) capacity (tk_sent t True) (tk_got t False) (shut False) \<and>
     chan_inv (view (tk_chans t chan2)) capacity (tk_sent t False) (tk_got t True) (shut True)"

lemma talk_op_inv:
  assumes "mpsc_ok M view" and "chan \<noteq> chan2" and "talk_inv view chan chan2 capacity shut t"
    and "p = (\<lambda>e. if e then \<lparr>pp_sender = chan, pp_receiver = chan2\<rparr>
      else \<lparr>pp_sender = chan2, pp_receiver = chan\<rparr>)"
  shows "talk_inv view chan chan2 capacity (\<lambda>e. shut e \<or> eop = (e, CloseOp)) (talk_op M p eop t)"
proof -
  obtain e opn where eop: "eop = (e, opn)" by (cases eop)
  let ?s = "pp_sender (p e)" and ?r = "pp_receiver (p e)"
  have out: "chan_inv (view (tk_chans t ?s)) capacity (tk_sent t e) (tk_got t (\<not> e)) (shut (\<not> e))"
    and inn: "chan_inv (view (tk_chans t ?r)) capacity (tk_sent t (\<not> e)) (tk_got t e) (shut e)"
    using assms(3,4) by (cases e; simp add: talk_inv_def)+
  have ends: "?s = (if e then chan else chan2)" "?r = (if e then chan2 else chan)"
    by (simp_all add: assms(4))
  have same: "(\<lambda>e'. shut e' \<or> eop = (e', CloseOp)) = shut" if "opn \<noteq> CloseOp"
    using that by (auto simp: eop)
  show ?thesis
  proof (cases opn)
    case (Send v)
    show ?thesis
    proof (cases "pipe_send M (p e) v (tk_chans t)")
      case None
      with Send assms(3) same show ?thesis by (simp add: eop)
    next
      case (Some rcs)
      obtain r cs where rcs: "rcs = (r, cs)" by (cases rcs)
      from pipe_send_view [where cs = "tk_chans t" and p = "p e", OF assms(1) out, of v r cs] Some rcs obtain c where
        "cs = (tk_chans t)(?s := c)" "chan_inv (view c) capacity (if r = Ok () then tk_sent t e @ [v] else tk_sent t e)
           (tk_got t (\<not> e)) (shut (\<not> e))" by auto
      with Some rcs Send assms(2) inn ends same show ?thesis
        by (cases e) (auto simp: eop talk_inv_def tell_def)
    qed
  next
    case (TrySend v)
    obtain r cs where rcs: "pipe_try_send M (p e) v (tk_chans t) = (r, cs)"
      by (cases "pipe_try_send M (p e) v (tk_chans t)")
    from pipe_try_send_view [where cs = "tk_chans t" and p = "p e", OF assms(1) out rcs] obtain c where
      "cs = (tk_chans t)(?s := c)" "chan_inv (view c) capacity (if r = Ok () then tk_sent t e @ [v] else tk_sent t e)
         (tk_got t (\<not> e)) (shut (\<not> e))" by auto
    with rcs TrySend assms(2) inn ends same show ?thesis
      by (cases e) (auto simp: eop talk_inv_def tell_def)
  next
    case Recv
    show ?thesis
    proof (cases "pipe_recv M (p e) (tk_chans t)")
      case None
      with Recv assms(3) same show ?thesis by (simp add: eop)
    next
      case (Some rcs)
      obtain r cs where rcs: "rcs = (r, cs)" by (cases rcs)
      from pipe_recv_view [where cs = "tk_chans t" and p = "p e", OF assms(1) inn, of r cs] Some rcs obtain c where
        "cs = (tk_chans t)(?r := c)" "chan_inv (view c) capacity (tk_sent t (\<not> e))
           (case r of Ok v \<Rightarrow> tk_got t e @ [v] | _ \<Rightarrow> tk_got t e) (shut e)" by auto
      with Some rcs Recv assms(2) out ends same show ?thesis
        by (cases e; cases r) (auto simp: eop talk_inv_def hear_def)
    qed
  next
    case TryRecv
    obtain r cs where rcs: "pipe_try_recv M (p e) (tk_chans t) = (r, cs)"
      by (cases "pipe_try_recv M (p e) (tk_chans t)")
    from pipe_try_recv_view [where cs = "tk_chans t" and p = "p e", OF assms(1) inn rcs] obtain c where
      "cs = (tk_chans t)(?r := c)" "chan_inv (view c) capacity (tk_sent t (\<not> e))
         (case r of Ok v \<Rightarrow> tk_got t e @ [v] | _ \<Rightarrow> tk_got t e) (shut e)" by auto
    with rcs TryRecv assms(2) out ends same show ?thesis
      by (cases e; cases r) (auto simp: eop talk_inv_def hear_def)
  next
    case CloseOp
    with pipe_close_view [where cs = "tk_chans t" and p = "p e", OF assms(1) inn] out ends assms(2) show ?thesis
      by (cases e) (simp_all add: eop talk_inv_def pipe_close_def)
  qed
qed

lemma talk_run_inv:
  assumes "mpsc_ok M view" and "chan \<noteq> chan2" and "talk_inv view chan chan2 capacity shut t"
    and "p = (\<lambda>e. if e then \<lparr>pp_sender = chan, pp_receiver = chan2\<rparr>
      else \<lparr>pp_sender = chan2, pp_receiver = chan\<rparr>)"
  shows "talk_inv view chan chan2 capacity (\<lambda>e. shut e \<or> (e, CloseOp) \<in> set ops) (fold (talk_op M p) ops t)"
  using assms(3)
proof (induction ops arbitrary: shut t)
  case (Cons x ops)
  have "(\<lambda>e. (shut e \<or> x = (e, CloseOp)) \<or> (e, CloseOp) \<in> set ops) =
      (\<lambda>e. shut e \<or> (e, CloseOp) \<in> set (x # ops))" by auto
  with Cons.IH [OF talk_op_inv [OF assms(1,2) Cons.prems assms(4), of x]] show ?case by simp
qed simp

text \<open>Receiving goes on until the channel is drained, whether it is open or closed; after that it waits or
  reports an error.\<close>

lemma talk_drain:
  assumes "mpsc_ok M view" and "opn = Recv \<or> opn = TryRecv" and "view (tk_chans t (pp_receiver (p e))) = (q, closed, capacity)"
  shows "tk_got (fold (talk_op M p) (replicate n (e, opn)) t) e = tk_got t e @ take n q \<and>
    tk_sent (fold (talk_op M p) (replicate n (e, opn)) t) = tk_sent t"
  using assms(3)
proof (induction n arbitrary: t q)
  case (Suc n)
  let ?t = "talk_op M p (e, opn) t"
  note ch = mpsc_okD [OF assms(1) Suc.prems]
  have "tk_sent ?t = tk_sent t \<and> tk_got ?t e = tk_got t e @ take 1 q \<and>
      view (tk_chans ?t (pp_receiver (p e))) = (drop 1 q, closed, capacity)"
  proof (cases q)
    case Nil
    with assms(2) ch(10,11) Suc.prems show ?thesis
      by (auto simp: pipe_recv_def pipe_try_recv_def hear_def split: try_recv_error.split)
  next
    case (Cons u vs)
    with assms(2) ch(8,9) [OF Cons] show ?thesis by (auto simp: pipe_recv_def pipe_try_recv_def hear_def)
  qed
  with Suc.IH [of ?t "drop 1 q"] show ?case by (cases q) auto
qed simp

lemma talk_run_append:
  "talk_run M ab (ops @ more_ops) cs = fold (talk_op M (\<lambda>e. if e then fst ab else snd ab)) more_ops (talk_run M ab ops cs)"
  by (simp add: talk_run_def)

section \<open>A channel\<close>

text \<open>The plain channel: the view itself.\<close>

definition queue_mpsc :: "('t chan_view, 't) mpsc" where
  "queue_mpsc =
     \<lparr>mp_channel = (\<lambda>capacity. ([], False, capacity)),
      mp_send = (\<lambda>v (q, closed, capacity).
        if closed then Some (False, (q, closed, capacity))
        else if length q < capacity then Some (True, (q @ [v], closed, capacity)) else None),
      mp_recv = (\<lambda>(q, closed, capacity).
        case q of v # vs \<Rightarrow> Some (Some v, (vs, closed, capacity))
        | [] \<Rightarrow> if closed then Some (None, (q, closed, capacity)) else None),
      mp_try_send = (\<lambda>v (q, closed, capacity).
        if closed then (Some TryClosed, (q, closed, capacity))
        else if length q < capacity then (None, (q @ [v], closed, capacity))
        else (Some TryFull, (q, closed, capacity))),
      mp_try_recv = (\<lambda>(q, closed, capacity).
        case q of v # vs \<Rightarrow> (Inr v, (vs, closed, capacity))
        | [] \<Rightarrow> (Inl (if closed then TryDisconnected else TryEmpty), (q, closed, capacity))),
      mp_close = (\<lambda>(q, closed, capacity). (q, True, capacity)),
      mp_sender_closed = (\<lambda>(q, closed, capacity). closed),
      mp_receiver_closed = (\<lambda>(q, closed, capacity). closed)\<rparr>"

lemma queue_mpsc_ok: "mpsc_ok queue_mpsc id"
  by (auto simp: mpsc_ok_def queue_mpsc_def split: list.split)

section \<open>Properties\<close>

text \<open>C21: The pipe loses, repeats and reorders nothing, in either direction and for any interleaving of the
  operations of its two ends: what one end got is the first part of what the other end was told it
  had sent, the rest is still in the channel and fits its capacity; an end whose peer has closed its
  receiver can neither send nor try to send any more, while what was sent before can still be received:
  as many receives as the channel has room, waiting or not, give an end all that the other was told it had
  sent, closed or open.\<close>

theorem pipe_conversation:
  assumes "mpsc_ok M view" and "chan \<noteq> chan2" and "pipe_new M chan chan2 capacity cs = Ok (ab, cs0)"
    and "t = talk_run M ab ops cs0"
  shows "(\<exists>q q2 b b2. view (tk_chans t chan) = (q, b, capacity) \<and> view (tk_chans t chan2) = (q2, b2, capacity) \<and>
      tk_sent t True = tk_got t False @ q \<and> tk_sent t False = tk_got t True @ q2 \<and>
      length q \<le> capacity \<and> length q2 \<le> capacity) \<and>
    ((False, CloseOp) \<in> set ops \<longrightarrow>
      pipe_send M (fst ab) v (tk_chans t) = Some (Err (H_Pipe Close), tk_chans t) \<and>
      pipe_try_send M (fst ab) v (tk_chans t) = (Err (H_Pipe Close), tk_chans t) \<and>
      pipe_is_closed M (snd ab) (tk_chans t)) \<and>
    ((True, CloseOp) \<in> set ops \<longrightarrow>
      pipe_send M (snd ab) v (tk_chans t) = Some (Err (H_Pipe Close), tk_chans t) \<and>
      pipe_try_send M (snd ab) v (tk_chans t) = (Err (H_Pipe Close), tk_chans t) \<and>
      pipe_is_closed M (fst ab) (tk_chans t)) \<and>
    (\<forall>e. \<forall>opn \<in> {Recv, TryRecv}. tk_got (talk_run M ab (ops @ replicate capacity (e, opn)) cs0) e = tk_sent t (\<not> e))"
proof -
  from assms(3) have ab: "ab = (\<lparr>pp_sender = chan, pp_receiver = chan2\<rparr>, \<lparr>pp_sender = chan2, pp_receiver = chan\<rparr>)"
    and cs0: "cs0 = cs(chan := mp_channel M capacity, chan2 := mp_channel M capacity)"
    by (auto simp: pipe_new_def split: if_splits)
  have "talk_inv view chan chan2 capacity (\<lambda>_. False)
      \<lparr>tk_chans = cs0, tk_sent = (\<lambda>_. []), tk_got = (\<lambda>_. [])\<rparr>"
    using assms(1,2) by (auto simp: talk_inv_def chan_inv_def cs0 mpsc_ok_def)
  from talk_run_inv [OF assms(1,2) this refl, of ops]
  have "talk_inv view chan chan2 capacity (\<lambda>e. (e, CloseOp) \<in> set ops) t"
    unfolding assms(4) talk_run_def by (simp add: ab cong: if_cong)
  then obtain q q2 b b2 where v: "view (tk_chans t chan) = (q, b, capacity)"
    "view (tk_chans t chan2) = (q2, b2, capacity)" "tk_sent t True = tk_got t False @ q"
    "tk_sent t False = tk_got t True @ q2" "length q \<le> capacity" "length q2 \<le> capacity"
    "(False, CloseOp) \<in> set ops \<longrightarrow> b" "(True, CloseOp) \<in> set ops \<longrightarrow> b2"
    by (auto simp: talk_inv_def chan_inv_def)
  let ?p = "\<lambda>e. if e then fst ab else snd ab"
  have "tk_got (talk_run M ab (ops @ replicate capacity (e, opn)) cs0) e = tk_sent t (\<not> e)"
    if "opn \<in> {Recv, TryRecv}" for e opn
  proof -
    have "view (tk_chans t (pp_receiver (?p e))) = (if e then q2 else q, if e then b2 else b, capacity)"
      using v(1,2) by (simp add: ab)
    from talk_drain [where t = t and p = ?p and e = e and opn = opn and n = capacity, OF assms(1) _ this] that
    have "tk_got (fold (talk_op M ?p) (replicate capacity (e, opn)) t) e = tk_got t e @ take capacity (if e then q2 else q)"
      by blast
    then show ?thesis unfolding talk_run_append assms(4) [symmetric] using v(3-6) by (cases e) simp_all
  qed
  with v mpsc_okD(1,2) [OF assms(1) v(1)] mpsc_okD(1,2) [OF assms(1) v(2)] show ?thesis
    by (simp add: ab pipe_send_def pipe_try_send_def pipe_is_closed_def)
qed

theorem pipe_conversation_witness:
  "pipe_send queue_mpsc \<lparr>pp_sender = 0, pp_receiver = 1\<rparr> (9 :: nat)
     (tk_chans (talk_run queue_mpsc (\<lparr>pp_sender = 0, pp_receiver = 1\<rparr>, \<lparr>pp_sender = 1, pp_receiver = 0\<rparr>)
       [(True, Send 5), (True, Send 6), (False, CloseOp), (False, Recv)]
       ((\<lambda>_. ([], False, 0))(0 := ([], False, 2), 1 := ([], False, 2))))) = Some (Err (H_Pipe Close),
     (\<lambda>_. ([], False, 0))(0 := ([6], True, 2), 1 := ([], False, 2)))"
proof -
  let ?cs = "\<lambda>_ :: nat. ([], False, 0) :: nat chan_view" and ?ops = "[(True, Send (5 :: nat)), (True, Send 6), (False, CloseOp), (False, Recv)]"
  let ?ab = "(\<lparr>pp_sender = 0, pp_receiver = 1\<rparr>, \<lparr>pp_sender = 1, pp_receiver = 0\<rparr>)"
  have n: "pipe_new queue_mpsc 0 1 2 ?cs = Ok (?ab, ?cs(0 := ([], False, 2), 1 := ([], False, 2)))"
    by (simp add: pipe_new_def queue_mpsc_def)
  have t: "tk_chans (talk_run queue_mpsc ?ab ?ops (?cs(0 := ([], False, 2), 1 := ([], False, 2)))) =
      ?cs(0 := ([6], True, 2), 1 := ([], False, 2))"
    by (auto simp: talk_run_def pipe_send_def pipe_recv_def pipe_close_def queue_mpsc_def tell_def hear_def fun_eq_iff)
  from pipe_conversation [OF queue_mpsc_ok _ n refl, of ?ops 9] show ?thesis unfolding t by simp
qed

end
