(* ===== verification/Identity.thy ===== *)
theory Identity imports Prelude begin

text \<open>
  \<open>src/nodes/identity.rs\<close> and the data types of \<open>src/nodes/node.rs\<close> that travel in messages
  (\<open>NodeInfo\<close>, \<open>Reputation\<close>, \<open>NodeState\<close>). The signature scheme of the crate ed25519-dalek is a
  parameter, \<open>sig_scheme\<close>; the random bytes of a key pair are the secret key it makes. The signer
  task behind a \<open>SignHandle\<close> is the identity it owns, \<open>None\<close> once it has been cancelled.
\<close>

section \<open>Signatures\<close>

record 'sk sig_scheme =
  sg_public :: "'sk \<Rightarrow> hash"
  sg_sign :: "'sk \<Rightarrow> bytes \<Rightarrow> bytes"
  sg_key_ok :: "hash \<Rightarrow> bool"                   \<comment> \<open>\<open>VerifyingKey::from_bytes\<close> succeeds\<close>
  sg_verify :: "hash \<Rightarrow> bytes \<Rightarrow> bytes \<Rightarrow> bool"

text \<open>What the crate documents: keys and signatures have fixed widths, and a signature made with a
  secret key verifies under its public key.\<close>

definition sig_ok :: "'sk sig_scheme \<Rightarrow> bool" where
  "sig_ok S \<longleftrightarrow> (\<forall>sk m. length (sg_public S sk) = 32 \<and> length (sg_sign S sk m) = 64 \<and>
     sg_key_ok S (sg_public S sk) \<and> sg_verify S (sg_public S sk) m (sg_sign S sk m))"

section \<open>Identities\<close>

record 'sk identity =
  id_public_key :: hash
  id_secret_key :: "'sk option"

definition create_keypair :: "'sk sig_scheme \<Rightarrow> 'sk \<Rightarrow> hash \<times> 'sk" where
  "create_keypair S sk = (sg_public S sk, sk)"

definition identity_new :: "'sk sig_scheme \<Rightarrow> 'sk \<Rightarrow> 'sk identity" where
  "identity_new S sk =
     (case create_keypair S sk of (public_key, secret_key) \<Rightarrow>
        \<lparr>id_public_key = public_key, id_secret_key = Some secret_key\<rparr>)"

definition sign_msg :: "'sk sig_scheme \<Rightarrow> 'sk identity \<Rightarrow> bytes \<Rightarrow> bytes outcome" where
  "sign_msg S idn message =
     (case id_secret_key idn of
        Some secret_key \<Rightarrow> Ok (sg_sign S secret_key message)
      | None \<Rightarrow> Err (H_Identity ''No secret key''))"

definition public_key_to_bytes :: "'sk identity \<Rightarrow> hash" where
  "public_key_to_bytes idn = id_public_key idn"

definition verify_signature_bytes ::
    "'sk sig_scheme \<Rightarrow> bytes \<Rightarrow> hash \<Rightarrow> bytes \<Rightarrow> unit outcome" where
  "verify_signature_bytes S data public_key signature =
     (if \<not> sg_key_ok S public_key then Err (H_Identity ''verify signature error: {}'')
      else if sg_verify S public_key data signature then Ok ()
      else Err (H_Identity ''verify signature error: {}''))"

definition identity_clone :: "'sk identity \<Rightarrow> 'sk identity" where
  "identity_clone idn = \<lparr>id_public_key = id_public_key idn, id_secret_key = None\<rparr>"

section \<open>Sign handles\<close>

record 'sk sign_handle =
  sh_public_key_bytes :: hash
  sh_signer :: "'sk identity option"

definition spawn_new :: "'sk identity \<Rightarrow> 'sk sign_handle outcome" where
  "spawn_new idn =
     Ok \<lparr>sh_public_key_bytes = public_key_to_bytes idn, sh_signer = Some idn\<rparr>"

definition cancel_signer :: "'sk sign_handle \<Rightarrow> 'sk sign_handle" where
  "cancel_signer h = h\<lparr>sh_signer := None\<rparr>"

definition handle_verify :: "'sk sig_scheme \<Rightarrow> 'sk sign_handle \<Rightarrow> bytes \<Rightarrow> bytes \<Rightarrow> unit outcome" where
  "handle_verify S h message signature =
     verify_signature_bytes S message (sh_public_key_bytes h) signature"

text \<open>One turn of the signer task on a request: the answer it sends, \<open>None\<close> when it only logs.\<close>

definition signer_turn :: "'sk sig_scheme \<Rightarrow> 'sk identity \<Rightarrow> bytes \<Rightarrow> bytes outcome option" where
  "signer_turn S idn bytes_vec =
     (case sign_msg S idn bytes_vec of Ok sig \<Rightarrow> Some (Ok sig) | _ \<Rightarrow> None)"

text \<open>\<open>SignHandle::sign\<close>: send the request (an error when the task is gone) and wait for the answer
  (an error when it never comes).\<close>

definition handle_sign :: "'sk sig_scheme \<Rightarrow> 'sk sign_handle \<Rightarrow> bytes \<Rightarrow> bytes outcome" where
  "handle_sign S h bytes =
     (case sh_signer h of
        None \<Rightarrow> Err (H_Identity ''error in function send, SignHadnle in identity : {}'')
      | Some idn \<Rightarrow>
          (case signer_turn S idn bytes of
             Some signature_result \<Rightarrow> signature_result
           | None \<Rightarrow> Err (H_Identity ''error in function sign_message, SignHadnle in identity : {}'')))"

lemma handle_sign_spawned:
  "spawn_new (identity_new S sk) = Ok h \<Longrightarrow> handle_sign S h m = Ok (sg_sign S sk m)"
  by (auto simp: spawn_new_def handle_sign_def signer_turn_def sign_msg_def identity_new_def
      create_keypair_def public_key_to_bytes_def)

section \<open>What a node knows of another\<close>

type_synonym socket_addr = "bytes \<times> nat"     \<comment> \<open>the octets of the IP address, the port\<close>

record reputation =
  rp_score :: u8

definition reputation_new :: reputation where
  "reputation_new = \<lparr>rp_score = 60\<rparr>"

datatype node_state = Active | Busy | Sleepping

record node_info =
  ni_name :: "hash option"
  ni_address :: "socket_addr list option"
  ni_caller :: "hash option"
  ni_reputation :: "reputation option"
  ni_last_conn :: "u64 option"
  ni_last_state :: "node_state option"
  ni_meeting_count :: "u32 option"
  ni_conn_rate :: "u32 option"              \<comment> \<open>an \<open>f32\<close> as its bit pattern\<close>
  ni_introducer :: "hash option"

definition node_info_new :: node_info where
  "node_info_new = \<lparr>ni_name = None, ni_address = None, ni_caller = None, ni_reputation = None,
     ni_last_conn = None, ni_last_state = None, ni_meeting_count = None, ni_conn_rate = None,
     ni_introducer = None\<rparr>"

definition required :: "string \<Rightarrow> 'a option \<Rightarrow> 'a outcome" where
  "required msg field = (case field of Some x \<Rightarrow> Ok x | None \<Rightarrow> Err (H_Message msg))"

definition info_name :: "node_info \<Rightarrow> hash outcome" where
  "info_name n = required ''node name is not set'' (ni_name n)"

definition info_address :: "node_info \<Rightarrow> socket_addr list outcome" where
  "info_address n = required ''node address is not set'' (ni_address n)"

definition info_caller :: "node_info \<Rightarrow> hash outcome" where
  "info_caller n = required ''node caller is not set'' (ni_caller n)"

definition info_reputation :: "node_info \<Rightarrow> reputation outcome" where
  "info_reputation n = required ''node reputation is not set'' (ni_reputation n)"

definition info_last_conn :: "node_info \<Rightarrow> u64 outcome" where
  "info_last_conn n = required ''node last_conn is not set'' (ni_last_conn n)"

definition info_last_state :: "node_info \<Rightarrow> node_state outcome" where
  "info_last_state n = required ''node last_state is not set'' (ni_last_state n)"

end
