(* ===== verification/SerializerDefs.thy ===== *)
theory SerializerDefs imports Prelude begin

text \<open>
  \<open>src/serializer.rs\<close>, the definitions: the \<open>Serializer\<close> struct, the default methods of the
  \<open>Serialize\<close> trait and the helpers. The crate bincode is a parameter, a \<open>codec\<close>: one function
  that encodes a value into a slice and returns the slice as it leaves it, one that decodes a
  value and the number of bytes it took. A method with \<open>&mut\<close> arguments returns their new values.
\<close>

section \<open>The codec parameter\<close>

datatype enc_result = Encoded nat | UnexpectedEnd | EncodeFails

record 'a codec =
  into_slice_of :: "'a \<Rightarrow> bytes \<Rightarrow> enc_result \<times> bytes"
  from_slice_of :: "bytes \<Rightarrow> ('a \<times> nat) option"

text \<open>\<open>bincode::encode_into_slice(v, &mut dst[off..], config)\<close>: the slice expression may panic.\<close>

definition encode_at :: "'a codec \<Rightarrow> 'a \<Rightarrow> bytes \<Rightarrow> nat \<Rightarrow> (enc_result \<times> bytes) outcome" where
  "encode_at cd v dst off =
     (if off \<le> length dst
      then case into_slice_of cd v (drop off dst) of (r, tail) \<Rightarrow> Ok (r, take off dst @ tail)
      else Panic)"

section \<open>The serializer\<close>

definition BUFFER_SIZE :: nat where "BUFFER_SIZE = 1024 * 128"
definition BIGGEST_BUFFER_SIZE :: nat where "BIGGEST_BUFFER_SIZE = 1024 * BUFFER_SIZE"

record 'a serializer =
  ser_buffer :: bytes
  ser_data :: "'a option"

definition serializer_new :: "'a option \<Rightarrow> 'a serializer" where
  "serializer_new data = \<lparr>ser_buffer = replicate BUFFER_SIZE 0, ser_data = data\<rparr>"

definition get_data :: "'a serializer \<Rightarrow> 'a option" where
  "get_data s = ser_data s"

definition resize_buffer :: "'a serializer \<Rightarrow> nat \<Rightarrow> unit outcome \<times> 'a serializer" where
  "resize_buffer s len = (Ok (), s\<lparr>ser_buffer := vec_resize (ser_buffer s) len 0\<rparr>)"

definition take_data :: "'a serializer \<Rightarrow> 'a option \<times> 'a serializer" where
  "take_data s = (ser_data s, s\<lparr>ser_data := None\<rparr>)"

definition set_data :: "'a serializer \<Rightarrow> 'a \<Rightarrow> 'a serializer" where
  "set_data s data = s\<lparr>ser_data := Some data\<rparr>"

section \<open>Encoding\<close>

definition encode_data_into_slice ::
    "'a codec \<Rightarrow> 'a serializer \<Rightarrow> bytes \<Rightarrow> nat outcome \<times> 'a serializer \<times> bytes" where
  "encode_data_into_slice cd s dst =
     (case take_data s of
        (Some data, s') \<Rightarrow>
          (case into_slice_of cd data dst of
             (Encoded _, dst') \<Rightarrow> (Ok (length dst'), s', dst')
           | (_, dst') \<Rightarrow> (Err (H_Message ''error in serializer encode_into_slice {}''), s', dst'))
      | (None, s') \<Rightarrow> (Err (H_Message ''no data in serializer''), s', dst))"

text \<open>The loop of \<open>encode_into_vec_with_header\<close>: double the buffer until the value fits.\<close>

partial_function (option) header_loop ::
    "'a codec \<Rightarrow> 'a \<Rightarrow> nat \<Rightarrow> bytes \<Rightarrow> (nat outcome \<times> bytes) option" where
  "header_loop cd v len dst =
     (case encode_at cd v dst 4 of
        Ok (res, dst') \<Rightarrow>
          (case res of
             UnexpectedEnd \<Rightarrow>
               (let len' = len * 2 in
                if len' > BIGGEST_BUFFER_SIZE
                then Some (Err (H_Message ''the buffer is too big to use a lot of memory, size: {}''), dst')
                else header_loop cd v len' (vec_resize dst' len' 0))
           | EncodeFails \<Rightarrow> Some (Err (H_Message ''error in serializer encode_into_slice {}''), dst')
           | Encoded n \<Rightarrow> Some (Ok (4 + n), write_at dst' 0 (u32_be (word_of_nat n))))
      | _ \<Rightarrow> Some (Panic, dst))"

definition encode_into_vec_with_header ::
    "'a codec \<Rightarrow> 'a serializer \<Rightarrow> bytes \<Rightarrow> nat outcome \<times> 'a serializer \<times> bytes" where
  "encode_into_vec_with_header cd s dst =
     (case take_data s of
        (Some val, s') \<Rightarrow>
          (case header_loop cd val (length dst) dst of
             Some (Ok total_size, dst') \<Rightarrow> (Ok total_size, set_data s' val, dst')
           | Some (r, dst') \<Rightarrow> (r, s', dst')
           | None \<Rightarrow> (Diverge, s', dst))
      | (None, s') \<Rightarrow> (Err (H_Message ''error in serializer encode_into_slice error: {}''), s', dst))"

definition save_size_header_into_slice :: "u32 \<Rightarrow> bytes \<Rightarrow> nat \<Rightarrow> bytes outcome" where
  "save_size_header_into_slice len dst off =
     (if off + 4 \<le> length dst then Ok (write_at dst off (u32_be len)) else Panic)"

text \<open>The inner loop of \<open>encode_vec_into\<close>; \<open>time_resize\<close> is the constant 1.\<close>

partial_function (option) item_loop ::
    "'a codec \<Rightarrow> 'a \<Rightarrow> nat \<Rightarrow> bytes \<Rightarrow> (nat outcome \<times> bytes) option" where
  "item_loop cd v off dst =
     (case encode_at cd v dst (off + 4) of
        Ok (res, dst') \<Rightarrow>
          (case res of
             UnexpectedEnd \<Rightarrow> item_loop cd v off (vec_resize dst' (BUFFER_SIZE * (1 + 1) * 1) 0)
           | EncodeFails \<Rightarrow> Some (Err (H_Message ''error in serializer encode_into_vec {}''), dst')
           | Encoded n \<Rightarrow>
               (case save_size_header_into_slice (word_of_nat n) dst' off of
                  Ok dst'' \<Rightarrow> Some (Ok (off + 4 + n), dst'')
                | _ \<Rightarrow> Some (Panic, dst')))
      | _ \<Rightarrow> Some (Panic, dst))"

fun encode_items :: "'a codec \<Rightarrow> 'a list \<Rightarrow> nat \<Rightarrow> bytes \<Rightarrow> nat outcome \<times> bytes" where
  "encode_items cd [] off dst = (Ok off, dst)"
| "encode_items cd (v # vs) off dst =
     (case item_loop cd v off dst of
        Some (Ok off', dst') \<Rightarrow> encode_items cd vs off' dst'
      | Some (r, dst') \<Rightarrow> (r, dst')
      | None \<Rightarrow> (Diverge, dst))"

definition encode_vec_into ::
    "'a codec \<Rightarrow> 'a serializer \<Rightarrow> 'a list \<Rightarrow> nat outcome \<times> 'a serializer" where
  "encode_vec_into cd s src =
     (case encode_items cd src 0 (ser_buffer s) of (r, dst) \<Rightarrow> (r, s\<lparr>ser_buffer := dst\<rparr>))"

text \<open>\<open>save_into_asyncwrite\<close>: \<open>write_ok\<close> says whether the stream takes the bytes; the bytes
  written are returned (what a failed write got through is left out).\<close>

definition save_into_asyncwrite ::
    "'a codec \<Rightarrow> bool \<Rightarrow> 'a serializer \<Rightarrow> nat outcome \<times> 'a serializer \<times> bytes" where
  "save_into_asyncwrite cd write_ok s =
     (case take_data s of
        (None, s') \<Rightarrow> (Err (H_Message ''error in save_into_asyncwrite error: {}''), s', [])
      | (Some data, s') \<Rightarrow>
          (case encode_at cd data (ser_buffer s') 4 of
             Ok (Encoded n, buf) \<Rightarrow>
               (let buf' = write_at buf 0 (u32_be (word_of_nat n)); s'' = s'\<lparr>ser_buffer := buf'\<rparr> in
                if write_ok then (Ok (4 + n), set_data s'' data, take (4 + n) buf')
                else (Err H_IO, s'', []))
           | Ok (_, buf) \<Rightarrow>
               (Err (H_Message ''errror in encode_into_slice error: {}''), s'\<lparr>ser_buffer := buf\<rparr>, [])
           | _ \<Rightarrow> (Panic, s', [])))"

section \<open>Decoding\<close>

definition ser_decode :: "'a codec \<Rightarrow> bytes \<Rightarrow> 'a outcome" where
  "ser_decode cd src =
     (case from_slice_of cd src of
        Some (val, _) \<Rightarrow> Ok val
      | None \<Rightarrow> Err (H_Message ''deserialize error: {}''))"

definition get_header :: "bytes \<Rightarrow> nat outcome" where
  "get_header buffer =
     (if length buffer < 4 then Err (H_Message ''the buffer is not valid'')
      else Ok (unat (u32_from_be (take 4 buffer))))"

function decode_frames :: "'a codec \<Rightarrow> bytes \<Rightarrow> nat \<Rightarrow> 'a list \<Rightarrow> 'a list outcome" where
  "decode_frames cd buffer offset vec_ret =
     (if offset < length buffer then
        and_then (get_header (drop offset buffer)) (\<lambda>this_size.
        and_then (slice buffer (offset + 4) (offset + 4 + this_size)) (\<lambda>src.
        and_then (ser_decode cd src) (\<lambda>val.
        decode_frames cd buffer (offset + 4 + this_size) (vec_ret @ [val]))))
      else if offset \<noteq> length buffer
      then Err (H_Message ''error in decode_from_slice_with_header, we may have a invalid data'')
      else Ok vec_ret)"
  by pat_completeness auto
termination
  by (relation "measure (\<lambda>(cd, buffer, offset, acc). length buffer - offset)") auto

declare decode_frames.simps [simp del]

definition decode_from_slice_with_header :: "'a codec \<Rightarrow> bytes \<Rightarrow> 'a list outcome" where
  "decode_from_slice_with_header cd buffer = decode_frames cd buffer 0 []"

text \<open>\<open>read_all_from_stream\<close>: a read fills a prefix of the temporary buffer and returns its
  length; an error or an empty read ends the loop. The reads are given as the pieces the stream
  hands out, each at most as long as the temporary buffer it is offered.\<close>

fun read_all_loop :: "bytes list \<Rightarrow> nat \<Rightarrow> nat \<Rightarrow> bytes \<Rightarrow> bytes \<Rightarrow> nat outcome \<times> bytes" where
  "read_all_loop [] total_size resize_time tmper buffer = (Ok total_size, buffer)"
| "read_all_loop (piece # rest) total_size resize_time tmper buffer =
     (let nread = length piece; tmper = write_at tmper 0 piece; buffer_len = length buffer in
      if nread = 0 then (Ok total_size, buffer)
      else if buffer_len > total_size + nread then
        let buffer = write_at buffer total_size (take nread tmper) in
        read_all_loop rest (total_size + nread) resize_time tmper (buffer @ take nread tmper)
      else if buffer_len < total_size + nread then
        let buffer = buffer @ tmper in
        (case copy_into buffer total_size (total_size + nread) (take nread tmper) of
           Ok buffer \<Rightarrow>
             let tmper = vec_resize tmper (BUFFER_SIZE * (resize_time + 1) * resize_time) 0 in
             (case slice tmper 0 nread of
                Ok src \<Rightarrow> read_all_loop rest (total_size + nread) (resize_time + 1) tmper (buffer @ src)
              | _ \<Rightarrow> (Panic, buffer))
         | _ \<Rightarrow> (Panic, buffer))
      else read_all_loop rest (total_size + nread) resize_time tmper (buffer @ take nread tmper))"

definition read_all_from_stream :: "bytes list \<Rightarrow> bytes \<Rightarrow> nat outcome \<times> bytes" where
  "read_all_from_stream pieces buffer = read_all_loop pieces 0 0 (replicate BUFFER_SIZE 0) buffer"

definition decode_from_asyncread ::
    "'a codec \<Rightarrow> bytes list \<Rightarrow> 'a serializer \<Rightarrow> 'a list outcome \<times> 'a serializer" where
  "decode_from_asyncread cd pieces s =
     (case read_all_from_stream pieces (ser_buffer s) of
        (r, buffer) \<Rightarrow>
          (and_then r (\<lambda>nread.
           and_then (slice buffer 0 nread) (\<lambda>src. decode_from_slice_with_header cd src)),
           s\<lparr>ser_buffer := buffer\<rparr>))"

text \<open>\<open>size_to_align\<close>: a division by zero panics.\<close>

definition size_to_align :: "nat \<Rightarrow> nat \<Rightarrow> nat outcome" where
  "size_to_align len align =
     (if align = 0 then Panic
      else let quotient = len div align; remainder = len mod align in
           if remainder = 0 then Ok (quotient * align) else Ok (quotient * align + align))"

end
