(* ===== verification/ProtocolDefs.thy ===== *)
theory ProtocolDefs imports ChainDefs Identity SerializerDefs begin

text \<open>
  \<open>src/network/protocol.rs\<close> (headers, payloads, messages) and the message functions of
  \<open>src/network/udp.rs\<close>. bincode is a parameter: \<open>mc\<close> encodes messages, \<open>header_codec\<close> the three
  fields of a header. A stream is the bytes that are left to read; a datagram is a byte string.
\<close>

section \<open>Headers\<close>

record header_codec =
  hc_u32 :: "u32 codec"
  hc_signature :: "bytes codec"
  hc_key :: "bytes codec"

record header =
  hd_msg_length :: u32
  hd_signature :: bytes
  hd_public_key :: hash

definition header_new :: "u32 \<Rightarrow> bytes \<Rightarrow> hash \<Rightarrow> header" where
  "header_new msg_length signature public_key =
     \<lparr>hd_msg_length = msg_length, hd_signature = signature, hd_public_key = public_key\<rparr>"

definition header_size :: nat where
  "header_size = 100"

text \<open>\<open>bincode::encode_into_slice(v, &mut dst[a..b], config)\<close> with the error mapped, and the
  decoding of a sub-slice.\<close>

definition encode_field ::
    "'a codec \<Rightarrow> herror \<Rightarrow> 'a \<Rightarrow> bytes \<Rightarrow> nat \<Rightarrow> nat \<Rightarrow> nat outcome \<times> bytes" where
  "encode_field cd e v dst a b =
     (if a \<le> b \<and> b \<le> length dst
      then case into_slice_of cd v (take (b - a) (drop a dst)) of (r, mid) \<Rightarrow>
             (case r of Encoded n \<Rightarrow> Ok n | _ \<Rightarrow> Err e, take a dst @ mid @ drop b dst)
      else (Panic, dst))"

definition decode_field :: "'a codec \<Rightarrow> herror \<Rightarrow> bytes \<Rightarrow> nat \<Rightarrow> nat \<Rightarrow> 'a outcome" where
  "decode_field cd e data a b =
     and_then (slice data a b) (\<lambda>s.
       case from_slice_of cd s of Some (v, _) \<Rightarrow> Ok v | None \<Rightarrow> Err e)"

definition header_encode :: "header_codec \<Rightarrow> header \<Rightarrow> bytes \<Rightarrow> nat outcome \<times> bytes" where
  "header_encode hc h buffer =
     (let e = H_Protocol ''encode error in header'' in
      if length buffer < 100
      then (Err (H_Protocol ''in header encode_into_slice, buffer size is too small: {}''), buffer)
      else case encode_field (hc_u32 hc) e (hd_msg_length h) buffer 0 4 of
        (Ok n1, buffer) \<Rightarrow>
          (case encode_field (hc_signature hc) e (hd_signature h) buffer 4 68 of
             (Ok n2, buffer) \<Rightarrow>
               (case encode_field (hc_key hc) e (hd_public_key h) buffer 68 100 of
                  (Ok n3, buffer) \<Rightarrow> (Ok (n1 + n2 + n3), buffer)
                | (r, buffer) \<Rightarrow> (r, buffer))
           | (r, buffer) \<Rightarrow> (r, buffer))
      | (r, buffer) \<Rightarrow> (r, buffer))"

definition header_decode :: "header_codec \<Rightarrow> bytes \<Rightarrow> header outcome" where
  "header_decode hc data =
     (let e = H_Protocol ''decode error in header'' in
      if length data < 100 then Err (H_Protocol ''header too small'')
      else and_then (decode_field (hc_u32 hc) e data 0 4) (\<lambda>msg_length.
           and_then (decode_field (hc_signature hc) e data 4 68) (\<lambda>signature.
           and_then (decode_field (hc_key hc) e data 68 100) (\<lambda>public_key.
           Ok (header_new msg_length signature public_key)))))"

text \<open>\<open>read_exact\<close> of \<open>n\<close> bytes: what it reads and what is left.\<close>

definition read_exact :: "nat \<Rightarrow> bytes \<Rightarrow> (bytes \<times> bytes) outcome" where
  "read_exact n stream = (if n \<le> length stream then Ok (take n stream, drop n stream) else Err H_IO)"

definition header_from_stream :: "header_codec \<Rightarrow> bytes \<Rightarrow> (header \<times> bytes) outcome" where
  "header_from_stream hc stream =
     and_then (read_exact 100 stream) (\<lambda>(header_enc, rest).
     and_then (header_decode hc header_enc) (\<lambda>h. Ok (h, rest)))"

definition header_into_stream :: "header_codec \<Rightarrow> header \<Rightarrow> bytes outcome" where
  "header_into_stream hc h =
     (case header_encode hc h (replicate 100 0) of
        (r, header_enc) \<Rightarrow> and_then r (\<lambda>n. slice header_enc 0 n))"

text \<open>\<open>Header::caculate_encode_size\<close>: \<open>size_writer\<close> is how many bytes bincode's \<open>SizeWriter\<close> has counted
  after the encoding of a slice, which may have failed.\<close>

definition caculate_encode_size :: "(bytes \<Rightarrow> nat) \<Rightarrow> header \<Rightarrow> bytes \<Rightarrow> nat outcome" where
  "caculate_encode_size size_writer h data = (let bytes_written = size_writer data in Ok bytes_written)"

definition verify_header :: "'sk sig_scheme \<Rightarrow> header \<Rightarrow> bytes \<Rightarrow> unit outcome" where
  "verify_header S h data = verify_signature_bytes S data (hd_public_key h) (hd_signature h)"

section \<open>Messages\<close>

record request_info =
  ri_src_addr :: string
  ri_timestamp :: u64

record block_rec =
  br_old_block :: hash
  br_new_block :: hash

datatype payload =
    ChainRequest request_info
  | VoteBlock "vote_block block_chain"
  | BlockRecitify block_rec
  | SearchFriend hash
  | EmptyPayload
  | Introduce
  | IntroduceResp node_info

record message =
  ms_sender :: hash
  ms_timestamp :: u64
  ms_payload :: payload
  ms_receiver :: hash

definition message_new :: "u64 \<Rightarrow> hash \<Rightarrow> hash \<Rightarrow> payload \<Rightarrow> message" where
  "message_new now sender receiver payload =
     \<lparr>ms_sender = sender, ms_timestamp = now, ms_payload = payload, ms_receiver = receiver\<rparr>"

definition message_new_with_zero :: message where
  "message_new_with_zero =
     \<lparr>ms_sender = ZERO_HASH, ms_timestamp = 0, ms_payload = EmptyPayload, ms_receiver = ZERO_HASH\<rparr>"

definition payload_from :: "message \<Rightarrow> payload" where
  "payload_from msg = ms_payload msg"

definition decode_with_header ::
    "message codec \<Rightarrow> 'sk sig_scheme \<Rightarrow> hash \<Rightarrow> bytes \<Rightarrow> header \<Rightarrow> message outcome" where
  "decode_with_header mc S my_name bs h =
     (case verify_header S h bs of
        Ok _ \<Rightarrow>
          (case from_slice_of mc bs of
             None \<Rightarrow> Err (H_Protocol ''decode error in message'')
           | Some (msg, _) \<Rightarrow>
               if ms_sender msg \<noteq> hd_public_key h
               then Err (H_Protocol ''sender's name in message is not equal to the sender's name in header, this message is not valid'')
               else if ms_receiver msg \<noteq> my_name
               then Err (H_Protocol ''receiver's name in message is not equal to the name of the node, it means the message is not for this node'')
               else Ok msg)
      | Err _ \<Rightarrow> Err (H_Protocol ''verify error in message: {}'')
      | Panic \<Rightarrow> Panic | Undefined \<Rightarrow> Undefined | Diverge \<Rightarrow> Diverge)"

definition message_decode ::
    "header_codec \<Rightarrow> message codec \<Rightarrow> 'sk sig_scheme \<Rightarrow> hash \<Rightarrow> bytes \<Rightarrow> message outcome" where
  "message_decode hc mc S my_name bs =
     (if length bs < header_size
      then Err (H_Protocol ''header size is too small, it can not be valid'')
      else and_then (slice bs 0 header_size) (\<lambda>hb.
           and_then (header_decode hc hb) (\<lambda>h.
           let msg_byte_size = unat (hd_msg_length h) in
           if length bs < msg_byte_size + header_size
           then Err (H_Protocol ''message size is too small, it can not be valid'')
           else let end_index = header_size + msg_byte_size in
                and_then (slice bs header_size end_index) (\<lambda>body.
                decode_with_header mc S my_name body h))))"

text \<open>The end of both encoders: put the header over the first 100 bytes of the buffer.\<close>

definition put_header :: "header_codec \<Rightarrow> header \<Rightarrow> bytes \<Rightarrow> nat outcome \<times> bytes" where
  "put_header hc h buffer =
     (if 100 \<le> length buffer
      then case header_encode hc h (take 100 buffer) of (r, front) \<Rightarrow> (r, front @ drop 100 buffer)
      else (Panic, buffer))"

text \<open>\<open>Message::encode_into_slice\<close> with an identity, and \<open>Message::encode\<close> with a sign handle.\<close>

definition encode_into_slice ::
    "header_codec \<Rightarrow> message codec \<Rightarrow> 'sk sig_scheme \<Rightarrow> 'sk identity \<Rightarrow> message \<Rightarrow> bytes \<Rightarrow>
     nat outcome \<times> bytes" where
  "encode_into_slice hc mc S idn msg buffer =
     (if length buffer < MAX_UDP_MSG_SIZE then (Err (H_Protocol ''buffer size is too small''), buffer)
      else case encode_field mc (H_Protocol ''encode error in message'') msg buffer 100 (length buffer) of
        (Ok n, buffer) \<Rightarrow>
          (let total_size = n + 100 in
           if total_size > MAX_UDP_MSG_SIZE
           then (Err (H_Protocol ''message too large, It's bigger than MAX_MSG_SIZE''), buffer)
           else case slice buffer 100 total_size of
             Ok body \<Rightarrow>
               (case sign_msg S idn body of
                  Ok signature \<Rightarrow>
                    (case put_header hc (header_new (word_of_nat n) signature (public_key_to_bytes idn)) buffer of
                       (Ok _, buffer) \<Rightarrow> (Ok n, buffer)
                     | (r, buffer) \<Rightarrow> (r, buffer))
                | _ \<Rightarrow> (Panic, buffer))
           | _ \<Rightarrow> (Panic, buffer))
      | (r, buffer) \<Rightarrow> (r, buffer))"

definition message_encode ::
    "header_codec \<Rightarrow> message codec \<Rightarrow> 'sk sig_scheme \<Rightarrow> 'sk sign_handle \<Rightarrow> message \<Rightarrow> bytes \<Rightarrow>
     nat outcome \<times> bytes" where
  "message_encode hc mc S sh msg buffer =
     (if length buffer < MAX_UDP_MSG_SIZE then (Err (H_Protocol ''buffer size is too small''), buffer)
      else case encode_field mc (H_Protocol ''encode error in message'') msg buffer 100 (length buffer) of
        (Ok n, buffer) \<Rightarrow>
          (let total_size = n + 100 in
           if total_size > MAX_UDP_MSG_SIZE
           then (Err (H_Protocol ''message too large, It's bigger than MAX_MSG_SIZE''), buffer)
           else case slice buffer 100 total_size of
             Ok body \<Rightarrow>
               (case handle_sign S sh body of
                  Ok signature \<Rightarrow>
                    (case put_header hc (header_new (word_of_nat n) signature (sh_public_key_bytes sh)) buffer of
                       (Ok _, buffer) \<Rightarrow> (Ok total_size, buffer)
                     | (r, buffer) \<Rightarrow> (r, buffer))
                | Err e \<Rightarrow> (Err e, buffer)
                | _ \<Rightarrow> (Panic, buffer))
           | _ \<Rightarrow> (Panic, buffer))
      | (r, buffer) \<Rightarrow> (r, buffer))"

text \<open>\<open>Message::into_stream\<close>: \<open>junk\<close> is the uninitialised vector; the result is what is written.
  \<open>Message::from_stream\<close> returns the message and the rest of the stream.\<close>

definition message_into_stream ::
    "header_codec \<Rightarrow> message codec \<Rightarrow> 'sk sig_scheme \<Rightarrow> bytes \<Rightarrow> 'sk identity \<Rightarrow> message \<Rightarrow> bytes outcome" where
  "message_into_stream hc mc S junk idn msg =
     (case encode_into_slice hc mc S idn msg junk of
        (r, buf) \<Rightarrow> and_then r (\<lambda>n. slice buf 0 n))"

definition message_from_stream ::
    "header_codec \<Rightarrow> message codec \<Rightarrow> 'sk sig_scheme \<Rightarrow> hash \<Rightarrow> bytes \<Rightarrow> (message \<times> bytes) outcome" where
  "message_from_stream hc mc S my_name stream =
     and_then (header_from_stream hc stream) (\<lambda>(h, rest).
     and_then (read_exact (unat (hd_msg_length h)) rest) (\<lambda>(body, rest).
     and_then (decode_with_header mc S my_name body h) (\<lambda>msg. Ok (msg, rest))))"

section \<open>Datagrams\<close>

text \<open>What the socket answers to \<open>recv_from\<close> under the timeout: at most a buffer's worth of bytes.\<close>

datatype recv_answer = TimedOut | RecvFailed | Datagram bytes socket_addr

definition udp_recv_from ::
    "header_codec \<Rightarrow> message codec \<Rightarrow> 'sk sig_scheme \<Rightarrow> hash \<Rightarrow> bool \<Rightarrow> recv_answer \<Rightarrow>
     (message \<times> socket_addr) outcome" where
  "udp_recv_from hc mc S my_name bound answer =
     (if \<not> bound then Err H_IO
      else case answer of
        TimedOut \<Rightarrow> Err (H_NetWork ''udp_recv_from: timeout'')
      | RecvFailed \<Rightarrow> Err (H_NetWork ''udp_recv_from: failed'')
      | Datagram bs src_addr \<Rightarrow>
          and_then (message_decode hc mc S my_name (take MAX_UDP_MSG_SIZE bs)) (\<lambda>msg. Ok (msg, src_addr)))"

text \<open>\<open>udp_send_to\<close>: the size it reports and the datagram it sends.\<close>

definition udp_send_to ::
    "header_codec \<Rightarrow> message codec \<Rightarrow> 'sk sig_scheme \<Rightarrow> bool \<Rightarrow> message \<Rightarrow> 'sk sign_handle \<Rightarrow>
     (nat \<times> bytes) outcome" where
  "udp_send_to hc mc S bound msg sh =
     (case message_encode hc mc S sh msg (replicate MAX_UDP_MSG_SIZE 0) of
        (r, buffer) \<Rightarrow>
          and_then r (\<lambda>n.
          let total_size = n + header_size in
          if \<not> bound then Err H_IO
          else and_then (slice buffer 0 total_size) (\<lambda>datagram. Ok (total_size, datagram))))"

text \<open>The local address the socket of a check is bound to.\<close>

definition UDP_CHECK_PORT :: nat where "UDP_CHECK_PORT = 7070"

definition check_bind_addr :: socket_addr where "check_bind_addr = ([0, 0, 0, 0], UDP_CHECK_PORT)"

text \<open>\<open>sent\<close> says that the socket was bound there and took the message.\<close>

definition check_addr_available ::
    "header_codec \<Rightarrow> message codec \<Rightarrow> 'sk sig_scheme \<Rightarrow> hash \<Rightarrow> socket_addr \<Rightarrow> bool \<Rightarrow> recv_answer \<Rightarrow>
     socket_addr outcome" where
  "check_addr_available hc mc S my_name addr sent answer =
     (if \<not> sent then Err H_IO
      else case answer of
        TimedOut \<Rightarrow> Err (H_NetWork ''check_addr_available: timeout: {}'')
      | RecvFailed \<Rightarrow> Err H_IO
      | Datagram bs dst_addr \<Rightarrow>
          if fst dst_addr \<noteq> fst addr then Err (H_NetWork ''check_addr_available: failed'')
          else and_then (message_decode hc mc S my_name (take MAX_UDP_MSG_SIZE bs)) (\<lambda>msg.
               if ms_payload msg \<noteq> EmptyPayload then Err (H_NetWork ''check_addr_available: failed'')
               else Ok addr))"

fun filter_ok :: "'a outcome list \<Rightarrow> 'a list" where
  "filter_ok [] = []"
| "filter_ok (r # rs) = (case r of Ok x \<Rightarrow> x # filter_ok rs | _ \<Rightarrow> filter_ok rs)"

text \<open>\<open>check_addresses_available\<close>: \<open>net addr\<close> is what the network does for one address.\<close>

definition check_addresses_available ::
    "header_codec \<Rightarrow> message codec \<Rightarrow> 'sk sig_scheme \<Rightarrow> u64 \<Rightarrow> (socket_addr \<Rightarrow> bool \<times> recv_answer) \<Rightarrow>
     socket_addr list \<Rightarrow> hash \<Rightarrow> 'sk sign_handle \<Rightarrow> socket_addr list outcome" where
  "check_addresses_available hc mc S now net addr_list receiver sh =
     (if addr_list = [] then Err (H_NetWork ''upd_connection error: have no addr_list'')
      else let my_name = sh_public_key_bytes sh;
               test_msg = message_new now my_name receiver EmptyPayload in
           case message_encode hc mc S sh test_msg (replicate MAX_MSG_SIZE 0) of
             (r, buffer) \<Rightarrow>
               and_then r (\<lambda>total_len.
               Ok (filter_ok (map (\<lambda>addr. case net addr of (sent, answer) \<Rightarrow>
                     check_addr_available hc mc S my_name addr sent answer) addr_list))))"

text \<open>\<open>socket_wrapper::udp_send_to\<close>: \<open>sent\<close> is the socket's answer.\<close>

definition wrapper_udp_send_to :: "nat option \<Rightarrow> bytes \<Rightarrow> nat outcome" where
  "wrapper_udp_send_to sent msg_bytes =
     (if length msg_bytes > MAX_UDP_MSG_SIZE then Err (H_NetWork ''send_to: msg_bytes is too large'')
      else case sent of None \<Rightarrow> Err H_IO | Some n \<Rightarrow> Ok n)"

end
