(* ===== verification/Serializer.thy ===== *)
theory Serializer imports SerializerDefs begin

text \<open>
  What the serializer promises. A value travels as a \<open>frame\<close>: its encoded length as four
  big-endian bytes, then its encoded bytes. \<open>codes\<close> is what bincode documents of a value: encoding into a
  slice writes the encoded bytes when they fit and reports \<open>UnexpectedEnd\<close> when they do not (the
  rest of the slice keeps its length), and decoding reads them back whatever follows.
\<close>

definition codes :: "'a codec \<Rightarrow> ('a \<Rightarrow> bytes) \<Rightarrow> 'a \<Rightarrow> bool" where
  "codes cd enc v \<longleftrightarrow>
     (\<forall>dst. length (snd (into_slice_of cd v dst)) = length dst \<and>
        fst (into_slice_of cd v dst) =
          (if length (enc v) \<le> length dst then Encoded (length (enc v)) else UnexpectedEnd) \<and>
        (length (enc v) \<le> length dst \<longrightarrow> take (length (enc v)) (snd (into_slice_of cd v dst)) = enc v)) \<and>
     (\<forall>rest. from_slice_of cd (enc v @ rest) = Some (v, length (enc v)))"

text \<open>For the values of a type: \<open>W\<close> says which values of the model are values of the Rust type (the
  fixed widths of its arrays).\<close>

definition codec_ok_on :: "('a \<Rightarrow> bool) \<Rightarrow> 'a codec \<Rightarrow> ('a \<Rightarrow> bytes) \<Rightarrow> bool" where
  "codec_ok_on W cd enc \<longleftrightarrow> (\<forall>v. W v \<longrightarrow> codes cd enc v)"

definition frame :: "('a \<Rightarrow> bytes) \<Rightarrow> 'a \<Rightarrow> bytes" where
  "frame enc v = u32_be (word_of_nat (length (enc v))) @ enc v"

definition frames :: "('a \<Rightarrow> bytes) \<Rightarrow> 'a list \<Rightarrow> bytes" where
  "frames enc vs = concat (map (frame enc) vs)"

lemma frames_simps [simp]:
  "frames enc [] = []" "frames enc (v # vs) = frame enc v @ frames enc vs"
  "frames enc (vs @ ws) = frames enc vs @ frames enc ws"
  by (simp_all add: frames_def)

lemma length_frame [simp]: "length (frame enc v) = 4 + length (enc v)"
  by (simp add: frame_def)

lemma BIG_pos: "BIGGEST_BUFFER_SIZE = 134217728"
  by (simp add: BIGGEST_BUFFER_SIZE_def BUFFER_SIZE_def)

section \<open>Encoding\<close>

lemma codes_fits:
  assumes "codes cd enc v" and "length (enc v) \<le> length dst"
  shows "\<exists>dst'. into_slice_of cd v dst = (Encoded (length (enc v)), dst') \<and> length dst' = length dst \<and>
    take (length (enc v)) dst' = enc v"
  using assms unfolding codes_def by (metis prod.collapse)

lemma encode_at_fits:
  assumes "codes cd enc v" and "off + length (enc v) \<le> length dst"
  shows "\<exists>dst'. encode_at cd v dst off = Ok (Encoded (length (enc v)), dst') \<and>
    length dst' = length dst \<and> take off dst' = take off dst \<and> take (length (enc v)) (drop off dst') = enc v"
proof -
  have "fst (into_slice_of cd v (drop off dst)) = Encoded (length (enc v))"
    and "length (snd (into_slice_of cd v (drop off dst))) = length dst - off"
    and "take (length (enc v)) (snd (into_slice_of cd v (drop off dst))) = enc v"
    using assms by (auto simp: codes_def)
  with assms(2) show ?thesis
    by (cases "into_slice_of cd v (drop off dst)") (auto simp: encode_at_def)
qed

lemma encode_at_short:
  assumes "codes cd enc v" and "off \<le> length dst" and "length dst < off + length (enc v)"
  shows "\<exists>dst'. encode_at cd v dst off = Ok (UnexpectedEnd, dst') \<and>
    length dst' = length dst \<and> take off dst' = take off dst"
proof -
  have "fst (into_slice_of cd v (drop off dst)) = UnexpectedEnd"
    and "length (snd (into_slice_of cd v (drop off dst))) = length dst - off"
    using assms by (auto simp: codes_def)
  with assms(2) show ?thesis
    by (cases "into_slice_of cd v (drop off dst)") (auto simp: encode_at_def)
qed

lemma encode_at_Panic: "length dst < off \<Longrightarrow> encode_at cd v dst off = Panic"
  by (simp add: encode_at_def)

text \<open>The size header goes over the four bytes before the encoded value.\<close>

lemma write_header:
  assumes "off + 4 + length bs \<le> length dst" and "take (length bs) (drop (off + 4) dst) = bs"
  shows "take (off + 4 + length bs) (write_at dst off (u32_be n)) = take off dst @ u32_be n @ bs"
  using assms by (simp add: write_at_def take_add)

text \<open>Doubling a buffer of \<open>len\<close> bytes makes room for \<open>need\<close> before it exceeds the bound.\<close>

definition doubling_fits :: "nat \<Rightarrow> nat \<Rightarrow> bool" where
  "doubling_fits len need \<longleftrightarrow>
     need \<le> len \<or> (\<exists>k. need \<le> len * 2 ^ k \<and> len * 2 ^ k \<le> BIGGEST_BUFFER_SIZE)"

lemma doubling_fits_step:
  assumes "\<not> need \<le> len"
  shows "doubling_fits len need \<longleftrightarrow> len * 2 \<le> BIGGEST_BUFFER_SIZE \<and> doubling_fits (len * 2) need"
proof
  assume "doubling_fits len need"
  with assms obtain k where k: "need \<le> len * 2 ^ k" "len * 2 ^ k \<le> BIGGEST_BUFFER_SIZE"
    by (auto simp: doubling_fits_def)
  with assms obtain j where j: "k = Suc j" by (cases k) auto
  have "len * 2 \<le> len * 2 ^ k" by (simp add: j)
  with k(2) have "len * 2 \<le> BIGGEST_BUFFER_SIZE" by linarith
  with k show "len * 2 \<le> BIGGEST_BUFFER_SIZE \<and> doubling_fits (len * 2) need"
    by (auto simp: doubling_fits_def j mult.assoc)
next
  assume *: "len * 2 \<le> BIGGEST_BUFFER_SIZE \<and> doubling_fits (len * 2) need"
  then consider "need \<le> len * 2 ^ 1" "len * 2 ^ 1 \<le> BIGGEST_BUFFER_SIZE"
    | k where "need \<le> len * 2 ^ Suc k" "len * 2 ^ Suc k \<le> BIGGEST_BUFFER_SIZE"
    by (auto simp: doubling_fits_def mult.assoc)
  then show "doubling_fits len need"
    by cases (unfold doubling_fits_def, blast+)
qed

lemma header_loop_result:
  assumes "codes cd enc v" and "4 \<le> length dst"
  shows "\<exists>dst'. header_loop cd v (length dst) dst =
      Some (if doubling_fits (length dst) (4 + length (enc v)) then Ok (4 + length (enc v))
            else Err (H_Message ''the buffer is too big to use a lot of memory, size: {}''), dst') \<and>
    (doubling_fits (length dst) (4 + length (enc v)) \<longrightarrow>
       4 + length (enc v) \<le> length dst' \<and> take (4 + length (enc v)) dst' = frame enc v)"
  using assms(2)
proof (induction dst rule: measure_induct_rule [where f = "\<lambda>dst. BIGGEST_BUFFER_SIZE - length dst"])
  case (less dst)
  let ?n = "length (enc v)"
  show ?case
  proof (cases "4 + ?n \<le> length dst")
    case True
    with encode_at_fits [OF assms(1), of 4 dst] obtain dst' where
      d: "encode_at cd v dst 4 = Ok (Encoded ?n, dst')" "length dst' = length dst"
        "take ?n (drop 4 dst') = enc v" by auto
    with True write_header [of 0 "enc v" dst' "word_of_nat ?n"]
    have "take (4 + ?n) (write_at dst' 0 (u32_be (word_of_nat ?n))) = frame enc v"
      by (simp add: frame_def)
    with True d show ?thesis
      by (subst header_loop.simps) (simp add: doubling_fits_def)
  next
    case False
    with encode_at_short [OF assms(1) less.prems] obtain dst' where
      d: "encode_at cd v dst 4 = Ok (UnexpectedEnd, dst')" "length dst' = length dst" by auto
    show ?thesis
    proof (cases "length dst * 2 > BIGGEST_BUFFER_SIZE")
      case True
      with False d show ?thesis
        by (subst header_loop.simps) (simp add: doubling_fits_step)
    next
      case small: False
      let ?r = "vec_resize dst' (length dst * 2) 0"
      have "BIGGEST_BUFFER_SIZE - length ?r < BIGGEST_BUFFER_SIZE - length dst"
        using small less.prems BIG_pos by simp
      from less.IH [OF this] less.prems
      show ?thesis
        using small False d by (subst header_loop.simps) (auto simp: doubling_fits_step Let_def)
    qed
  qed
qed

lemma item_loop_fits:
  assumes "codes cd enc v" and "off + 4 + length (enc v) \<le> length dst"
  shows "\<exists>dst'. item_loop cd v off dst = Some (Ok (off + 4 + length (enc v)), dst') \<and>
    length dst' = length dst \<and> take (off + 4 + length (enc v)) dst' = take off dst @ frame enc v"
proof -
  from encode_at_fits [OF assms] obtain dst' where
    d: "encode_at cd v dst (off + 4) = Ok (Encoded (length (enc v)), dst')" "length dst' = length dst"
      "take (off + 4) dst' = take (off + 4) dst" "take (length (enc v)) (drop (off + 4) dst') = enc v" by auto
  from d(3) have "take off (take (off + 4) dst') = take off (take (off + 4) dst)" by simp
  then have off: "take off dst' = take off dst" by simp
  with assms(2) d write_header [OF _ d(4), of "word_of_nat (length (enc v))"]
  show ?thesis
    by (subst item_loop.simps) (simp add: save_size_header_into_slice_def frame_def)
qed

lemma item_loop_short:
  assumes "codes cd enc v" and "off + 4 \<le> length dst" and "length dst < off + 4 + length (enc v)"
  shows "\<exists>dst'. item_loop cd v off dst = item_loop cd v off dst' \<and> length dst' = BUFFER_SIZE * 2 \<and>
    (length dst \<le> BUFFER_SIZE * 2 \<longrightarrow> take off dst' = take off dst)"
proof -
  from encode_at_short [OF assms] obtain dst' where
    d: "encode_at cd v dst (off + 4) = Ok (UnexpectedEnd, dst')" "length dst' = length dst"
      "take (off + 4) dst' = take (off + 4) dst" by auto
  from d(3) have "take off (take (off + 4) dst') = take off (take (off + 4) dst)" by simp
  then have "take off dst' = take off dst" by simp
  with d assms(2) show ?thesis
    by (subst item_loop.simps) (intro exI [of _ "vec_resize dst' (BUFFER_SIZE * 2) 0"], simp add: mult_2_right)
qed

lemma item_loop_Panic: "length dst < off + 4 \<Longrightarrow> item_loop cd v off dst = Some (Panic, dst)"
  by (subst item_loop.simps) (simp add: encode_at_Panic)

text \<open>A value that does not fit the size the loop always resizes to: it never returns.\<close>

lemma item_loop_hangs:
  assumes "codes cd enc v" and "off + 4 \<le> BUFFER_SIZE * 2" and "BUFFER_SIZE * 2 < off + 4 + length (enc v)"
    and "length dst = BUFFER_SIZE * 2"
  shows "item_loop cd v off dst = None"
proof -
  let ?P = "\<lambda>cd' v' off' dst y. cd' = cd \<longrightarrow> v' = v \<longrightarrow> off' = off \<longrightarrow> length dst \<noteq> BUFFER_SIZE * 2"
  have "?P cd v off dst y" if "item_loop cd v off dst = Some y" for y
  proof (rule item_loop.raw_induct [where P = ?P, OF _ that])
    fix loop :: "'a codec \<Rightarrow> 'a \<Rightarrow> nat \<Rightarrow> bytes \<Rightarrow> (nat outcome \<times> bytes) option"
    fix cd' v' off' dst y
    assume IH: "\<And>cd' v' off' dst y. loop cd' v' off' dst = Some y \<Longrightarrow> ?P cd' v' off' dst y"
      and body: "(case encode_at cd' v' dst (off' + 4) of
        Ok (res, dst') \<Rightarrow>
          (case res of
             UnexpectedEnd \<Rightarrow> loop cd' v' off' (vec_resize dst' (BUFFER_SIZE * (1 + 1) * 1) 0)
           | EncodeFails \<Rightarrow> Some (Err (H_Message ''error in serializer encode_into_vec {}''), dst')
           | Encoded n \<Rightarrow>
               (case save_size_header_into_slice (word_of_nat n) dst' off' of
                  Ok dst'' \<Rightarrow> Some (Ok (off' + 4 + n), dst'')
                | _ \<Rightarrow> Some (Panic, dst')))
      | _ \<Rightarrow> Some (Panic, dst)) = Some y"
    show "?P cd' v' off' dst y"
    proof (intro impI notI)
      assume eq: "cd' = cd" "v' = v" "off' = off" "length dst = BUFFER_SIZE * 2"
      with encode_at_short [OF assms(1), of "off + 4" dst] assms(2,3) obtain dst' where
        "encode_at cd v dst (off + 4) = Ok (UnexpectedEnd, dst')" by auto
      with body eq have "loop cd v off (vec_resize dst' (BUFFER_SIZE * (1 + 1) * 1) 0) = Some y" by simp
      from IH [OF this] show False by simp
    qed
  qed
  with assms(4) show ?thesis by (cases "item_loop cd v off dst") auto
qed

section \<open>Vectors of values\<close>

lemma encode_items_fits:
  assumes "\<forall>v \<in> set vs. codes cd enc v" and "off + length (frames enc vs) \<le> length dst"
  shows "\<exists>dst'. encode_items cd vs off dst = (Ok (off + length (frames enc vs)), dst') \<and>
    length dst' = length dst \<and> take (off + length (frames enc vs)) dst' = take off dst @ frames enc vs"
  using assms
proof (induction vs arbitrary: off dst)
  case Nil
  then show ?case by simp
next
  case (Cons v vs)
  let ?off' = "off + 4 + length (enc v)"
  from Cons.prems have "codes cd enc v" and "?off' \<le> length dst" by simp_all
  from item_loop_fits [OF this] obtain dst' where
    i: "item_loop cd v off dst = Some (Ok ?off', dst')" "length dst' = length dst"
      "take ?off' dst' = take off dst @ frame enc v" by auto
  from Cons.prems i(2) have "\<forall>v \<in> set vs. codes cd enc v"
    and "?off' + length (frames enc vs) \<le> length dst'" by simp_all
  from Cons.IH [OF this] obtain dst'' where
    "encode_items cd vs ?off' dst' = (Ok (?off' + length (frames enc vs)), dst'')"
      "length dst'' = length dst'"
      "take (?off' + length (frames enc vs)) dst'' = take ?off' dst' @ frames enc vs" by auto
  with i show ?case by (simp add: add.assoc)
qed

text \<open>More than the loop's one size holds: no call that gets that far returns a value.\<close>

lemma encode_items_overflow:
  assumes "\<forall>v \<in> set vs. codes cd enc v" and "length dst \<le> BUFFER_SIZE * 2" and "off \<le> length dst"
    and "BUFFER_SIZE * 2 < off + length (frames enc vs)"
  shows "fst (encode_items cd vs off dst) = Diverge \<or> fst (encode_items cd vs off dst) = Panic"
  using assms
proof (induction vs arbitrary: off dst)
  case Nil
  then show ?case by simp
next
  case (Cons v vs)
  let ?off' = "off + 4 + length (enc v)"
  from Cons.prems(1) have v: "codes cd enc v" by simp
  have fits: ?case if "?off' \<le> length d" "length d \<le> BUFFER_SIZE * 2"
    "item_loop cd v off dst = item_loop cd v off d" for d
  proof -
    from item_loop_fits [OF v that(1)] obtain dst' where
      i: "item_loop cd v off d = Some (Ok ?off', dst')" "length dst' = length d" by auto
    have "fst (encode_items cd vs ?off' dst') = Diverge \<or> fst (encode_items cd vs ?off' dst') = Panic"
      by (rule Cons.IH) (use that i Cons.prems in \<open>simp_all add: add.assoc\<close>)
    with that(3) i show ?thesis by simp
  qed
  consider "length dst < off + 4" | "?off' \<le> length dst" | "off + 4 \<le> length dst" "length dst < ?off'"
    by linarith
  then show ?case
  proof cases
    case 1
    then show ?thesis by (simp add: item_loop_Panic)
  next
    case 2
    then show ?thesis using Cons.prems(2) by (intro fits) auto
  next
    case 3
    from item_loop_short [OF v 3] obtain d where
      d: "item_loop cd v off dst = item_loop cd v off d" "length d = BUFFER_SIZE * 2" by auto
    show ?thesis
    proof (cases "?off' \<le> BUFFER_SIZE * 2")
      case True
      with d show ?thesis by (intro fits) auto
    next
      case False
      then have "item_loop cd v off d = None"
        using 3 Cons.prems(2) d(2) by (intro item_loop_hangs [OF v]) auto
      with d(1) show ?thesis by simp
    qed
  qed
qed

section \<open>Decoding\<close>

lemma codec_ok_decode: "codes cd enc v \<Longrightarrow> from_slice_of cd (enc v @ rest) = Some (v, length (enc v))"
  by (simp add: codes_def)

lemma get_header_frame: "length (enc v) \<le> U32_MAX \<Longrightarrow> get_header (frame enc v @ rest) = Ok (length (enc v))"
  by (simp add: get_header_def frame_def unat_of_nat U32_MAX_def)

lemma decode_frames_step:
  assumes "codes cd enc v" and "length (enc v) \<le> U32_MAX"
  shows "decode_frames cd (pre @ frame enc v @ rest) (length pre) acc =
         decode_frames cd ((pre @ frame enc v) @ rest) (length (pre @ frame enc v)) (acc @ [v])"
proof -
  let ?b = "pre @ frame enc v @ rest"
  have h: "get_header (drop (length pre) ?b) = Ok (length (enc v))"
    using get_header_frame [of enc v rest, OF assms(2)] by simp
  have s: "slice ?b (length pre + 4) (length pre + 4 + length (enc v)) = Ok (enc v)"
    by (simp add: slice_def frame_def)
  have d: "ser_decode cd (enc v) = Ok v"
    using codec_ok_decode [OF assms(1), of "[]"] by (simp add: ser_decode_def)
  show ?thesis
    by (subst decode_frames.simps) (use h s d in \<open>simp add: add.assoc\<close>)
qed

lemma decode_frames_all:
  assumes "\<forall>v \<in> set vs. codes cd enc v" and "\<forall>v \<in> set vs. length (enc v) \<le> U32_MAX"
  shows "decode_frames cd (pre @ frames enc vs @ rest) (length pre) acc =
         decode_frames cd (pre @ frames enc vs @ rest) (length (pre @ frames enc vs)) (acc @ vs)"
  using assms
proof (induction vs arbitrary: pre acc)
  case Nil
  then show ?case by simp
next
  case (Cons v vs)
  have "decode_frames cd (pre @ frames enc (v # vs) @ rest) (length pre) acc =
      decode_frames cd ((pre @ frame enc v) @ frames enc vs @ rest) (length (pre @ frame enc v)) (acc @ [v])"
    using decode_frames_step [of cd enc v pre "frames enc vs @ rest" acc] Cons.prems by simp
  with Cons.IH [of "pre @ frame enc v" "acc @ [v]"] Cons.prems show ?case by (simp add: add.assoc)
qed

lemma decode_all:
  assumes "\<forall>v \<in> set vs. codes cd enc v" and "\<forall>v \<in> set vs. length (enc v) \<le> U32_MAX"
  shows "decode_from_slice_with_header cd (frames enc vs) = Ok vs"
  using decode_frames_all [OF assms, of "[]" "[]" "[]"]
  by (simp add: decode_from_slice_with_header_def decode_frames.simps)

lemma decode_never_mismatch:
  "offset \<le> length buffer \<Longrightarrow> decode_frames cd buffer offset acc \<noteq>
     Err (H_Message ''error in decode_from_slice_with_header, we may have a invalid data'')"
proof (induction cd buffer offset acc rule: decode_frames.induct)
  case (1 cd buffer offset acc)
  then show ?case
    by (subst decode_frames.simps)
      (auto simp: and_then_Err get_header_def slice_def ser_decode_def split: if_splits option.splits)
qed

section \<open>Reading a stream\<close>

lemma take_write_tmper [simp]: "take (length p) (write_at tmper 0 p) = p"
  by (simp add: write_at_def)

text \<open>Every iteration also appends what it read, so the buffer stays ahead of the data as long as
  each piece is shorter than the buffer was at the start.\<close>

lemma read_all_loop_small:
  assumes "\<forall>p \<in> set pieces. p \<noteq> [] \<and> length p < n" and "length buffer = n + tot"
  shows "\<exists>buffer'. read_all_loop pieces tot k tmper buffer = (Ok (tot + length (concat pieces)), buffer') \<and>
    length buffer' = n + (tot + length (concat pieces)) \<and>
    take (tot + length (concat pieces)) buffer' = take tot buffer @ concat pieces"
  using assms
proof (induction pieces arbitrary: tot tmper buffer)
  case Nil
  then show ?case by simp
next
  case (Cons p pieces)
  let ?b = "write_at buffer tot p @ p"
  have p: "length p \<noteq> 0" "length p < n" using Cons.prems(1) by auto
  have b: "length ?b = n + (tot + length p)" using Cons.prems(2) p by simp
  have t: "take (tot + length p) ?b = take tot buffer @ p"
    using Cons.prems(2) p take_write_at_prefix [of tot buffer p] by simp
  have "\<forall>q \<in> set pieces. q \<noteq> [] \<and> length q < n" using Cons.prems(1) by simp
  from Cons.IH [OF this b, of "write_at tmper 0 p"] t
  show ?case using p Cons.prems(2) by (auto simp: Let_def add.assoc)
qed

lemma read_all_small:
  assumes "\<forall>p \<in> set pieces. p \<noteq> [] \<and> length p < length buffer"
  shows "\<exists>buffer'. read_all_from_stream pieces buffer = (Ok (length (concat pieces)), buffer') \<and>
    length (concat pieces) \<le> length buffer' \<and> take (length (concat pieces)) buffer' = concat pieces"
  using read_all_loop_small [of pieces "length buffer" buffer 0 0 "replicate BUFFER_SIZE 0"] assms
  by (auto simp: read_all_from_stream_def)

lemma save_writes_frame:
  assumes "codes cd enc v" and "ser_data s = Some v" and "4 + length (enc v) \<le> length (ser_buffer s)"
  shows "\<exists>s'. save_into_asyncwrite cd True s = (Ok (4 + length (enc v)), s', frame enc v) \<and>
    ser_data s' = Some v \<and> length (ser_buffer s') = length (ser_buffer s)"
proof -
  from encode_at_fits [OF assms(1,3)] obtain buf where
    d: "encode_at cd v (ser_buffer s) 4 = Ok (Encoded (length (enc v)), buf)"
      "length buf = length (ser_buffer s)" "take (length (enc v)) (drop 4 buf) = enc v" by auto
  with assms(3) write_header [of 0 "enc v" buf "word_of_nat (length (enc v))"]
  have "take (4 + length (enc v)) (write_at buf 0 (u32_be (word_of_nat (length (enc v))))) = frame enc v"
    by (simp add: frame_def)
  with d assms(2,3) show ?thesis by (simp add: save_into_asyncwrite_def take_data_def set_data_def Let_def)
qed

lemma asyncread_frames:
  assumes "\<forall>v \<in> set vs. codes cd enc v" and "\<forall>v \<in> set vs. length (enc v) \<le> U32_MAX"
    and "concat pieces = frames enc vs" and "\<forall>p \<in> set pieces. p \<noteq> [] \<and> length p < length (ser_buffer s)"
  shows "fst (decode_from_asyncread cd pieces s) = Ok vs"
  using read_all_small [OF assms(4)] decode_all [OF assms(1,2)] assms(3)
  by (auto simp: decode_from_asyncread_def slice_def)

lemma frame_bound_U32: "4 + n \<le> BUFFER_SIZE \<Longrightarrow> n \<le> U32_MAX"
  by (simp add: BUFFER_SIZE_def U32_MAX_def)

section \<open>A sample codec\<close>

text \<open>One byte per value, for the concrete instances.\<close>

definition byte_codec :: "u8 codec" where
  "byte_codec =
     \<lparr>into_slice_of = (\<lambda>v dst. case dst of [] \<Rightarrow> (UnexpectedEnd, []) | _ # ys \<Rightarrow> (Encoded 1, v # ys)),
      from_slice_of = (\<lambda>bs. case bs of [] \<Rightarrow> None | b # _ \<Rightarrow> Some (b, 1))\<rparr>"

lemma byte_codec_ok: "codes byte_codec (\<lambda>v. [v]) v"
  by (auto simp: codes_def byte_codec_def split: list.split)

text \<open>A codec of fixed width.\<close>

definition raw_codec :: "nat \<Rightarrow> ('a \<Rightarrow> bytes) \<Rightarrow> (bytes \<Rightarrow> 'a) \<Rightarrow> 'a codec" where
  "raw_codec n enc dec =
     \<lparr>into_slice_of = (\<lambda>v dst. if length (enc v) \<le> length dst
        then (Encoded (length (enc v)), enc v @ drop (length (enc v)) dst) else (UnexpectedEnd, dst)),
      from_slice_of = (\<lambda>bs. if n \<le> length bs then Some (dec (take n bs), n) else None)\<rparr>"

lemma raw_codec_ok:
  "(\<And>v. W v \<Longrightarrow> length (enc v) = n \<and> dec (enc v) = v) \<Longrightarrow> codec_ok_on W (raw_codec n enc dec) enc"
  by (auto simp: codec_ok_on_def codes_def raw_codec_def)

lemma raw_codec_codes: "length (enc v) = n \<Longrightarrow> dec (enc v) = v \<Longrightarrow> codes (raw_codec n enc dec) enc v"
  by (auto simp: codes_def raw_codec_def)

text \<open>A codec for the values of a list: one byte, the position of the value.\<close>

definition table_enc :: "'a list \<Rightarrow> 'a \<Rightarrow> bytes" where
  "table_enc vs v = [word_of_nat (length (takeWhile (\<lambda>x. x \<noteq> v) vs))]"

definition table_codec :: "'a list \<Rightarrow> 'a codec" where
  "table_codec vs = raw_codec 1 (table_enc vs) (\<lambda>bs. vs ! unat (hd bs))"

lemma length_table_enc [simp]: "length (table_enc vs v) = 1"
  by (simp add: table_enc_def)

lemma table_codec_codes: "v \<in> set vs \<Longrightarrow> length vs \<le> 256 \<Longrightarrow> codes (table_codec vs) (table_enc vs) v"
proof -
  assume v: "v \<in> set vs" "length vs \<le> 256"
  then obtain xs ys where "vs = xs @ v # ys" "v \<notin> set xs" by (meson split_list_first)
  then have "takeWhile (\<lambda>x. x \<noteq> v) vs = xs" by (subst \<open>vs = xs @ v # ys\<close>, subst takeWhile_append2) auto
  moreover have "vs ! length xs = v" using \<open>vs = xs @ v # ys\<close> by simp
  ultimately show ?thesis using v \<open>vs = xs @ v # ys\<close>
    unfolding table_codec_def by (intro raw_codec_codes) (auto simp: table_enc_def unat_of_nat)
qed

text \<open>And a codec whose encodings have a given length.\<close>

definition wide_codec :: "nat \<Rightarrow> unit codec" where
  "wide_codec n =
     \<lparr>into_slice_of = (\<lambda>v dst. if n \<le> length dst then (Encoded n, replicate n 7 @ drop n dst)
                             else (UnexpectedEnd, dst)),
      from_slice_of = (\<lambda>bs. Some ((), n))\<rparr>"

lemma wide_codec_ok: "codes (wide_codec n) (\<lambda>_. replicate n 7) v"
  by (auto simp: codes_def wide_codec_def)

section \<open>Properties\<close>

text \<open>C25: \<open>encode_into_vec_with_header\<close> never loops for ever, whatever vector it is given, on a value that
  bincode encodes: without a value it reports an error; a vector of less than four bytes makes it panic;
  otherwise, if some doubling of the vector that stays within 128 MiB has room for the frame, it writes the
  frame at the front, returns its length and keeps the value, and if none has, it reports an error. When it
  panics or fails the value is gone from the serializer.\<close>

theorem encode_with_header_verdict:
  assumes "\<forall>v. ser_data s = Some v \<longrightarrow> codes cd enc v"
  shows "\<exists>dst'. encode_into_vec_with_header cd s dst =
      (case ser_data s of
         None \<Rightarrow> (Err (H_Message ''error in serializer encode_into_slice error: {}''), s, dst)
       | Some v \<Rightarrow>
           if length dst < 4 then (Panic, s\<lparr>ser_data := None\<rparr>, dst)
           else if doubling_fits (length dst) (4 + length (enc v)) then (Ok (4 + length (enc v)), s, dst')
           else (Err (H_Message ''the buffer is too big to use a lot of memory, size: {}''), s\<lparr>ser_data := None\<rparr>, dst')) \<and>
    (\<forall>v. ser_data s = Some v \<and> 4 \<le> length dst \<and> doubling_fits (length dst) (4 + length (enc v)) \<longrightarrow>
       take (4 + length (enc v)) dst' = frame enc v)"
proof (cases "ser_data s")
  case None
  then have "s\<lparr>ser_data := None\<rparr> = s" by (cases s) simp
  with None show ?thesis by (simp add: encode_into_vec_with_header_def take_data_def)
next
  case (Some v)
  then have c: "codes cd enc v" using assms by blast
  have s: "s\<lparr>ser_data := Some v\<rparr> = s" using Some by (cases s) simp
  show ?thesis
  proof (cases "4 \<le> length dst")
    case True
    from header_loop_result [OF c True] Some s True show ?thesis
      by (auto simp: encode_into_vec_with_header_def take_data_def set_data_def)
  next
    case False
    then have "header_loop cd v (length dst) dst = Some (Panic, dst)"
      by (subst header_loop.simps) (simp add: encode_at_def)
    with False Some show ?thesis by (simp add: encode_into_vec_with_header_def take_data_def)
  qed
qed

lemma sample_frame: "frame (\<lambda>v. [v]) (9 :: u8) = [0, 0, 0, 1, 9]"
  by code_simp

theorem encode_with_header_verdict_witness:
  "\<exists>dst'. encode_into_vec_with_header byte_codec \<lparr>ser_buffer = [], ser_data = Some 9\<rparr> [0, 0, 0, 0] =
     (Ok 5, \<lparr>ser_buffer = [], ser_data = Some 9\<rparr>, dst') \<and> take 5 dst' = [0, 0, 0, 1, 9]"
proof -
  have "doubling_fits (length ([0, 0, 0, 0] :: bytes)) 5"
    unfolding doubling_fits_def using BIG_pos by (intro disjI2 exI [of _ 1]) simp
  with encode_with_header_verdict [of "\<lparr>ser_buffer = [], ser_data = Some 9\<rparr>" byte_codec "\<lambda>v. [v]" "[0, 0, 0, 0]"]
  show ?thesis by (simp add: sample_frame byte_codec_ok)
qed

text \<open>C19: A vector of values whose frames fit the serializer's buffer, each of a length that its four-byte
  header can hold, comes back whole: \<open>encode_vec_into\<close>
  returns the length of the frames and \<open>decode_from_slice_with_header\<close> of that many bytes of the
  buffer returns the values in order.\<close>

theorem encode_vec_roundtrip:
  assumes "\<forall>v \<in> set vs. codes cd enc v" and "length (frames enc vs) \<le> length (ser_buffer s)"
    and "\<forall>v \<in> set vs. length (enc v) \<le> U32_MAX"
  shows "\<exists>s'. encode_vec_into cd s vs = (Ok (length (frames enc vs)), s') \<and>
    decode_from_slice_with_header cd (take (length (frames enc vs)) (ser_buffer s')) = Ok vs"
  using encode_items_fits [OF assms(1), of 0 "ser_buffer s"] assms(2) decode_all [OF assms(1,3)]
  by (auto simp: encode_vec_into_def)

theorem encode_vec_roundtrip_witness:
  "fst (encode_vec_into byte_codec \<lparr>ser_buffer = replicate 10 0, ser_data = None\<rparr> [5, 6]) = Ok 10"
  using encode_vec_roundtrip [of "[5, 6]" byte_codec "\<lambda>v. [v]" "\<lparr>ser_buffer = replicate 10 0, ser_data = None\<rparr>"]
  by (auto simp: U32_MAX_def byte_codec_ok)

text \<open>C32: \<open>encode_vec_into\<close> grows its buffer to one fixed size of 256 KiB: on a serializer whose buffer is
  no larger, values whose frames take more than that never come out, the call either loops for
  ever or panics; a single such value makes it loop if the buffer has the four bytes of its header.\<close>

theorem encode_vec_overflow:
  assumes "\<forall>v \<in> set vs. codes cd enc v" and "length (ser_buffer s) \<le> BUFFER_SIZE * 2"
    and "BUFFER_SIZE * 2 < length (frames enc vs)"
  shows "(fst (encode_vec_into cd s vs) = Diverge \<or> fst (encode_vec_into cd s vs) = Panic) \<and>
    (length vs = 1 \<and> 4 \<le> length (ser_buffer s) \<longrightarrow> fst (encode_vec_into cd s vs) = Diverge)"
proof (intro conjI impI)
  show "fst (encode_vec_into cd s vs) = Diverge \<or> fst (encode_vec_into cd s vs) = Panic"
    using encode_items_overflow [OF assms(1,2), of 0] assms(3)
    by (simp add: encode_vec_into_def case_prod_unfold)
next
  assume *: "length vs = 1 \<and> 4 \<le> length (ser_buffer s)"
  then obtain v where v: "vs = [v]" by (auto simp: length_Suc_conv)
  with assms(1) have c: "codes cd enc v" by simp
  from item_loop_short [OF c, of 0 "ser_buffer s"] * assms v obtain d where
    d: "item_loop cd v 0 (ser_buffer s) = item_loop cd v 0 d" "length d = BUFFER_SIZE * 2" by auto
  then have "item_loop cd v 0 (ser_buffer s) = None"
    using item_loop_hangs [OF c _ _ d(2), of 0] assms(3) v by (simp add: BUFFER_SIZE_def)
  with v show "fst (encode_vec_into cd s vs) = Diverge" by (simp add: encode_vec_into_def)
qed

theorem encode_vec_overflow_witness:
  "fst (encode_vec_into (wide_codec 262144) (serializer_new None) [()]) = Diverge"
  using encode_vec_overflow [of "[()]" "wide_codec 262144" "\<lambda>_. replicate 262144 7" "serializer_new None"]
  by (simp add: wide_codec_ok serializer_new_def BUFFER_SIZE_def)

text \<open>C39: What \<open>decode_from_slice_with_header\<close> does with a damaged tail: after any frames of values that bincode
  encodes, each of a length its header can hold, one to three left-over bytes give an error and a header
  that announces more bytes than are left makes it panic; the error the code has for a mismatched end is
  reported for no input at all.\<close>

theorem decode_damaged_tail:
  assumes "\<forall>v \<in> set vs. codes cd enc v" and "\<forall>v \<in> set vs. length (enc v) \<le> U32_MAX"
  shows "(rest \<noteq> [] \<and> length rest < 4 \<longrightarrow>
      decode_from_slice_with_header cd (frames enc vs @ rest) = Err (H_Message ''the buffer is not valid'')) \<and>
    (length body < unat n \<longrightarrow>
      decode_from_slice_with_header cd (frames enc vs @ u32_be n @ body) = Panic) \<and>
    decode_from_slice_with_header cd buffer \<noteq>
      Err (H_Message ''error in decode_from_slice_with_header, we may have a invalid data'')"
proof (intro conjI impI)
  assume *: "rest \<noteq> [] \<and> length rest < 4"
  then have "decode_frames cd (frames enc vs @ rest) (length (frames enc vs)) vs =
      Err (H_Message ''the buffer is not valid'')"
    by (subst decode_frames.simps) (simp add: get_header_def)
  then show "decode_from_slice_with_header cd (frames enc vs @ rest) = Err (H_Message ''the buffer is not valid'')"
    using decode_frames_all [OF assms, of "[]" rest "[]"] by (simp add: decode_from_slice_with_header_def)
next
  assume *: "length body < unat n"
  then have "decode_frames cd (frames enc vs @ u32_be n @ body) (length (frames enc vs)) vs = Panic"
    by (subst decode_frames.simps) (simp add: get_header_def slice_def)
  then show "decode_from_slice_with_header cd (frames enc vs @ u32_be n @ body) = Panic"
    using decode_frames_all [OF assms, of "[]" "u32_be n @ body" "[]"]
    by (simp add: decode_from_slice_with_header_def)
next
  show "decode_from_slice_with_header cd buffer \<noteq>
      Err (H_Message ''error in decode_from_slice_with_header, we may have a invalid data'')"
    unfolding decode_from_slice_with_header_def by (rule decode_never_mismatch) simp
qed

theorem decode_damaged_tail_witness:
  "decode_from_slice_with_header byte_codec (frames (\<lambda>v. [v]) [9] @ u32_be 2 @ [7]) = Panic \<and>
   decode_from_slice_with_header byte_codec (frames (\<lambda>v. [v]) [9] @ [0, 0]) = Err (H_Message ''the buffer is not valid'')"
proof -
  have "\<forall>v \<in> set [9 :: u8]. codes byte_codec (\<lambda>v. [v]) v" "\<forall>v \<in> set [9 :: u8]. length [v] \<le> U32_MAX"
    by (simp_all add: byte_codec_ok U32_MAX_def)
  from decode_damaged_tail [OF this, of "[0, 0]" "[7]" 2 "[]"]
  show ?thesis by (simp del: frames_simps)
qed

text \<open>C24: Values saved one after another come back in order from a stream that hands its bytes out in any
  pieces, as long as every piece is shorter than the 128 KiB buffer of the reading serializer.\<close>

theorem saved_values_read_back:
  assumes "\<forall>v \<in> set vs. codes cd enc v" and "\<forall>v \<in> set vs. 4 + length (enc v) \<le> BUFFER_SIZE"
    and "concat pieces =
      concat (map (\<lambda>v. snd (snd (save_into_asyncwrite cd True (serializer_new (Some v))))) vs)"
    and "\<forall>p \<in> set pieces. p \<noteq> [] \<and> length p < BUFFER_SIZE"
  shows "fst (decode_from_asyncread cd pieces (serializer_new data)) = Ok vs"
proof -
  have "snd (snd (save_into_asyncwrite cd True (serializer_new (Some v)))) = frame enc v" if "v \<in> set vs" for v
  proof -
    have "4 + length (enc v) \<le> length (ser_buffer (serializer_new (Some v)))"
      and "ser_data (serializer_new (Some v)) = Some v"
      using that assms(2) by (simp_all add: serializer_new_def)
    moreover have "codes cd enc v" using assms(1) that by blast
    ultimately show ?thesis using save_writes_frame [where v = v] by fastforce
  qed
  then have "map (\<lambda>v. snd (snd (save_into_asyncwrite cd True (serializer_new (Some v))))) vs = map (frame enc) vs"
    by (intro map_cong refl)
  then have "concat pieces = frames enc vs" by (simp only: assms(3) frames_def)
  then show ?thesis
    using assms frame_bound_U32 by (intro asyncread_frames) (auto simp: serializer_new_def)
qed

lemma sample_saved:
  "snd (snd (save_into_asyncwrite byte_codec True (serializer_new (Some 9)))) = [0, 0, 0, 1, 9]"
proof -
  have "4 + length ([9] :: bytes) \<le> length (ser_buffer (serializer_new (Some (9 :: u8))))"
    and "ser_data (serializer_new (Some (9 :: u8))) = Some 9"
    by (simp_all add: serializer_new_def BUFFER_SIZE_def)
  from save_writes_frame [OF byte_codec_ok this(2,1)] show ?thesis by (auto simp: sample_frame)
qed

theorem saved_values_read_back_witness:
  "fst (decode_from_asyncread byte_codec [[0, 0], [0, 1, 9]] (serializer_new None)) = Ok [9]"
  using saved_values_read_back [of "[9]" byte_codec "\<lambda>v. [v]" "[[0, 0], [0, 1, 9]]" None]
  by (simp add: sample_saved BUFFER_SIZE_def byte_codec_ok)

text \<open>Where reading a stream goes wrong: a first piece exactly as long as the buffer is counted but
  never copied to its place, so the bytes reported as read are the old buffer, and a longer one
  makes the call panic.\<close>

theorem read_all_large_piece:
  assumes "piece \<noteq> []" and "length piece \<le> BUFFER_SIZE"
  shows "(length piece = length buffer \<longrightarrow>
      fst (read_all_from_stream [piece] buffer) = Ok (length piece) \<and>
      take (length piece) (snd (read_all_from_stream [piece] buffer)) = buffer) \<and>
    (length buffer < length piece \<longrightarrow>
      fst (read_all_from_stream (piece # pieces) buffer) = Panic)"
  using assms
  by (simp add: read_all_from_stream_def Let_def copy_into_def slice_def write_at_def vec_resize_def)

theorem read_all_large_piece_instance:
  "take 2 (snd (read_all_from_stream [[1, 2]] [0, 0])) = [0, 0]"
  using read_all_large_piece [of "[1, 2]" "[0, 0]" "[]"]
  by (simp add: BUFFER_SIZE_def numeral_2_eq_2)

end
