(* ===== verification/Protocol.thy ===== *)
theory Protocol imports ProtocolDefs Serializer begin

text \<open>
  What the message layer promises. A packet is a header of 100 bytes (length, signature, public
  key) and the encoded message; \<open>codec_ok_on\<close> is what bincode documents, for the values of the
  type (the fixed widths of arrays), and \<open>sig_ok\<close> what the signature crate documents.
\<close>

text \<open>Fixed-width integers are four big-endian bytes, arrays of bytes are their bytes.\<close>

definition header_codec_ok :: "header_codec \<Rightarrow> bool" where
  "header_codec_ok hc \<longleftrightarrow>
     codec_ok_on (\<lambda>_. True) (hc_u32 hc) u32_be \<and>
     codec_ok_on (\<lambda>bs. length bs = 64) (hc_signature hc) (\<lambda>bs. bs) \<and>
     codec_ok_on (\<lambda>bs. length bs = 32) (hc_key hc) (\<lambda>bs. bs)"

definition header_bytes :: "header \<Rightarrow> bytes" where
  "header_bytes h = u32_be (hd_msg_length h) @ hd_signature h @ hd_public_key h"

definition header_wf :: "header \<Rightarrow> bool" where
  "header_wf h \<longleftrightarrow> length (hd_signature h) = 64 \<and> length (hd_public_key h) = 32"

lemma length_header_bytes [simp]: "header_wf h \<Longrightarrow> length (header_bytes h) = 100"
  by (simp add: header_bytes_def header_wf_def)

section \<open>Fields\<close>

lemma into_slice_fits:
  assumes "codec_ok_on W cd enc" and "W v" and "length (enc v) \<le> length dst"
  shows "\<exists>dst'. into_slice_of cd v dst = (Encoded (length (enc v)), dst') \<and> length dst' = length dst \<and>
    take (length (enc v)) dst' = enc v"
proof -
  have "codes cd enc v" using assms(1,2) by (simp add: codec_ok_on_def)
  from codes_fits [OF this assms(3)] show ?thesis .
qed

lemma encode_field_fits:
  assumes "codec_ok_on W cd enc" and "W v" and "a + length (enc v) \<le> b" and "b \<le> length dst"
  shows "\<exists>dst'. encode_field cd e v dst a b = (Ok (length (enc v)), dst') \<and> length dst' = length dst \<and>
    take (length (enc v)) (drop a dst') = enc v \<and> take a dst' = take a dst"
proof -
  have "length (enc v) \<le> length (take (b - a) (drop a dst))" using assms(3,4) by simp
  from into_slice_fits [OF assms(1,2) this] show ?thesis
    using assms(3,4) by (auto simp: encode_field_def)
qed

lemma encode_field_exact:
  assumes "codec_ok_on W cd enc" and "W v" and "b = a + length (enc v)" and "b \<le> length dst"
  shows "encode_field cd e v dst a b = (Ok (length (enc v)), take a dst @ enc v @ drop b dst)"
proof -
  have "length (enc v) = length (take (b - a) (drop a dst))" using assms(3,4) by simp
  with into_slice_fits [OF assms(1,2), of "take (b - a) (drop a dst)"]
  have "into_slice_of cd v (take (b - a) (drop a dst)) = (Encoded (length (enc v)), enc v)" by auto
  with assms(3,4) show ?thesis by (simp add: encode_field_def)
qed

lemma decode_field_exact:
  assumes "codec_ok_on W cd enc" and "W v" and "a = length pre" and "b = a + length (enc v)"
  shows "decode_field cd e (pre @ enc v @ rest) a b = Ok v"
proof -
  have "from_slice_of cd (enc v @ []) = Some (v, length (enc v))"
    using assms(1,2) unfolding codec_ok_on_def codes_def by blast
  with assms(3,4) show ?thesis by (simp add: decode_field_def slice_def)
qed

section \<open>Headers\<close>

lemma header_encode_Ok:
  assumes "header_codec_ok hc" and "header_wf h" and "100 \<le> length buffer"
  shows "header_encode hc h buffer = (Ok 100, header_bytes h @ drop 100 buffer)"
proof -
  from assms(1) have c: "codec_ok_on (\<lambda>_. True) (hc_u32 hc) u32_be"
    "codec_ok_on (\<lambda>bs. length bs = 64) (hc_signature hc) (\<lambda>bs. bs)"
    "codec_ok_on (\<lambda>bs. length bs = 32) (hc_key hc) (\<lambda>bs. bs)"
    by (simp_all add: header_codec_ok_def)
  from assms(2) have w: "length (hd_signature h) = 64" "length (hd_public_key h) = 32"
    by (simp_all add: header_wf_def)
  let ?e = "H_Protocol ''encode error in header''"
  let ?b1 = "u32_be (hd_msg_length h) @ drop 4 buffer"
  let ?b2 = "u32_be (hd_msg_length h) @ hd_signature h @ drop 68 buffer"
  have 1: "encode_field (hc_u32 hc) ?e (hd_msg_length h) buffer 0 4 = (Ok 4, ?b1)"
    using encode_field_exact [OF c(1), where v = "hd_msg_length h" and a = 0 and b = 4 and dst = buffer and e = ?e] assms(3) by simp
  have 2: "encode_field (hc_signature hc) ?e (hd_signature h) ?b1 4 68 = (Ok 64, ?b2)"
    using encode_field_exact [OF c(2) w(1), where a = 4 and b = 68 and dst = ?b1 and e = ?e] w assms(3) by simp
  have 3: "encode_field (hc_key hc) ?e (hd_public_key h) ?b2 68 100 = (Ok 32, header_bytes h @ drop 100 buffer)"
    using encode_field_exact [OF c(3) w(2), where a = 68 and b = 100 and dst = ?b2 and e = ?e] w assms(3) by (simp add: header_bytes_def)
  from assms(3) 1 2 3 show ?thesis by (simp add: header_encode_def Let_def)
qed

lemma header_decode_bytes:
  assumes "header_codec_ok hc" and "header_wf h"
  shows "header_decode hc (header_bytes h @ rest) = Ok h"
proof -
  from assms(1) have c: "codec_ok_on (\<lambda>_. True) (hc_u32 hc) u32_be"
    "codec_ok_on (\<lambda>bs. length bs = 64) (hc_signature hc) (\<lambda>bs. bs)"
    "codec_ok_on (\<lambda>bs. length bs = 32) (hc_key hc) (\<lambda>bs. bs)"
    by (simp_all add: header_codec_ok_def)
  from assms(2) have w: "length (hd_signature h) = 64" "length (hd_public_key h) = 32"
    by (simp_all add: header_wf_def)
  let ?d = "header_bytes h @ rest" and ?e = "H_Protocol ''decode error in header''"
  have 1: "decode_field (hc_u32 hc) ?e ?d 0 4 = Ok (hd_msg_length h)"
    using decode_field_exact [OF c(1), where v = "hd_msg_length h" and a = 0 and pre = "[]"] by (simp add: header_bytes_def)
  have 2: "decode_field (hc_signature hc) ?e ?d 4 68 = Ok (hd_signature h)"
    using decode_field_exact [OF c(2) w(1), where a = 4 and pre = "u32_be (hd_msg_length h)" and b = 68] w
    by (simp add: header_bytes_def)
  have 3: "decode_field (hc_key hc) ?e ?d 68 100 = Ok (hd_public_key h)"
    using decode_field_exact [OF c(3) w(2), where a = 68 and pre = "u32_be (hd_msg_length h) @ hd_signature h" and b = 100] w
    by (simp add: header_bytes_def)
  from assms(2) have "100 \<le> length ?d" by simp
  with 1 2 3 show ?thesis by (simp add: header_decode_def header_new_def Let_def)
qed

lemma put_header_Ok:
  assumes "header_codec_ok hc" and "header_wf h" and "100 \<le> length buffer"
  shows "put_header hc h buffer = (Ok 100, header_bytes h @ drop 100 buffer)"
  using header_encode_Ok [OF assms(1,2), of "take 100 buffer"] assms(3) by (simp add: put_header_def)

section \<open>Packets\<close>

definition packet_header :: "'sk sig_scheme \<Rightarrow> 'sk \<Rightarrow> bytes \<Rightarrow> header" where
  "packet_header S sk body = header_new (word_of_nat (length body)) (sg_sign S sk body) (sg_public S sk)"

definition packet :: "'sk sig_scheme \<Rightarrow> 'sk \<Rightarrow> bytes \<Rightarrow> bytes" where
  "packet S sk body = header_bytes (packet_header S sk body) @ body"

lemma packet_header_wf: "sig_ok S \<Longrightarrow> header_wf (packet_header S sk body)"
  by (simp add: packet_header_def header_wf_def header_new_def sig_ok_def)

lemma length_packet [simp]: "sig_ok S \<Longrightarrow> length (packet S sk body) = 100 + length body"
  by (simp add: packet_def packet_header_wf)

lemma packet_header_simps [simp]:
  "hd_msg_length (packet_header S sk body) = word_of_nat (length body)"
  "hd_public_key (packet_header S sk body) = sg_public S sk"
  "hd_signature (packet_header S sk body) = sg_sign S sk body"
  by (simp_all add: packet_header_def header_new_def)

text \<open>The node that holds a secret key, and the handle of its signer task.\<close>

definition handle_of :: "'sk sig_scheme \<Rightarrow> 'sk \<Rightarrow> 'sk sign_handle" where
  "handle_of S sk = \<lparr>sh_public_key_bytes = sg_public S sk, sh_signer = Some (identity_new S sk)\<rparr>"

lemma spawn_handle_of: "spawn_new (identity_new S sk) = Ok (handle_of S sk)"
  by (simp add: spawn_new_def handle_of_def identity_new_def create_keypair_def public_key_to_bytes_def)

lemma handle_of_sign [simp]: "handle_sign S (handle_of S sk) m = Ok (sg_sign S sk m)"
  by (rule handle_sign_spawned [OF spawn_handle_of])

lemma packet_of_parts:
  assumes "header_codec_ok hc" and "sig_ok S" and "100 + n \<le> length buf" and "n = length body"
    and "take n (drop 100 buf) = body"
  shows "\<exists>buf'. put_header hc (packet_header S sk body) buf = (Ok 100, buf') \<and>
    length buf' = length buf \<and> take (100 + n) buf' = packet S sk body"
  using put_header_Ok [OF assms(1) packet_header_wf [OF assms(2)], of buf sk body] assms(3-5)
    packet_header_wf [OF assms(2), of sk body]
  by (simp add: packet_def)

text \<open>The two encoders, when the message fits a datagram.\<close>

lemma body_encoded:
  assumes "codec_ok_on W mc enc" and "W msg" and "100 + length (enc msg) \<le> MAX_UDP_MSG_SIZE"
    and "MAX_UDP_MSG_SIZE \<le> length buffer"
  shows "\<exists>buf. encode_field mc e msg buffer 100 (length buffer) = (Ok (length (enc msg)), buf) \<and>
    length buf = length buffer \<and> take (length (enc msg)) (drop 100 buf) = enc msg \<and>
    slice buf 100 (length (enc msg) + 100) = Ok (enc msg)"
  using encode_field_fits [OF assms(1,2), of 100 "length buffer" buffer e] assms(3,4)
  by (auto simp: slice_def)

lemma message_encode_packet:
  assumes "header_codec_ok hc" and "codec_ok_on W mc enc" and "W msg" and "sig_ok S"
    and "100 + length (enc msg) \<le> MAX_UDP_MSG_SIZE" and "MAX_UDP_MSG_SIZE \<le> length buffer"
  shows "\<exists>buf'. message_encode hc mc S (handle_of S sk) msg buffer = (Ok (100 + length (enc msg)), buf') \<and>
    length buf' = length buffer \<and> take (100 + length (enc msg)) buf' = packet S sk (enc msg)"
proof -
  from body_encoded [OF assms(2,3,5,6)] obtain buf where
    b: "encode_field mc (H_Protocol ''encode error in message'') msg buffer 100 (length buffer) = (Ok (length (enc msg)), buf)"
      "length buf = length buffer" "take (length (enc msg)) (drop 100 buf) = enc msg"
      "slice buf 100 (length (enc msg) + 100) = Ok (enc msg)" by blast
  have "100 + length (enc msg) \<le> length buf" using b(2) assms(5,6) by simp
  from packet_of_parts [OF assms(1,4) this refl b(3), of sk] obtain buf' where
    "put_header hc (packet_header S sk (enc msg)) buf = (Ok 100, buf')"
      "length buf' = length buf" "take (100 + length (enc msg)) buf' = packet S sk (enc msg)" by blast
  moreover have "header_new (word_of_nat (length (enc msg))) (sg_sign S sk (enc msg)) (sh_public_key_bytes (handle_of S sk))
      = packet_header S sk (enc msg)" by (simp add: packet_header_def handle_of_def)
  ultimately show ?thesis
    using b assms(5,6) by (simp add: message_encode_def Let_def)
qed

lemma encode_into_slice_packet:
  assumes "header_codec_ok hc" and "codec_ok_on W mc enc" and "W msg" and "sig_ok S"
    and "100 + length (enc msg) \<le> MAX_UDP_MSG_SIZE" and "MAX_UDP_MSG_SIZE \<le> length buffer"
  shows "\<exists>buf'. encode_into_slice hc mc S (identity_new S sk) msg buffer = (Ok (length (enc msg)), buf') \<and>
    length buf' = length buffer \<and> take (100 + length (enc msg)) buf' = packet S sk (enc msg)"
proof -
  from body_encoded [OF assms(2,3,5,6)] obtain buf where
    b: "encode_field mc (H_Protocol ''encode error in message'') msg buffer 100 (length buffer) = (Ok (length (enc msg)), buf)"
      "length buf = length buffer" "take (length (enc msg)) (drop 100 buf) = enc msg"
      "slice buf 100 (length (enc msg) + 100) = Ok (enc msg)" by blast
  have "100 + length (enc msg) \<le> length buf" using b(2) assms(5,6) by simp
  from packet_of_parts [OF assms(1,4) this refl b(3), of sk] obtain buf' where
    "put_header hc (packet_header S sk (enc msg)) buf = (Ok 100, buf')"
      "length buf' = length buf" "take (100 + length (enc msg)) buf' = packet S sk (enc msg)" by blast
  moreover have "header_new (word_of_nat (length (enc msg))) (sg_sign S sk (enc msg)) (public_key_to_bytes (identity_new S sk))
      = packet_header S sk (enc msg)"
    and "sign_msg S (identity_new S sk) (enc msg) = Ok (sg_sign S sk (enc msg))"
    by (simp_all add: packet_header_def identity_new_def create_keypair_def public_key_to_bytes_def sign_msg_def)
  ultimately show ?thesis
    using b assms(5,6) by (simp add: encode_into_slice_def Let_def)
qed

section \<open>Receiving a packet\<close>

lemma decode_body:
  assumes "codec_ok_on W mc enc" and "W msg" and "sig_ok S"
    and "ms_sender msg = sg_public S sk" and "ms_receiver msg = my_name"
  shows "decode_with_header mc S my_name (enc msg) (packet_header S sk (enc msg)) = Ok msg"
proof -
  have "from_slice_of mc (enc msg @ []) = Some (msg, length (enc msg))"
    using assms(1,2) unfolding codec_ok_on_def codes_def by blast
  with assms(3-5) show ?thesis
    by (simp add: decode_with_header_def verify_header_def verify_signature_bytes_def sig_ok_def)
qed

lemma decode_packet:
  assumes "header_codec_ok hc" and "codec_ok_on W mc enc" and "W msg" and "sig_ok S"
    and "length (enc msg) \<le> U32_MAX" and "ms_sender msg = sg_public S sk" and "ms_receiver msg = my_name"
  shows "message_decode hc mc S my_name (packet S sk (enc msg) @ junk) = Ok msg"
proof -
  let ?h = "packet_header S sk (enc msg)"
  have wf: "header_wf ?h" by (rule packet_header_wf [OF assms(4)])
  have n: "unat (word_of_nat (length (enc msg)) :: u32) = length (enc msg)"
    using assms(5) by (simp add: unat_of_nat U32_MAX_def)
  have "slice (packet S sk (enc msg) @ junk) 0 100 = Ok (header_bytes ?h)"
    using wf by (simp add: slice_def packet_def)
  moreover have "header_decode hc (header_bytes ?h) = Ok ?h"
    using header_decode_bytes [OF assms(1) wf, of "[]"] by simp
  moreover have "slice (packet S sk (enc msg) @ junk) 100 (100 + length (enc msg)) = Ok (enc msg)"
    using wf by (simp add: slice_def packet_def)
  ultimately show ?thesis
    using decode_body [OF assms(2,3,4,6,7)] n assms(4)
    by (simp add: message_decode_def header_size_def Let_def)
qed

section \<open>A sample network\<close>

text \<open>One key pair and one message, for the concrete instances.\<close>

definition sample_hc :: header_codec where
  "sample_hc = \<lparr>hc_u32 = raw_codec 4 u32_be u32_from_be, hc_signature = raw_codec 64 (\<lambda>bs. bs) (\<lambda>bs. bs),
     hc_key = raw_codec 32 (\<lambda>bs. bs) (\<lambda>bs. bs)\<rparr>"

definition sample_sig :: "unit sig_scheme" where
  "sample_sig = \<lparr>sg_public = (\<lambda>_. replicate 32 1), sg_sign = (\<lambda>_ m. replicate 64 2),
     sg_key_ok = (\<lambda>_. True), sg_verify = (\<lambda>_ _ sig. sig = replicate 64 2)\<rparr>"

definition sample_msg :: message where
  "sample_msg = \<lparr>ms_sender = replicate 32 1, ms_timestamp = 5, ms_payload = EmptyPayload,
     ms_receiver = ZERO_HASH\<rparr>"

definition sample_mc :: "message codec" where
  "sample_mc = raw_codec 2 (\<lambda>_. [7, 7]) (\<lambda>_. sample_msg)"

lemma sample_hc_ok: "header_codec_ok sample_hc"
  by (simp add: header_codec_ok_def sample_hc_def raw_codec_ok)

lemma sample_sig_ok: "sig_ok sample_sig"
  by (simp add: sig_ok_def sample_sig_def)

lemma sample_mc_ok: "codec_ok_on (\<lambda>m. m = sample_msg) sample_mc (\<lambda>_. [7, 7])"
  unfolding sample_mc_def by (rule raw_codec_ok) simp

lemma sample_msg_ends:
  "ms_sender sample_msg = sg_public sample_sig ()" "ms_receiver sample_msg = ZERO_HASH"
  by (simp_all add: sample_msg_def sample_sig_def)

lemma sample_fits: "100 + length ([7, 7] :: bytes) \<le> MAX_UDP_MSG_SIZE"
  by (simp add: MAX_UDP_MSG_SIZE_def)

lemmas sample_network = sample_hc_ok sample_mc_ok refl sample_sig_ok sample_fits

lemma small_body: "100 + length bs \<le> MAX_UDP_MSG_SIZE \<Longrightarrow> length bs \<le> U32_MAX"
  by (simp add: MAX_UDP_MSG_SIZE_def U32_MAX_def)

section \<open>Properties\<close>

text \<open>C14: A message that fits a datagram, encoded and signed by its sender, is decoded unchanged by the node
  it is addressed to, from any slice of the buffer that holds the whole packet.\<close>

theorem message_roundtrip:
  assumes "header_codec_ok hc" and "codec_ok_on W mc enc" and "W msg" and "sig_ok S"
    and "100 + length (enc msg) \<le> MAX_UDP_MSG_SIZE"
    and "ms_sender msg = sg_public S sk" and "MAX_UDP_MSG_SIZE \<le> length buffer"
    and "100 + length (enc msg) \<le> k"
  shows "fst (message_encode hc mc S (handle_of S sk) msg buffer) = Ok (100 + length (enc msg)) \<and>
    message_decode hc mc S (ms_receiver msg)
      (take k (snd (message_encode hc mc S (handle_of S sk) msg buffer))) = Ok msg"
proof -
  obtain buf' where b: "message_encode hc mc S (handle_of S sk) msg buffer = (Ok (100 + length (enc msg)), buf')"
    "take (100 + length (enc msg)) buf' = packet S sk (enc msg)"
    using message_encode_packet [OF assms(1-5,7)] by blast
  have "take (100 + length (enc msg)) (take k buf') = packet S sk (enc msg)"
    using b(2) assms(8) by (simp add: min_def)
  then have "take k buf' = packet S sk (enc msg) @ drop (100 + length (enc msg)) (take k buf')"
    by (metis append_take_drop_id)
  then show ?thesis
    using b(1) decode_packet [OF assms(1-4) small_body [OF assms(5)] assms(6) refl] by (metis fst_conv snd_conv)
qed

theorem message_roundtrip_witness:
  "message_decode sample_hc sample_mc sample_sig ZERO_HASH
     (take 102 (snd (message_encode sample_hc sample_mc sample_sig (handle_of sample_sig ()) sample_msg
        (replicate MAX_UDP_MSG_SIZE 0)))) = Ok sample_msg"
  using message_roundtrip [OF sample_network sample_msg_ends(1), of "replicate MAX_UDP_MSG_SIZE 0" 102]
  by (simp add: sample_msg_ends)

text \<open>C15: What a node accepts: a message is returned exactly when the slice holds a readable header and the whole
  body it announces, the signature in the header verifies over the body under the key in the header,
  and the decoded message names that key as its sender and the node as its receiver.\<close>

theorem message_decode_accepts:
  "message_decode hc mc S my_name bs = Ok msg \<longleftrightarrow>
    (\<exists>h n. 100 \<le> length bs \<and> header_decode hc (take 100 bs) = Ok h \<and>
      100 + unat (hd_msg_length h) \<le> length bs \<and> sg_key_ok S (hd_public_key h) \<and>
      sg_verify S (hd_public_key h) (take (unat (hd_msg_length h)) (drop 100 bs)) (hd_signature h) \<and>
      from_slice_of mc (take (unat (hd_msg_length h)) (drop 100 bs)) = Some (msg, n) \<and>
      ms_sender msg = hd_public_key h \<and> ms_receiver msg = my_name)"
proof -
  have d: "decode_with_header mc S my_name body h = Ok msg \<longleftrightarrow>
      (\<exists>n. sg_key_ok S (hd_public_key h) \<and> sg_verify S (hd_public_key h) body (hd_signature h) \<and>
        from_slice_of mc body = Some (msg, n) \<and> ms_sender msg = hd_public_key h \<and> ms_receiver msg = my_name)"
    for body h
    by (auto simp: decode_with_header_def verify_header_def verify_signature_bytes_def split: option.split)
  show ?thesis
    by (cases "header_decode hc (take 100 bs)")
      (auto simp: message_decode_def header_size_def slice_def Let_def d add.commute)
qed

text \<open>Sending a message as a datagram counts the header twice: the datagram is 100 bytes longer than the
  packet, the receiver still decodes it, and a packet of more than 924 bytes, although it passes the
  size check, makes the sender panic.\<close>

theorem udp_send_receive:
  assumes "header_codec_ok hc" and "codec_ok_on W mc enc" and "W msg" and "sig_ok S"
    and "100 + length (enc msg) \<le> MAX_UDP_MSG_SIZE" and "ms_sender msg = sg_public S sk"
  shows "(length (enc msg) + 200 \<le> MAX_UDP_MSG_SIZE \<longrightarrow>
      (\<exists>datagram. udp_send_to hc mc S True msg (handle_of S sk) = Ok (length (enc msg) + 200, datagram) \<and>
         length datagram = length (enc msg) + 200 \<and>
         udp_recv_from hc mc S (ms_receiver msg) True (Datagram datagram addr) = Ok (msg, addr))) \<and>
    (MAX_UDP_MSG_SIZE < length (enc msg) + 200 \<longrightarrow> udp_send_to hc mc S True msg (handle_of S sk) = Panic)"
proof -
  let ?n = "length (enc msg)"
  obtain buf' where b: "message_encode hc mc S (handle_of S sk) msg (replicate MAX_UDP_MSG_SIZE 0) = (Ok (100 + ?n), buf')"
    "length buf' = MAX_UDP_MSG_SIZE" "take (100 + ?n) buf' = packet S sk (enc msg)"
    using message_encode_packet [OF assms(1-5), of "replicate MAX_UDP_MSG_SIZE 0"] by auto
  have "take (100 + ?n) (take (?n + 200) buf') = packet S sk (enc msg)"
    using b(3) by (simp add: min_def)
  then have "take (?n + 200) buf' = packet S sk (enc msg) @ drop (100 + ?n) (take (?n + 200) buf')"
    by (metis append_take_drop_id)
  then have "message_decode hc mc S (ms_receiver msg) (take (?n + 200) buf') = Ok msg"
    using decode_packet [OF assms(1-4) small_body [OF assms(5)] assms(6) refl] by metis
  with b(1,2) show ?thesis
    by (auto simp: udp_send_to_def udp_recv_from_def header_size_def slice_def min_def Let_def add.commute)
qed

theorem udp_send_receive_instance:
  "\<exists>datagram. udp_send_to sample_hc sample_mc sample_sig True sample_msg (handle_of sample_sig ()) = Ok (202, datagram) \<and>
     udp_recv_from sample_hc sample_mc sample_sig ZERO_HASH True (Datagram datagram ([127, 0, 0, 1], 8081)) =
       Ok (sample_msg, ([127, 0, 0, 1], 8081))"
  using udp_send_receive [OF sample_network sample_msg_ends(1), of "([127, 0, 0, 1], 8081)"]
  by (auto simp: sample_msg_ends MAX_UDP_MSG_SIZE_def)

text \<open>C40: A message written with \<open>into_stream\<close> never arrives: only as many bytes as the body has are written, so
  the packet loses its last 100 bytes and \<open>from_stream\<close> on what was written fails with an I/O error.\<close>

theorem stream_truncates_message:
  assumes "header_codec_ok hc" and "codec_ok_on W mc enc" and "W msg" and "sig_ok S"
    and "100 + length (enc msg) \<le> MAX_UDP_MSG_SIZE" and "length junk = MAX_UDP_MSG_SIZE"
  shows "\<exists>written. message_into_stream hc mc S junk (identity_new S sk) msg = Ok written \<and>
    length written = length (enc msg) \<and> message_from_stream hc mc S my_name written = Err H_IO"
proof -
  let ?n = "length (enc msg)" and ?h = "packet_header S sk (enc msg)"
  obtain buf' where b: "encode_into_slice hc mc S (identity_new S sk) msg junk = (Ok ?n, buf')"
    "length buf' = MAX_UDP_MSG_SIZE" "take (100 + ?n) buf' = packet S sk (enc msg)"
    using encode_into_slice_packet [OF assms(1-5), of junk] assms(6) by auto
  have w: "take ?n buf' = take ?n (packet S sk (enc msg))"
    unfolding b(3) [symmetric] by (simp add: min_def)
  have wf: "header_wf ?h" by (rule packet_header_wf [OF assms(4)])
  have "message_from_stream hc mc S my_name (take ?n buf') = Err H_IO"
  proof (cases "100 \<le> ?n")
    case True
    then have "take 100 (take ?n buf') = header_bytes ?h" and "length (drop 100 (take ?n buf')) < ?n"
      using wf b(2) assms(5) by (auto simp: w packet_def min_def)
    then show ?thesis
      using True b(2) assms(5) header_decode_bytes [OF assms(1) wf, of "[]"]
      by (simp add: message_from_stream_def header_from_stream_def read_exact_def unat_of_nat
          MAX_UDP_MSG_SIZE_def)
  next
    case False
    then show ?thesis
      by (simp add: message_from_stream_def header_from_stream_def read_exact_def)
  qed
  moreover have "message_into_stream hc mc S junk (identity_new S sk) msg = Ok (take ?n buf')"
    using b(1,2) assms(5) by (simp add: message_into_stream_def slice_def)
  ultimately show ?thesis using b(2) assms(5) by simp
qed

theorem stream_truncates_message_witness:
  "\<exists>written. message_into_stream sample_hc sample_mc sample_sig (replicate MAX_UDP_MSG_SIZE 0)
       (identity_new sample_sig ()) sample_msg = Ok written \<and>
     message_from_stream sample_hc sample_mc sample_sig ZERO_HASH written = Err H_IO"
  using stream_truncates_message [OF sample_network, of "replicate MAX_UDP_MSG_SIZE 0" "()" ZERO_HASH] by auto

text \<open>A cloned identity keeps its name but cannot sign: signing reports an error, a signer task started on it
  drops every request, so its handle reports one too, and encoding a message with it panics.\<close>

theorem clone_cannot_sign:
  assumes "codec_ok_on W mc enc" and "W msg" and "100 + length (enc msg) \<le> MAX_UDP_MSG_SIZE"
    and "MAX_UDP_MSG_SIZE \<le> length buffer" and "spawn_new (identity_clone idn) = Ok h"
  shows "public_key_to_bytes (identity_clone idn) = public_key_to_bytes idn \<and>
    sign_msg S (identity_clone idn) m = Err (H_Identity ''No secret key'') \<and> is_err (handle_sign S h m) \<and>
    fst (encode_into_slice hc mc S (identity_clone idn) msg buffer) = Panic"
proof -
  obtain buf where
    "encode_field mc (H_Protocol ''encode error in message'') msg buffer 100 (length buffer) = (Ok (length (enc msg)), buf)"
    "slice buf 100 (length (enc msg) + 100) = Ok (enc msg)"
    using body_encoded [OF assms(1-4)] by blast
  moreover have sign: "sign_msg S (identity_clone idn) m = Err (H_Identity ''No secret key'')" for m
    by (simp add: sign_msg_def identity_clone_def)
  ultimately have "fst (encode_into_slice hc mc S (identity_clone idn) msg buffer) = Panic"
    using assms(3,4) by (simp add: encode_into_slice_def Let_def)
  with sign assms(5) show ?thesis
    by (auto simp: spawn_new_def handle_sign_def signer_turn_def public_key_to_bytes_def)
       (simp add: identity_clone_def)
qed

theorem clone_cannot_sign_instance:
  "fst (encode_into_slice sample_hc sample_mc sample_sig (identity_clone (identity_new sample_sig ())) sample_msg
     (replicate MAX_UDP_MSG_SIZE 0)) = Panic"
  using clone_cannot_sign [OF sample_mc_ok refl sample_fits, of "replicate MAX_UDP_MSG_SIZE 0"
      "identity_new sample_sig ()" _ sample_sig "[]" sample_hc]
  by (auto simp: spawn_new_def)

end
