(* ===== verification/ReqResp.thy ===== *)
theory ReqResp imports Prelude "HOL-Library.Multiset" begin

text \<open>
  \<open>src/req_resp.rs\<close>: requests with a one-shot way back and the worker task that serves them. The
  channels of tokio are not modelled: what a channel answers to an operation is an argument (whether
  it took a value, what it hands out), and what an operation does to a channel is part of its result.
  A one-shot channel is the number its two halves share. A task is run on the list of what its
  \<open>select!\<close> yields, turn after turn.
\<close>

section \<open>Requests and responses\<close>

record 't request =
  rq_sender :: nat
  rq_data :: 't

record response =
  rs_receiver :: nat

text \<open>\<open>Request::new\<close>: \<open>chan\<close> is the one-shot channel it makes.\<close>

definition request_new :: "nat \<Rightarrow> 't \<Rightarrow> 't request \<times> response" where
  "request_new chan data = (\<lparr>rq_sender = chan, rq_data = data\<rparr>, \<lparr>rs_receiver = chan\<rparr>)"

text \<open>\<open>RequestWorker::send_to_worker\<close>: the result, and what is put into the channel of the worker.\<close>

definition send_to_worker :: "bool \<Rightarrow> 't request \<Rightarrow> unit outcome \<times> 't request list" where
  "send_to_worker accepted req =
     (if accepted then (Ok (), [req]) else (Err (H_Message ''Request send to worker error:{:?}''), []))"

definition request_send :: "nat \<Rightarrow> bool \<Rightarrow> 't \<Rightarrow> response outcome \<times> 't request list" where
  "request_send chan accepted data =
     (case request_new chan data of
        (request, resp) \<Rightarrow>
          (case send_to_worker accepted request of
             (r, sent) \<Rightarrow> (and_then r (\<lambda>_. Ok resp), sent)))"

lemmas send_defs = request_send_def request_new_def send_to_worker_def

text \<open>What becomes of the one-shot channel of a request: a value is sent into it, or its sender is
  dropped. \<open>alive\<close> says whether the receiver still waits.\<close>

datatype 't reply = Replied nat 't | Dropped nat

definition send_back :: "bool \<Rightarrow> 't request \<Rightarrow> 't \<Rightarrow> unit outcome \<times> 't reply" where
  "send_back alive req data =
     (if alive then (Ok (), Replied (rq_sender req) data)
      else (Err (H_Message ''Request send back error''), Dropped (rq_sender req)))"

text \<open>\<open>Response::response\<close>: the value that was sent, or the error when the sender is gone.\<close>

definition response_wait :: "'t option \<Rightarrow> 't outcome" where
  "response_wait answer =
     (case answer of Some v \<Rightarrow> Ok v | None \<Rightarrow> Err (H_Message ''Response error:{:?}''))"

fun reply_for :: "nat \<Rightarrow> 't reply list \<Rightarrow> 't option" where
  "reply_for chan [] = None"
| "reply_for chan (Replied c v # rs) = (if c = chan then Some v else reply_for chan rs)"
| "reply_for chan (Dropped c # rs) = (if c = chan then None else reply_for chan rs)"

text \<open>\<open>WorkReceiver::recv_work\<close> is what the channel hands out; \<open>recv_data\<close> drops the way back.\<close>

definition recv_data :: "'t request option \<Rightarrow> 't outcome" where
  "recv_data work =
     (case work of
        Some req \<Rightarrow> Ok (rq_data req)
      | None \<Rightarrow> Err (H_Message ''request handler recviece a invalid request''))"

text \<open>\<open>create_channel\<close> and the channel of \<open>Worker::new\<close>: tokio refuses a capacity of 0 with a panic. The
  two ends of the channel \<open>chan\<close>.\<close>

record request_worker =
  rw_sender :: nat

record work_receiver =
  wr_receiver :: nat

definition work_receiver_new :: "nat \<Rightarrow> work_receiver" where
  "work_receiver_new receiver = \<lparr>wr_receiver = receiver\<rparr>"

definition create_channel :: "nat \<Rightarrow> nat \<Rightarrow> (request_worker \<times> work_receiver) outcome" where
  "create_channel chan capacity =
     (if capacity = 0 then Panic else Ok (\<lparr>rw_sender = chan\<rparr>, work_receiver_new chan))"

record 't worker =
  wk_sender :: request_worker
  wk_receiver :: work_receiver
  wk_task :: "'t \<Rightarrow> 't outcome"

definition worker_new :: "nat \<Rightarrow> nat \<Rightarrow> ('t \<Rightarrow> 't outcome) \<Rightarrow> 't worker outcome" where
  "worker_new chan capacity task =
     (if capacity = 0 then Panic
      else Ok \<lparr>wk_sender = \<lparr>rw_sender = chan\<rparr>, wk_receiver = work_receiver_new chan, wk_task = task\<rparr>)"

section \<open>The worker task\<close>

datatype 't turn = Received 't | Cancelled
datatype task_status = Running | Stopped | Crashed

text \<open>\<open>Worker::run\<close>: the body of the spawned loop. \<open>alive\<close> says which requesters still wait.\<close>

fun worker_run ::
    "('t \<Rightarrow> 't outcome) \<Rightarrow> (nat \<Rightarrow> bool) \<Rightarrow> 't request option turn list \<Rightarrow> 't reply list \<times> task_status" where
  "worker_run task alive [] = ([], Running)"
| "worker_run task alive (Received (Some req) # turns) =
     (case task (rq_data req) of
        Ok resp \<Rightarrow>
          (case send_back (alive (rq_sender req)) req resp of
             (_, reply) \<Rightarrow> (case worker_run task alive turns of (rs, st) \<Rightarrow> (reply # rs, st)))
      | Err _ \<Rightarrow> (case worker_run task alive turns of (rs, st) \<Rightarrow> (Dropped (rq_sender req) # rs, st))
      | _ \<Rightarrow> ([Dropped (rq_sender req)], Crashed))"
| "worker_run task alive (Received None # turns) = worker_run task alive turns"
| "worker_run task alive (Cancelled # turns) = ([], Stopped)"

text \<open>The requests a run gets to see, and what the task makes of them.\<close>

fun served :: "'t request option turn list \<Rightarrow> 't request list" where
  "served [] = []"
| "served (Received (Some req) # turns) = req # served turns"
| "served (Received None # turns) = served turns"
| "served (Cancelled # turns) = []"

definition returns :: "'a outcome \<Rightarrow> bool" where
  "returns r \<longleftrightarrow> (is_ok r \<or> is_err r)"

definition reply_of :: "('t \<Rightarrow> 't outcome) \<Rightarrow> (nat \<Rightarrow> bool) \<Rightarrow> 't request \<Rightarrow> 't reply" where
  "reply_of task alive req =
     (case task (rq_data req) of
        Ok v \<Rightarrow> if alive (rq_sender req) then Replied (rq_sender req) v else Dropped (rq_sender req)
      | _ \<Rightarrow> Dropped (rq_sender req))"

lemma worker_run_replies:
  assumes "\<forall>req \<in> set (served turns). returns (task (rq_data req))"
  shows "worker_run task alive turns =
    (map (reply_of task alive) (served turns), if Cancelled \<in> set turns then Stopped else Running)"
  using assms
  by (induction task alive turns rule: worker_run.induct)
    (auto simp: returns_def send_back_def reply_of_def)

text \<open>Without that, the task dies at the first request its function does not return from.\<close>

lemma worker_run_crash:
  assumes "served turns = pre @ req # post" and "\<forall>r \<in> set pre. returns (task (rq_data r))"
    and "\<not> returns (task (rq_data req))"
  shows "worker_run task alive turns = (map (reply_of task alive) pre @ [Dropped (rq_sender req)], Crashed)"
  using assms
proof (induction turns arbitrary: pre rule: served.induct)
  case (2 r turns)
  then show ?case
    by (cases pre; cases "task (rq_data r)")
      (auto simp: returns_def send_back_def reply_of_def)
qed simp_all

lemma reply_for_map:
  assumes "distinct (map rq_sender reqs)" and "req \<in> set reqs"
  shows "reply_for (rq_sender req) (map (reply_of task alive) reqs) =
    (case task (rq_data req) of Ok v \<Rightarrow> if alive (rq_sender req) then Some v else None | _ \<Rightarrow> None)"
  using assms
proof (induction reqs)
  case (Cons r reqs)
  show ?case
  proof (cases "r = req")
    case True
    then show ?thesis by (simp add: reply_of_def split: outcome.split)
  next
    case False
    with Cons.prems have "req \<in> set reqs" "rq_sender r \<noteq> rq_sender req" by (auto simp: image_iff)
    with Cons show ?thesis by (simp add: reply_of_def split: outcome.split)
  qed
qed simp

lemma reply_for_notin:
  "rq_sender req \<notin> rq_sender ` set reqs \<Longrightarrow>
     reply_for (rq_sender req) (map (reply_of task alive) reqs) = None"
  by (induction reqs) (auto simp: reply_of_def split: outcome.split)

section \<open>Properties\<close>

text \<open>The requests a run answers: those before the first one the task's function does not return from.\<close>

definition answered :: "('t \<Rightarrow> 't outcome) \<Rightarrow> 't request option turn list \<Rightarrow> 't request list" where
  "answered task turns = takeWhile (\<lambda>r. returns (task (rq_data r))) (served turns)"

lemma worker_run_total:
  "worker_run task alive turns =
     (if answered task turns = served turns
      then (map (reply_of task alive) (served turns), if Cancelled \<in> set turns then Stopped else Running)
      else (map (reply_of task alive) (answered task turns) @
              [Dropped (rq_sender (served turns ! length (answered task turns)))], Crashed))"
proof (cases "answered task turns = served turns")
  case True
  then have "\<forall>r \<in> set (served turns). returns (task (rq_data r))"
    by (metis answered_def set_takeWhileD)
  with worker_run_replies [of turns task alive] True show ?thesis by simp
next
  case False
  let ?P = "\<lambda>r. returns (task (rq_data r))" and ?n = "length (answered task turns)"
  have lt: "?n < length (served turns)"
    using False by (metis answered_def takeWhile_eq_all_conv length_takeWhile_le nat_less_le takeWhile_eq_take take_all_iff)
  then have "served turns = answered task turns @ (served turns ! ?n) # drop (Suc ?n) (served turns)"
    by (metis answered_def takeWhile_eq_take id_take_nth_drop)
  moreover have "\<not> ?P (served turns ! ?n)" using lt unfolding answered_def by (rule nth_length_takeWhile)
  moreover have "\<forall>r \<in> set (answered task turns). ?P r" by (simp add: answered_def) (metis set_takeWhileD)
  ultimately show ?thesis using worker_run_crash [of turns] False by metis
qed

text \<open>C20: A worker, whose function always returns or panics, answers the requests it receives before it is
  cancelled, each with a way back of its own, exactly once and to their own requesters: the requester that waits
  gets the function's value, and one whose request failed gets the response error. At the first request the
  function panics on the worker dies: this request, all later ones and those that come after a cancellation
  get the response error.\<close>

theorem worker_answers:
  assumes "distinct (map rq_sender (served turns))" and "\<forall>r \<in> set (served turns). returns (task (rq_data r)) \<or> task (rq_data r) = Panic"
    and "worker_run task alive turns = (replies, status)"
  shows "(req \<in> set (answered task turns) \<and> alive (rq_sender req) \<longrightarrow>
       response_wait (reply_for (rq_sender req) replies) =
         (case task (rq_data req) of Ok v \<Rightarrow> Ok v | _ \<Rightarrow> Err (H_Message ''Response error:{:?}''))) \<and>
    (status \<noteq> Running \<and> rq_sender req \<notin> rq_sender ` set (answered task turns) \<longrightarrow>
       response_wait (reply_for (rq_sender req) replies) = Err (H_Message ''Response error:{:?}'')) \<and>
    (if answered task turns = served turns
     then length replies = length (served turns) \<and> status = (if Cancelled \<in> set turns then Stopped else Running)
     else length replies = Suc (length (answered task turns)) \<and> status = Crashed \<and>
       task (rq_data (served turns ! length (answered task turns))) = Panic)"
proof -
  let ?as = "answered task turns" and ?ss = "served turns"
  let ?fin = "if ?as = ?ss then [] else [Dropped (rq_sender (?ss ! length ?as))]"
  have run: "replies = fst (worker_run task alive turns)" "status = snd (worker_run task alive turns)"
    by (simp_all only: assms(3) fst_conv snd_conv)
  have r: "replies = map (reply_of task alive) ?as @ ?fin"
    unfolding run(1) worker_run_total by (cases "?as = ?ss") (simp_all only: simp_thms if_True if_False fst_conv append_Nil2)
  have st: "status = (if ?as = ?ss then if Cancelled \<in> set turns then Stopped else Running else Crashed)"
    unfolding run(2) worker_run_total by (cases "?as = ?ss") (simp_all only: simp_thms if_True if_False snd_conv)
  have pre: "?as = take (length ?as) ?ss" unfolding answered_def by (rule takeWhile_eq_take)
  have d: "distinct (map rq_sender ?as)" by (subst pre) (simp add: assms(1) flip: take_map)
  have app: "reply_for c (map (reply_of task alive) as @ ?fin) = reply_for c (map (reply_of task alive) as)" for c as
    by (induction as) (auto simp: reply_of_def split: outcome.split)
  have stop: "task (rq_data (?ss ! length ?as)) = Panic" if "?as \<noteq> ?ss"
  proof -
    have "length ?as < length ?ss" using that pre by (metis linorder_not_less take_all)
    then show ?thesis using assms(2) nth_length_takeWhile [of "\<lambda>r. returns (task (rq_data r))" ?ss]
      by (auto simp: answered_def)
  qed
  have "response_wait (reply_for (rq_sender req) replies) =
      (case task (rq_data req) of Ok v \<Rightarrow> Ok v | _ \<Rightarrow> Err (H_Message ''Response error:{:?}''))"
    if "req \<in> set ?as" "alive (rq_sender req)"
    unfolding r app using reply_for_map [OF d that(1), of task alive] that(2)
    by (simp add: response_wait_def split: outcome.split)
  moreover have "response_wait (reply_for (rq_sender req) replies) = Err (H_Message ''Response error:{:?}'')"
    if "rq_sender req \<notin> rq_sender ` set ?as"
    unfolding r app using reply_for_notin [OF that, of task alive] by (simp add: response_wait_def)
  moreover have "if ?as = ?ss then length replies = length ?ss \<and> status = (if Cancelled \<in> set turns then Stopped else Running)
     else length replies = Suc (length ?as) \<and> status = Crashed \<and> task (rq_data (?ss ! length ?as)) = Panic"
  proof (cases "?as = ?ss")
    case True
    show ?thesis unfolding r st if_P [OF True] by (simp only: True append_Nil2 length_map simp_thms)
  next
    case False
    show ?thesis unfolding r st if_not_P [OF False] using stop [OF False] by simp
  qed
  ultimately show ?thesis by blast
qed

theorem worker_answers_witness:
  "snd (worker_run (\<lambda>x :: nat. if x = 0 then Panic else Ok (x + 1)) (\<lambda>_. True)
     [Received (Some \<lparr>rq_sender = 1, rq_data = 3\<rparr>), Received (Some \<lparr>rq_sender = 2, rq_data = 0\<rparr>),
      Received (Some \<lparr>rq_sender = 3, rq_data = 5\<rparr>)]) = Crashed \<and>
   response_wait (reply_for 1 (fst (worker_run (\<lambda>x :: nat. if x = 0 then Panic else Ok (x + 1)) (\<lambda>_. True)
     [Received (Some \<lparr>rq_sender = 1, rq_data = 3\<rparr>), Received (Some \<lparr>rq_sender = 2, rq_data = 0\<rparr>),
      Received (Some \<lparr>rq_sender = 3, rq_data = 5\<rparr>)]))) = Ok 4"
  using worker_answers [of "[Received (Some \<lparr>rq_sender = 1, rq_data = 3\<rparr>), Received (Some \<lparr>rq_sender = 2, rq_data = 0\<rparr>),
      Received (Some \<lparr>rq_sender = 3, rq_data = 5\<rparr>)]" "\<lambda>x :: nat. if x = 0 then Panic else Ok (x + 1)"
      "\<lambda>_. True" _ _ "\<lparr>rq_sender = 1, rq_data = 3\<rparr>", OF _ _ prod.collapse [symmetric]]
  by (simp add: returns_def answered_def)

end
