(* ===== verification/Register.thy ===== *)
theory Register imports ReqResp ProtocolDefs begin

text \<open>
  \<open>src/network/register.rs\<close>: the registers that map a kind of payload to its handler, synchronous and
  asynchronous, the tasks that serve payload requests with them, and \<open>HandlerContext\<close>. A \<open>HashMap\<close> is
  an association list without duplicate keys. A handler, a pointer or a boxed future, is a function
  of the payload; the lock of the asynchronous register is held for a whole call of \<open>handle\<close>.
\<close>

section \<open>Kinds of payloads\<close>

datatype payload_types = IntroduceType | EmptyType | OthersType

fun from_payload :: "payload \<Rightarrow> payload_types" where
  "from_payload Introduce = IntroduceType"
| "from_payload EmptyPayload = EmptyType"
| "from_payload _ = OthersType"

type_synonym handler = "payload \<Rightarrow> payload outcome"
type_synonym handlers = "(payload_types \<times> handler) list"

section \<open>The synchronous register\<close>

record register =
  rg_handlers :: handlers

definition register_new :: register where
  "register_new = \<lparr>rg_handlers = []\<rparr>"

definition register_reg :: "register \<Rightarrow> payload_types \<Rightarrow> handler \<Rightarrow> unit outcome \<times> register" where
  "register_reg rg payload_type h =
     (Ok (), rg\<lparr>rg_handlers := AList.update payload_type h (rg_handlers rg)\<rparr>)"

record payload_handler =
  ph_register :: register

definition payload_handler_new :: payload_handler where
  "payload_handler_new = \<lparr>ph_register = register_new\<rparr>"

definition handler_reg :: "payload_handler \<Rightarrow> payload_types \<Rightarrow> handler \<Rightarrow> unit outcome \<times> payload_handler" where
  "handler_reg ph payload_type h =
     (case register_reg (ph_register ph) payload_type h of (r, rg) \<Rightarrow> (r, ph\<lparr>ph_register := rg\<rparr>))"

definition handler_handle :: "payload_handler \<Rightarrow> payload \<Rightarrow> payload outcome" where
  "handler_handle ph payload =
     (case map_of (rg_handlers (ph_register ph)) (from_payload payload) of
        Some h \<Rightarrow> h payload
      | None \<Rightarrow> Err (H_NetWork ''No handler for payload type: {:?}''))"

text \<open>The loop of \<open>PayloadHandler::spawn_run\<close>.\<close>

fun handler_run ::
    "payload_handler \<Rightarrow> (nat \<Rightarrow> bool) \<Rightarrow> payload request option turn list \<Rightarrow>
     payload reply list \<times> task_status" where
  "handler_run ph alive [] = ([], Running)"
| "handler_run ph alive (Received (Some req) # turns) =
     (let payload = rq_data req; result = handler_handle ph payload in
      case result of
        Ok payload \<Rightarrow>
          (case send_back (alive (rq_sender req)) req payload of
             (_, reply) \<Rightarrow> (case handler_run ph alive turns of (rs, st) \<Rightarrow> (reply # rs, st)))
      | Err err \<Rightarrow> (case handler_run ph alive turns of (rs, st) \<Rightarrow> (Dropped (rq_sender req) # rs, st))
      | _ \<Rightarrow> ([Dropped (rq_sender req)], Crashed))"
| "handler_run ph alive (Received None # turns) = handler_run ph alive turns"
| "handler_run ph alive (Cancelled # turns) = ([], Stopped)"

section \<open>The asynchronous register\<close>

record async_register =
  ar_handlers :: handlers

definition async_register_new :: async_register where
  "async_register_new = \<lparr>ar_handlers = []\<rparr>"

definition register_handle :: "async_register \<Rightarrow> payload \<Rightarrow> payload outcome" where
  "register_handle ar payload =
     (case map_of (ar_handlers ar) (from_payload payload) of
        Some h \<Rightarrow> and_then (h payload) (\<lambda>payload_ret. Ok payload_ret)
      | None \<Rightarrow> Err (H_Message ''No handler for payload type: {:?}''))"

text \<open>\<open>AsyncPayloadHandler\<close> and its clones share one register.\<close>

definition async_handle :: "async_register \<Rightarrow> payload \<Rightarrow> payload outcome" where
  "async_handle ar payload =
     (case map_of (ar_handlers ar) (from_payload payload) of
        Some h \<Rightarrow> h payload
      | None \<Rightarrow> Err (H_Message ''no handler for payload type''))"

definition reg_async :: "async_register \<Rightarrow> payload_types \<Rightarrow> handler \<Rightarrow> unit outcome \<times> async_register" where
  "reg_async ar payload_type h =
     (Ok (), ar\<lparr>ar_handlers := AList.update payload_type h (ar_handlers ar)\<rparr>)"

text \<open>\<open>spawn_handle\<close>: the answer to a message goes, with the two ends swapped, to the signing task.\<close>

definition spawn_handle ::
    "async_register \<Rightarrow> u64 \<Rightarrow> nat \<Rightarrow> bool \<Rightarrow> message \<times> socket_addr \<Rightarrow>
     unit outcome \<times> (message \<times> socket_addr) request list" where
  "spawn_handle ar now chan accepted msg_addr =
     (case msg_addr of
        (msg, addr) \<Rightarrow>
          (case async_handle ar (ms_payload msg) of
             Ok new_payload \<Rightarrow>
               (let new_msg = message_new now (ms_receiver msg) (ms_sender msg) new_payload in
                case request_send chan accepted (new_msg, addr) of
                  (r, sent) \<Rightarrow> (and_then r (\<lambda>_. Ok ()), sent))
           | Err e \<Rightarrow> (Err e, [])
           | Panic \<Rightarrow> (Panic, [])
           | Undefined \<Rightarrow> (Undefined, [])
           | Diverge \<Rightarrow> (Diverge, [])))"

text \<open>The loop of \<open>AsyncPayloadHandler::spawn_run\<close>.\<close>

fun async_run ::
    "async_register \<Rightarrow> (nat \<Rightarrow> bool) \<Rightarrow> payload request option turn list \<Rightarrow>
     payload reply list \<times> task_status" where
  "async_run ar alive [] = ([], Running)"
| "async_run ar alive (Received (Some req) # turns) =
     (let payload = rq_data req; payload_result = async_handle ar payload in
      case payload_result of
        Ok payload \<Rightarrow>
          (case send_back (alive (rq_sender req)) req payload of
             (_, reply) \<Rightarrow> (case async_run ar alive turns of (rs, st) \<Rightarrow> (reply # rs, st)))
      | Err _ \<Rightarrow> (case async_run ar alive turns of (rs, st) \<Rightarrow> (Dropped (rq_sender req) # rs, st))
      | _ \<Rightarrow> ([Dropped (rq_sender req)], Crashed))"
| "async_run ar alive (Received None # turns) = async_run ar alive turns"
| "async_run ar alive (Cancelled # turns) = ([], Stopped)"

section \<open>The context of workers\<close>

record handler_context =
  hx_request_wokers :: "(payload_types \<times> request_worker) list"

definition handler_context_new :: handler_context where
  "handler_context_new = \<lparr>hx_request_wokers = []\<rparr>"

definition get_request_worker :: "handler_context \<Rightarrow> payload_types \<Rightarrow> request_worker option" where
  "get_request_worker hx payload_type = map_of (hx_request_wokers hx) payload_type"

text \<open>\<open>HandlerContext::send\<close>: the result, and which worker is sent what.\<close>

definition context_send ::
    "handler_context \<Rightarrow> nat \<Rightarrow> bool \<Rightarrow> payload \<Rightarrow> response outcome \<times> (nat \<times> payload request) list" where
  "context_send hx chan accepted payload =
     (case get_request_worker hx (from_payload payload) of
        Some req_worker \<Rightarrow>
          (case request_send chan accepted payload of
             (r, sent) \<Rightarrow> (r, map (Pair (rw_sender req_worker)) sent))
      | None \<Rightarrow> (Err (H_Message ''no request worker for payload type''), []))"

section \<open>The interface of a register\<close>

text \<open>What the code relies on whichever register it is handed: registering a handler decides what
  happens to the payloads of its kind, and to no others. The laws are over the state \<open>'r\<close> of the
  register, \<open>reg\<close> and \<open>hdl\<close> are the two operations.\<close>

locale handler_register =
  fixes empty_reg :: 'r
    and reg :: "'r \<Rightarrow> payload_types \<Rightarrow> handler \<Rightarrow> 'r"
    and hdl :: "'r \<Rightarrow> payload \<Rightarrow> payload outcome"
  assumes hdl_empty: "is_err (hdl empty_reg p)"
    and hdl_reg_same: "from_payload p = k \<Longrightarrow> hdl (reg r k h) p = h p"
    and hdl_reg_other: "from_payload p \<noteq> k \<Longrightarrow> hdl (reg r k h) p = hdl r p"
begin

definition reg_all :: "(payload_types \<times> handler) list \<Rightarrow> 'r" where
  "reg_all khs = foldl (\<lambda>r (k, h). reg r k h) empty_reg khs"

lemma reg_all_snoc: "reg_all (khs @ [(k, h)]) = reg (reg_all khs) k h"
  by (simp add: reg_all_def)

text \<open>The last registration of a kind wins.\<close>

lemma hdl_reg_all:
  "hdl (reg_all khs) p = (case map_of (rev khs) (from_payload p) of Some h \<Rightarrow> h p | None \<Rightarrow> hdl empty_reg p)"
proof (induction khs rule: rev_induct)
  case Nil
  then show ?case by (simp add: reg_all_def)
next
  case (snoc kh khs)
  obtain k h where "kh = (k, h)" by (cases kh)
  with snoc show ?case
    by (cases "from_payload p = k") (simp_all add: reg_all_snoc hdl_reg_same hdl_reg_other)
qed

lemma reg_twice: "hdl (reg (reg r k h) k h') p = hdl (reg r k h') p"
  by (cases "from_payload p = k") (simp_all add: hdl_reg_same hdl_reg_other)

lemma reg_commute: "k \<noteq> k' \<Longrightarrow> hdl (reg (reg r k h) k' h') p = hdl (reg (reg r k' h') k h) p"
  by (cases "from_payload p = k"; cases "from_payload p = k'") (simp_all add: hdl_reg_same hdl_reg_other)

end

interpretation sync: handler_register payload_handler_new "\<lambda>ph k h. snd (handler_reg ph k h)" handler_handle
  by unfold_locales
    (simp_all add: payload_handler_new_def register_new_def handler_reg_def register_reg_def
      handler_handle_def update_conv' case_prod_unfold)

interpretation async: handler_register async_register_new "\<lambda>ar k h. snd (reg_async ar k h)" async_handle
  by unfold_locales
    (simp_all add: async_register_new_def reg_async_def async_handle_def update_conv')

section \<open>The handler tasks are workers\<close>

lemma handler_run_worker: "handler_run ph alive turns = worker_run (handler_handle ph) alive turns"
  by (induction turns rule: served.induct) (simp_all add: Let_def case_prod_unfold split: outcome.split)

lemma async_run_worker: "async_run ar alive turns = worker_run (async_handle ar) alive turns"
  by (induction turns rule: served.induct) (simp_all add: Let_def case_prod_unfold split: outcome.split)

lemma and_then_same [simp]: "and_then r (\<lambda>x. Ok x) = r"
  by (cases r) auto

lemma register_handle_async:
  "register_handle ar p = (if map_of (ar_handlers ar) (from_payload p) = None
     then Err (H_Message ''No handler for payload type: {:?}'') else async_handle ar p)"
  by (auto simp: register_handle_def async_handle_def split: option.split)

lemma async_runs_replies:
  assumes "\<forall>req \<in> set (served turns). returns (async_handle ar (rq_data req))"
  shows "fst (async_run ar alive turns) = map (reply_of (async_handle ar) alive) (served turns)"
  using worker_run_replies [OF assms, of alive] by (simp add: async_run_worker)

section \<open>Properties\<close>

text \<open>The two payload tasks are the generic worker with the register's lookup as its function, and
  the lookup sends a payload to the handler registered last for its kind, or to an error when there
  is none.\<close>

theorem payload_tasks_are_workers:
  "handler_run (foldl (\<lambda>ph (k, h). snd (handler_reg ph k h)) payload_handler_new khs) alive turns =
     worker_run (\<lambda>p. case map_of (rev khs) (from_payload p) of
       Some h \<Rightarrow> h p | None \<Rightarrow> Err (H_NetWork ''No handler for payload type: {:?}'')) alive turns \<and>
   async_run (foldl (\<lambda>ar (k, h). snd (reg_async ar k h)) async_register_new khs) alive turns =
     worker_run (\<lambda>p. case map_of (rev khs) (from_payload p) of
       Some h \<Rightarrow> h p | None \<Rightarrow> Err (H_Message ''no handler for payload type'')) alive turns"
proof -
  have "handler_handle payload_handler_new p = Err (H_NetWork ''No handler for payload type: {:?}'')"
    and "async_handle async_register_new p = Err (H_Message ''no handler for payload type'')" for p
    by (simp_all add: handler_handle_def payload_handler_new_def register_new_def async_handle_def
        async_register_new_def)
  then show ?thesis
    unfolding handler_run_worker async_run_worker sync.reg_all_def [symmetric] async.reg_all_def [symmetric]
    by (simp add: sync.hdl_reg_all [abs_def] async.hdl_reg_all [abs_def] cong: option.case_cong)
qed

end
