(* ===== verification/NodeDefs.thy ===== *)
theory NodeDefs imports Register begin

text \<open>
  \<open>src/nodes/node.rs\<close>, the definitions: the traits \<open>NodeAppend\<close> and \<open>Node\<close>, the four tasks that take a
  message from the network to its answer, and \<open>helpers::msg_delivery\<close>; and the \<open>TestNode\<close> of the
  file's tests, the one implementation of the traits in the crate. \<open>NodeInfo\<close>, \<open>Reputation\<close> and
  \<open>NodeState\<close> are in \<open>Identity\<close>. As in \<open>ReqResp\<close>, a task is run on what its \<open>select!\<close> yields; the
  answers of sockets and channels, clock readings and fresh one-shot channels are arguments.
\<close>

section \<open>The traits\<close>

record ('n, 'sk) node_impl =
  node_new_of :: "'n"
  set_nodeinfo_of :: "'n \<Rightarrow> node_info \<Rightarrow> 'n"
  nodeinfo_of :: "'n \<Rightarrow> node_info outcome"
  set_sign_handle_of :: "'n \<Rightarrow> 'sk sign_handle \<Rightarrow> 'n"
  sign_handle_of :: "'n \<Rightarrow> 'sk sign_handle outcome"
  friends_of :: "'n \<Rightarrow> (hash \<times> node_info) list outcome"
  async_payload_handler_of :: "'n \<Rightarrow> async_register outcome"

definition start_sign_handle ::
    "('n, 'sk) node_impl \<Rightarrow> 'n \<Rightarrow> 'sk identity \<Rightarrow> unit outcome \<times> 'n" where
  "start_sign_handle N n idn =
     (case spawn_new idn of
        Ok sign_handle \<Rightarrow> (Ok (), set_sign_handle_of N n sign_handle)
      | r \<Rightarrow> (and_then r (\<lambda>_. Ok ()), n))"

definition node_sign :: "('n, 'sk) node_impl \<Rightarrow> 'sk sig_scheme \<Rightarrow> 'n \<Rightarrow> bytes \<Rightarrow> bytes outcome" where
  "node_sign N S n msg =
     and_then (sign_handle_of N n) (\<lambda>sign_handle_ref.
     and_then (handle_sign S sign_handle_ref msg) (\<lambda>sig. Ok sig))"

definition is_friend :: "('n, 'sk) node_impl \<Rightarrow> 'n \<Rightarrow> hash \<Rightarrow> bool outcome" where
  "is_friend N n name =
     and_then (friends_of N n) (\<lambda>friends. Ok (map_of friends name \<noteq> None))"

text \<open>\<open>init_new\<close>: \<open>sk\<close> is the secret key of the new identity.\<close>

definition init_new :: "('n, 'sk) node_impl \<Rightarrow> 'sk sig_scheme \<Rightarrow> 'sk \<Rightarrow> 'n outcome" where
  "init_new N S sk =
     (let node = node_new_of N; idn = identity_new S sk; name = public_key_to_bytes idn in
      and_then (spawn_new idn) (\<lambda>sign_handle.
      let node = set_sign_handle_of N node sign_handle;
          node_info = node_info_new\<lparr>ni_name := Some name\<rparr>;
          node = set_nodeinfo_of N node node_info
      in Ok node))"

definition node_get :: "('n, 'sk) node_impl \<Rightarrow> 'n \<Rightarrow> hash \<Rightarrow> node_info option" where
  "node_get N n name =
     (case friends_of N n of
        Ok friends \<Rightarrow>
          (case map_of friends name of Some info \<Rightarrow> Some info | None \<Rightarrow> None)
      | _ \<Rightarrow> None)"

definition make_friend :: "('n, 'sk) node_impl \<Rightarrow> 'n \<Rightarrow> hash \<Rightarrow> unit outcome" where
  "make_friend N n name =
     (case is_friend N n name of
        Err e \<Rightarrow> Err e
      | Panic \<Rightarrow> Panic | Undefined \<Rightarrow> Undefined | Diverge \<Rightarrow> Diverge
      | Ok _ \<Rightarrow> Ok ())"

text \<open>\<open>make_new\<close>: the result and the datagram sent, with its target. \<open>net\<close> is what the network does for
  one checked address, \<open>sock_ok\<close> whether the socket to send from can be bound, \<open>bound\<close> and \<open>answer\<close>
  what comes back.\<close>

definition make_new ::
    "header_codec \<Rightarrow> message codec \<Rightarrow> 'sk sig_scheme \<Rightarrow> ('n, 'sk) node_impl \<Rightarrow> u64 \<Rightarrow>
     (socket_addr \<Rightarrow> bool \<times> recv_answer) \<Rightarrow> bool \<Rightarrow> bool \<Rightarrow> recv_answer \<Rightarrow> 'n \<Rightarrow> hash \<Rightarrow> 'sk sign_handle \<Rightarrow>
     node_info outcome \<times> (socket_addr \<times> bytes) list" where
  "make_new hc mc S N now net sock_ok bound answer n introducer sh =
     (case and_then (nodeinfo_of N n) (\<lambda>this_name_info.
           and_then (info_name this_name_info) (\<lambda>this_name.
           case node_get N n introducer of
             None \<Rightarrow> Err (H_Message ''introducer is not your friend'')
           | Some introducer_info \<Rightarrow>
               and_then (info_address introducer_info) (\<lambda>dst_addr.
               and_then (check_addresses_available hc mc S now net dst_addr introducer sh) (\<lambda>avaliable_addr.
               if avaliable_addr = [] then Err (H_Message ''no avaliable address'')
               else and_then (info_name introducer_info) (\<lambda>receiver.
                    let msg = message_new now this_name receiver Introduce in
                    and_then (udp_send_to hc mc S sock_ok msg sh) (\<lambda>(total_size, datagram).
                    and_then (vec_index avaliable_addr 0) (\<lambda>dst.
                    Ok (introducer_info, dst, datagram)))))))) of
        Ok (introducer_info, dst, datagram) \<Rightarrow>
          (and_then (udp_recv_from hc mc S (sh_public_key_bytes sh) bound answer) (\<lambda>(msg, src_addr).
           and_then (info_address introducer_info) (\<lambda>addrs.
           and_then (vec_index addrs 0) (\<lambda>first.
           if src_addr \<noteq> first then Err (H_Message ''response is not from the introducer'')
           else case ms_payload msg of
             IntroduceResp new_node_info \<Rightarrow> Ok new_node_info
           | _ \<Rightarrow> Err (H_Message ''introduce response for a new node is not valid'')))),
           [(dst, datagram)])
      | r \<Rightarrow> (and_then r (\<lambda>_. Panic), []))"

section \<open>Step 1: receiving\<close>

text \<open>What the task is started with: the name and the first address of the node.\<close>

definition spawn_recv_net_task :: "('n, 'sk) node_impl \<Rightarrow> 'n \<Rightarrow> (hash \<times> socket_addr) outcome" where
  "spawn_recv_net_task N n =
     and_then (nodeinfo_of N n) (\<lambda>my_info.
     and_then (info_name my_info) (\<lambda>my_name.
     and_then (info_address my_info) (\<lambda>bind_addrs.
     and_then (vec_index bind_addrs 0) (\<lambda>bind_addr. Ok (my_name, bind_addr)))))"

text \<open>A turn that is not a cancellation carries: whether the socket was bound, its answer, the fresh
  one-shot channel and whether the next task's channel took the request. An error ends the loop.\<close>

fun recv_net_run ::
    "header_codec \<Rightarrow> message codec \<Rightarrow> 'sk sig_scheme \<Rightarrow> hash \<Rightarrow>
     (bool \<times> recv_answer \<times> nat \<times> bool) turn list \<Rightarrow>
     (message \<times> socket_addr) request list \<times> task_status" where
  "recv_net_run hc mc S my_name [] = ([], Running)"
| "recv_net_run hc mc S my_name (Cancelled # turns) = ([], Stopped)"
| "recv_net_run hc mc S my_name (Received (bound, answer, chan, accepted) # turns) =
     (case udp_recv_from hc mc S my_name bound answer of
        Err e \<Rightarrow> ([], Stopped)
      | Ok (msg, request_addr) \<Rightarrow>
          (case request_send chan accepted (msg, request_addr) of
             (_, sent) \<Rightarrow>
               (case recv_net_run hc mc S my_name turns of (rs, st) \<Rightarrow> (sent @ rs, st)))
      | _ \<Rightarrow> ([], Crashed))"

section \<open>Step 2: handling\<close>

text \<open>What the tasks of steps 2, 3 and 4 are started with; each gets a channel of its own.\<close>

definition CHANNEL_CAPACITY :: nat where "CHANNEL_CAPACITY = 1024"

definition spawn_handler_task ::
    "('n, 'sk) node_impl \<Rightarrow> nat \<Rightarrow> 'n \<Rightarrow> (async_register \<times> request_worker) outcome" where
  "spawn_handler_task N chan n =
     and_then (async_payload_handler_of N n) (\<lambda>async_payload_handler.
     and_then (create_channel chan CHANNEL_CAPACITY) (\<lambda>(request_worker, work_receiver).
     Ok (async_payload_handler, request_worker)))"

definition spawn_encode_and_sign_task ::
    "('n, 'sk) node_impl \<Rightarrow> nat \<Rightarrow> 'n \<Rightarrow> ('sk sign_handle \<times> request_worker) outcome" where
  "spawn_encode_and_sign_task N chan n =
     and_then (sign_handle_of N n) (\<lambda>sign_handle.
     and_then (create_channel chan CHANNEL_CAPACITY) (\<lambda>(request_worker, work_receiver).
     Ok (sign_handle, request_worker)))"

definition spawn_udp_send_to_task :: "nat \<Rightarrow> request_worker outcome" where
  "spawn_udp_send_to_task chan =
     and_then (create_channel chan CHANNEL_CAPACITY) (\<lambda>(requester, receiver). Ok requester)"

lemma capacity_pos: "create_channel chan CHANNEL_CAPACITY = Ok (\<lparr>rw_sender = chan\<rparr>, work_receiver_new chan)"
  by (simp add: create_channel_def CHANNEL_CAPACITY_def)

text \<open>The loop spawns a child task per request; the children, in the order they are spawned.\<close>

fun handler_task_run ::
    "(message \<times> socket_addr) request option turn list \<Rightarrow> (message \<times> socket_addr) list \<times> task_status" where
  "handler_task_run [] = ([], Running)"
| "handler_task_run (Cancelled # turns) = ([], Stopped)"
| "handler_task_run (Received work # turns) =
     (case recv_data work of
        Ok msg_addr \<Rightarrow> (case handler_task_run turns of (cs, st) \<Rightarrow> (msg_addr # cs, st))
      | _ \<Rightarrow> handler_task_run turns)"

text \<open>A child: what it sends to the signing task. Its error is only logged.\<close>

definition child_task ::
    "async_register \<Rightarrow> u64 \<Rightarrow> nat \<Rightarrow> bool \<Rightarrow> message \<times> socket_addr \<Rightarrow> (message \<times> socket_addr) request list" where
  "child_task ar now chan accepted msg_addr = snd (spawn_handle ar now chan accepted msg_addr)"

section \<open>Step 3: encoding and signing\<close>

fun encode_and_sign_run ::
    "header_codec \<Rightarrow> message codec \<Rightarrow> 'sk sig_scheme \<Rightarrow> 'sk sign_handle \<Rightarrow>
     ((message \<times> socket_addr) request option \<times> nat \<times> bool) turn list \<Rightarrow>
     (bytes \<times> socket_addr) request list \<times> task_status" where
  "encode_and_sign_run hc mc S sh [] = ([], Running)"
| "encode_and_sign_run hc mc S sh (Cancelled # turns) = ([], Stopped)"
| "encode_and_sign_run hc mc S sh (Received (work, chan, accepted) # turns) =
     (case recv_data work of
        Ok (msg, request_addr) \<Rightarrow>
          (case message_encode hc mc S sh msg (replicate MAX_UDP_MSG_SIZE 0) of
             (Ok msg_bytes_size, vec_bytes) \<Rightarrow>
               (case request_send chan accepted (take msg_bytes_size vec_bytes, request_addr) of
                  (_, sent) \<Rightarrow>
                    (case encode_and_sign_run hc mc S sh turns of (rs, st) \<Rightarrow> (sent @ rs, st)))
           | (Err e, _) \<Rightarrow> encode_and_sign_run hc mc S sh turns
           | (_, _) \<Rightarrow> ([], Crashed))
      | _ \<Rightarrow> encode_and_sign_run hc mc S sh turns)"

section \<open>Step 4: sending\<close>

text \<open>The socket's answer, and the datagrams that leave with their targets.\<close>

fun udp_send_run ::
    "((bytes \<times> socket_addr) request option \<times> nat option) turn list \<Rightarrow>
     (bytes \<times> socket_addr) list \<times> task_status" where
  "udp_send_run [] = ([], Running)"
| "udp_send_run (Cancelled # turns) = ([], Stopped)"
| "udp_send_run (Received (work, sent) # turns) =
     (case recv_data work of
        Ok (msg_bytes, dst_addr) \<Rightarrow>
          (case wrapper_udp_send_to sent msg_bytes of
             Ok _ \<Rightarrow> (case udp_send_run turns of (ds, st) \<Rightarrow> ((msg_bytes, dst_addr) # ds, st))
           | _ \<Rightarrow> udp_send_run turns)
      | _ \<Rightarrow> udp_send_run turns)"

section \<open>Delivery in one call\<close>

text \<open>\<open>helpers::msg_delivery\<close>: \<open>answer\<close> is what comes back for the request; the result, the request to
  the payload task and the one to the sending task.\<close>

definition msg_delivery ::
    "header_codec \<Rightarrow> message codec \<Rightarrow> 'sk sig_scheme \<Rightarrow> 'sk sign_handle \<Rightarrow> nat \<times> bool \<Rightarrow> payload option \<Rightarrow>
     u64 \<Rightarrow> nat \<times> bool \<Rightarrow> message \<Rightarrow> socket_addr \<Rightarrow>
     unit outcome \<times> payload request list \<times> (bytes \<times> socket_addr) request list" where
  "msg_delivery hc mc S sh req_chan answer now resp_chan msg addr =
     (case request_send (fst req_chan) (snd req_chan) (ms_payload msg) of
        (r, asked) \<Rightarrow>
          (case and_then r (\<lambda>_. response_wait answer) of
             Ok new_payload \<Rightarrow>
               (let new_msg = message_new now (ms_receiver msg) (ms_sender msg) new_payload in
                case message_encode hc mc S sh new_msg (replicate MAX_MSG_SIZE 0) of
                  (Ok msg_size, encoded) \<Rightarrow>
                    (case request_send (fst resp_chan) (snd resp_chan) (take msg_size encoded, addr) of
                       (r', sent) \<Rightarrow> (and_then r' (\<lambda>_. Ok ()), asked, sent))
                | (r', _) \<Rightarrow> (and_then r' (\<lambda>_. Panic), asked, []))
           | r' \<Rightarrow> (and_then r' (\<lambda>_. Panic), asked, [])))"

section \<open>The test node\<close>

record 'sk test_node =
  tn_this_node_info :: node_info
  tn_sign_handle :: "'sk sign_handle option"
  tn_friends :: "(hash \<times> node_info) list"
  tn_async_payload_handler :: async_register

definition test_set_nodeinfo :: "'sk test_node \<Rightarrow> node_info \<Rightarrow> 'sk test_node" where
  "test_set_nodeinfo n nodeinfo = n\<lparr>tn_this_node_info := nodeinfo\<rparr>"

definition test_sign_handle :: "'sk test_node \<Rightarrow> 'sk sign_handle outcome" where
  "test_sign_handle n =
     (case tn_sign_handle n of
        Some handle \<Rightarrow> Ok handle
      | None \<Rightarrow> Err (H_Message ''sign_handle is not set''))"

definition test_node_new :: "'sk sig_scheme \<Rightarrow> 'sk \<Rightarrow> 'sk test_node outcome" where
  "test_node_new S sk =
     (let ip = [127, 0, 0, 1]; bind_addr = (ip, 8080); sender_addr = (ip, 8888);
          nodeinfo = node_info_new\<lparr>ni_address := Some [bind_addr, sender_addr]\<rparr>;
          idn = identity_new S sk in
      and_then (spawn_new idn) (\<lambda>sign_handle.
      let nodeinfo = nodeinfo\<lparr>ni_name := Some (sh_public_key_bytes sign_handle)\<rparr>;
          async_payload_handler = snd (reg_async async_register_new EmptyType (\<lambda>payload. Ok payload))
      in Ok \<lparr>tn_this_node_info = nodeinfo, tn_sign_handle = Some sign_handle, tn_friends = [],
             tn_async_payload_handler = async_payload_handler\<rparr>))"

definition test_node_impl :: "'sk test_node \<Rightarrow> ('sk test_node, 'sk) node_impl" where
  "test_node_impl new =
     \<lparr>node_new_of = new, set_nodeinfo_of = test_set_nodeinfo,
      nodeinfo_of = (\<lambda>n. Ok (tn_this_node_info n)),
      set_sign_handle_of = (\<lambda>n sign_handle. n\<lparr>tn_sign_handle := Some sign_handle\<rparr>),
      sign_handle_of = test_sign_handle, friends_of = (\<lambda>n. Ok (tn_friends n)),
      async_payload_handler_of = (\<lambda>n. Ok (tn_async_payload_handler n))\<rparr>"

end
