(* ===== verification/Node.thy ===== *)
theory Node imports NodeDefs Protocol "HOL-Library.Sublist" begin

text \<open>
  What the node promises. \<open>lawful_node\<close> is what the default methods of \<open>Node\<close> rely on from an
  implementation of \<open>NodeAppend\<close>, interpreted on the \<open>TestNode\<close>. The four tasks are composed through
  the contract of the channels between them: a receiver gets, in order, a prefix of what was sent;
  the children of step 2 finish in any order.
\<close>

section \<open>Implementations\<close>

locale lawful_node =
  fixes N :: "('n, 'sk) node_impl"
  assumes nodeinfo_set: "nodeinfo_of N (set_nodeinfo_of N n i) = Ok i"
    and handle_set: "sign_handle_of N (set_sign_handle_of N n h) = Ok h"
    and info_keeps_handle: "sign_handle_of N (set_nodeinfo_of N n i) = sign_handle_of N n"
    and handle_keeps_info: "nodeinfo_of N (set_sign_handle_of N n h) = nodeinfo_of N n"
begin

lemma init_new_Ok:
  "\<exists>n. init_new N S sk = Ok n \<and> nodeinfo_of N n = Ok (node_info_new\<lparr>ni_name := Some (sg_public S sk)\<rparr>) \<and>
     sign_handle_of N n = Ok (handle_of S sk)"
  by (simp add: init_new_def spawn_handle_of nodeinfo_set info_keeps_handle handle_set Let_def)
     (simp add: identity_new_def create_keypair_def public_key_to_bytes_def)

lemma start_sign_handle_Ok:
  "start_sign_handle N n (identity_new S sk) = (Ok (), set_sign_handle_of N n (handle_of S sk))"
  by (simp add: start_sign_handle_def spawn_handle_of)

lemma sign_under:
  "sign_handle_of N n = Ok (handle_of S sk) \<Longrightarrow> node_sign N S n m = Ok (sg_sign S sk m)"
  by (simp add: node_sign_def)

end

interpretation test: lawful_node "test_node_impl new"
  by unfold_locales
    (simp_all add: test_node_impl_def test_set_nodeinfo_def test_sign_handle_def)

lemma test_node_lawful: "lawful_node (test_node_impl new)"
  by (rule test.lawful_node_axioms)

lemma sig_ok_verify: "sig_ok S \<Longrightarrow> verify_signature_bytes S m (sg_public S sk) (sg_sign S sk m) = Ok ()"
  by (simp add: verify_signature_bytes_def sig_ok_def)

section \<open>The four tasks\<close>

text \<open>Step 1: what was received comes from a datagram that passed \<open>Message::decode_from_slice\<close>.\<close>

lemma request_send_data: "map rq_data (snd (request_send chan accepted x)) = (if accepted then [x] else [])"
  by (simp add: send_defs)

lemma udp_recv_Ok:
  "udp_recv_from hc mc S my_name bound answer = Ok (msg, addr) \<longleftrightarrow>
    bound \<and> (\<exists>bs. answer = Datagram bs addr \<and>
      message_decode hc mc S my_name (take MAX_UDP_MSG_SIZE bs) = Ok msg)"
  by (cases answer) (auto simp: udp_recv_from_def and_then_Ok)

definition accepted_from ::
    "header_codec \<Rightarrow> message codec \<Rightarrow> 'sk sig_scheme \<Rightarrow> hash \<Rightarrow>
     (bool \<times> recv_answer \<times> nat \<times> bool) turn list \<Rightarrow> message \<times> socket_addr \<Rightarrow> bool" where
  "accepted_from hc mc S my_name turns ma \<longleftrightarrow>
     (\<exists>bs chan. Received (True, Datagram bs (snd ma), chan, True) \<in> set turns \<and>
        message_decode hc mc S my_name (take MAX_UDP_MSG_SIZE bs) = Ok (fst ma))"

lemma recv_net_run_accepted:
  "ma \<in> set (map rq_data (fst (recv_net_run hc mc S my_name turns))) \<Longrightarrow>
     accepted_from hc mc S my_name turns ma"
proof (induction turns)
  case (Cons t turns)
  show ?case
  proof (cases t)
    case (Received x)
    obtain bound answer chan accepted where x: "x = (bound, answer, chan, accepted)" by (metis prod.exhaust)
    show ?thesis
    proof (cases "udp_recv_from hc mc S my_name bound answer")
      case (Ok y)
      obtain msg addr where y: "y = (msg, addr)" by (cases y)
      with Ok obtain bs where d: "bound" "answer = Datagram bs addr"
        "message_decode hc mc S my_name (take MAX_UDP_MSG_SIZE bs) = Ok msg"
        by (auto simp: udp_recv_Ok)
      from Cons.prems Received x Ok y have "accepted \<and> ma = (msg, addr) \<or>
          ma \<in> set (map rq_data (fst (recv_net_run hc mc S my_name turns)))"
        using request_send_data [of chan accepted "(msg, addr)"]
        by (auto simp: case_prod_unfold split: if_splits)
      then show ?thesis
      proof
        assume "accepted \<and> ma = (msg, addr)"
        with d show ?thesis unfolding accepted_from_def Received x by (intro exI [of _ bs] exI [of _ chan]) simp
      next
        assume "ma \<in> set (map rq_data (fst (recv_net_run hc mc S my_name turns)))"
        from Cons.IH [OF this] show ?thesis unfolding accepted_from_def by auto
      qed
    qed (use Cons.prems Received x in auto)
  qed (use Cons.prems in simp)
qed simp

lemma recv_net_run_append:
  assumes "\<forall>t \<in> set pre. \<exists>b a c d x. t = Received (b, a, c, d) \<and> udp_recv_from hc mc S my_name b a = Ok x"
  shows "recv_net_run hc mc S my_name (pre @ turns) =
    (fst (recv_net_run hc mc S my_name pre) @ fst (recv_net_run hc mc S my_name turns),
     snd (recv_net_run hc mc S my_name turns))"
  using assms by (induction pre) (auto simp: case_prod_unfold)

text \<open>Step 2: the children are the requests of the turns.\<close>

lemma handler_task_run_served: "fst (handler_task_run turns) = map rq_data (served turns)"
  by (induction turns rule: served.induct) (auto simp: recv_data_def case_prod_unfold)

text \<open>A child: the environment gives it a clock reading, a one-shot channel and whether it could send.\<close>

type_synonym child_env = "u64 \<times> nat \<times> bool"

definition child_sends ::
    "async_register \<Rightarrow> ((message \<times> socket_addr) \<times> child_env) list \<Rightarrow> (message \<times> socket_addr) list" where
  "child_sends ar cs =
     concat (map (\<lambda>(ma, now, chan, accepted). map rq_data (child_task ar now chan accepted ma)) cs)"

lemma child_task_data:
  "map rq_data (child_task ar now chan accepted (msg, addr)) =
    (case async_handle ar (ms_payload msg) of
       Ok p \<Rightarrow> if accepted then [(message_new now (ms_receiver msg) (ms_sender msg) p, addr)] else []
     | _ \<Rightarrow> [])"
  using request_send_data [of chan accepted]
  by (auto simp: child_task_def spawn_handle_def Let_def case_prod_unfold split: outcome.split)

lemma child_sends_from:
  assumes "(reply, addr) \<in> set (child_sends ar cs)"
  shows "\<exists>msg p now. (msg, addr) \<in> set (map fst cs) \<and> async_handle ar (ms_payload msg) = Ok p \<and>
    reply = message_new now (ms_receiver msg) (ms_sender msg) p"
proof -
  from assms obtain msg a now chan accepted where c: "((msg, a), now, chan, accepted) \<in> set cs"
    "(reply, addr) \<in> set (map rq_data (child_task ar now chan accepted (msg, a)))"
    by (fastforce simp: child_sends_def)
  then have "(msg, a) \<in> set (map fst cs)" by force
  moreover have "\<exists>p. addr = a \<and> async_handle ar (ms_payload msg) = Ok p \<and>
      reply = message_new now (ms_receiver msg) (ms_sender msg) p"
    using c(2) unfolding child_task_data
    by (cases "async_handle ar (ms_payload msg)") (simp_all split: if_splits)
  ultimately show ?thesis by blast
qed

lemma length_child_sends: "length (child_sends ar cs) \<le> length cs"
proof (induction cs)
  case (Cons c cs)
  obtain msg a now chan accepted where "c = ((msg, a), now, chan, accepted)" by (metis prod.exhaust)
  moreover have "length (child_task ar now chan accepted (msg, a)) \<le> 1"
    using child_task_data [of ar now chan accepted msg a, THEN arg_cong, of length]
    by (auto split: outcome.splits if_splits)
  ultimately show ?case using Cons by (simp add: child_sends_def)
qed (simp add: child_sends_def)


text \<open>Step 3: what is sent on is the packet of a message that was asked for.\<close>

lemma message_encode_too_large:
  assumes "codes mc enc msg" and "MAX_UDP_MSG_SIZE < 100 + length (enc msg)" and "MAX_UDP_MSG_SIZE \<le> length buffer"
  shows "\<exists>e buf. message_encode hc mc S sh msg buffer = (Err e, buf)"
proof -
  let ?bs = "take (length buffer - 100) (drop 100 buffer)"
  have "fst (into_slice_of mc msg ?bs) =
      (if length (enc msg) \<le> length ?bs then Encoded (length (enc msg)) else UnexpectedEnd)"
    using assms(1) unfolding codes_def by blast
  with assms(2,3) show ?thesis
    by (cases "into_slice_of mc msg ?bs")
      (auto simp: message_encode_def encode_field_def MAX_UDP_MSG_SIZE_def Let_def split: if_splits)
qed

lemma message_encode_Ok_size:
  assumes "codes mc enc msg" and "fst (message_encode hc mc S sh msg buffer) = Ok n"
  shows "100 + length (enc msg) \<le> MAX_UDP_MSG_SIZE"
proof (rule ccontr)
  assume "\<not> ?thesis"
  moreover have "MAX_UDP_MSG_SIZE \<le> length buffer"
    using assms(2) by (simp add: message_encode_def split: if_splits)
  ultimately show False
    using message_encode_too_large [OF assms(1), of buffer hc S sh] assms(2) by auto
qed

lemma message_encode_bound:
  "message_encode hc mc S sh msg buffer = (Ok n, buf) \<Longrightarrow> n \<le> MAX_UDP_MSG_SIZE"
  by (auto simp: message_encode_def Let_def split: if_splits prod.splits outcome.splits)

lemma encoded_packet:
  assumes "header_codec_ok hc" and "codes mc enc msg" and "sig_ok S"
    and "message_encode hc mc S (handle_of S sk) msg (replicate MAX_UDP_MSG_SIZE 0) = (Ok n, buf)"
  shows "take n buf = packet S sk (enc msg) \<and> 100 + length (enc msg) \<le> MAX_UDP_MSG_SIZE"
proof -
  have c: "codec_ok_on (\<lambda>m. m = msg) mc enc" using assms(2) by (simp add: codec_ok_on_def)
  have l: "100 + length (enc msg) \<le> MAX_UDP_MSG_SIZE"
    using message_encode_Ok_size [OF assms(2)] assms(4) by (metis fst_conv)
  from message_encode_packet [OF assms(1) c refl assms(3) l, of "replicate MAX_UDP_MSG_SIZE 0" sk]
  show ?thesis using assms(4) l by auto
qed

fun asked3 :: "((message \<times> socket_addr) request option \<times> nat \<times> bool) turn list \<Rightarrow> (message \<times> socket_addr) list" where
  "asked3 [] = []"
| "asked3 (Received (Some req, _) # turns) = rq_data req # asked3 turns"
| "asked3 (Received (None, _) # turns) = asked3 turns"
| "asked3 (Cancelled # turns) = []"

lemma encode_and_sign_run_packets:
  assumes "header_codec_ok hc" and "sig_ok S" and "\<forall>(msg, a) \<in> set (asked3 turns). codes mc enc msg"
    and "(bs, addr) \<in> set (map rq_data (fst (encode_and_sign_run hc mc S (handle_of S sk) turns)))"
  shows "\<exists>msg. (msg, addr) \<in> set (asked3 turns) \<and> bs = packet S sk (enc msg) \<and>
    100 + length (enc msg) \<le> MAX_UDP_MSG_SIZE"
  using assms(3,4)
proof (induction turns rule: asked3.induct)
  case (2 req chan_acc turns)
  obtain chan accepted where ca: "chan_acc = (chan, accepted)" by (cases chan_acc)
  obtain msg a where ma: "rq_data req = (msg, a)" by (cases "rq_data req")
  let ?rest = "map rq_data (fst (encode_and_sign_run hc mc S (handle_of S sk) turns))"
  obtain r buf where e: "message_encode hc mc S (handle_of S sk) msg (replicate MAX_UDP_MSG_SIZE 0) = (r, buf)"
    by (cases "message_encode hc mc S (handle_of S sk) msg (replicate MAX_UDP_MSG_SIZE 0)")
  have IH: ?case if "(bs, addr) \<in> set ?rest"
    using 2(1) that 2(2) by (auto simp: ma)
  show ?case
  proof (cases r)
    case (Ok n)
    from 2(3) have "accepted \<and> bs = take n buf \<and> addr = a \<or> (bs, addr) \<in> set ?rest"
      using request_send_data [of chan accepted "(take n buf, a)"]
      by (auto simp: ca ma e Ok recv_data_def case_prod_unfold split: if_splits)
    moreover have "codes mc enc msg" using 2(2) by (simp add: ma)
    from encoded_packet [OF assms(1) this assms(2) e [unfolded Ok]]
    have "take n buf = packet S sk (enc msg)" "100 + length (enc msg) \<le> MAX_UDP_MSG_SIZE" by auto
    ultimately show ?thesis using IH by (auto simp: ma)
  next
    case (Err err)
    with 2(3) have "(bs, addr) \<in> set ?rest" by (simp add: ca ma e recv_data_def)
    then show ?thesis by (rule IH)
  qed (use 2(3) in \<open>simp_all add: ca ma e recv_data_def\<close>)
qed (auto simp: recv_data_def)

lemma encode_and_sign_run_bound:
  "r \<in> set (fst (encode_and_sign_run hc mc S sh turns)) \<Longrightarrow> length (fst (rq_data r)) \<le> MAX_UDP_MSG_SIZE"
proof (induction turns rule: asked3.induct)
  case (2 req ca turns)
  obtain chan accepted msg a where x: "ca = (chan, accepted)" "rq_data req = (msg, a)" by (metis prod.exhaust)
  obtain res buf where e: "message_encode hc mc S sh msg (replicate MAX_UDP_MSG_SIZE 0) = (res, buf)"
    by (cases "message_encode hc mc S sh msg (replicate MAX_UDP_MSG_SIZE 0)")
  show ?case
  proof (cases res)
    case (Ok n)
    with e have "n \<le> MAX_UDP_MSG_SIZE" by (auto dest: message_encode_bound)
    with 2 Ok show ?thesis
      by (auto simp: x e recv_data_def send_defs case_prod_unfold
          split: if_splits)
  qed (use 2 in \<open>simp_all add: x e recv_data_def\<close>)
qed (auto simp: recv_data_def)

text \<open>Step 4: what leaves was asked for, in order.\<close>

fun asked4 :: "((bytes \<times> socket_addr) request option \<times> nat option) turn list \<Rightarrow> (bytes \<times> socket_addr) list" where
  "asked4 [] = []"
| "asked4 (Received (Some req, _) # turns) = rq_data req # asked4 turns"
| "asked4 (Received (None, _) # turns) = asked4 turns"
| "asked4 (Cancelled # turns) = []"

lemma subseq_set: "subseq xs ys \<Longrightarrow> set xs \<subseteq> set ys"
  by (auto elim: list_emb_set)

lemma udp_send_run_subseq: "subseq (fst (udp_send_run turns)) (asked4 turns)"
  by (induction turns rule: asked4.induct)
    (auto simp: recv_data_def case_prod_unfold split: outcome.split)

lemma udp_send_run_all:
  "\<forall>r \<in> set rs. length (fst (rq_data r)) \<le> MAX_UDP_MSG_SIZE \<Longrightarrow>
     fst (udp_send_run (map (\<lambda>r. Received (Some r, Some (n r))) rs)) = map rq_data rs"
  by (induction rs) (auto simp: recv_data_def wrapper_udp_send_to_def case_prod_unfold)

section \<open>Composition\<close>

lemma decode_with_header_receiver:
  "decode_with_header mc S my_name body h = Ok msg \<Longrightarrow> ms_receiver msg = my_name"
  by (cases "verify_header S h body"; cases "from_slice_of mc body")
    (auto simp: decode_with_header_def split: if_splits)

lemma message_decode_receiver: "message_decode hc mc S my_name bs = Ok msg \<Longrightarrow> ms_receiver msg = my_name"
  by (auto simp: message_decode_def Let_def and_then_Ok split: if_splits dest: decode_with_header_receiver)

lemma decode_reply:
  assumes "header_codec_ok hc" and "codes mc enc msg" and "sig_ok S"
    and "100 + length (enc msg) \<le> MAX_UDP_MSG_SIZE" and "ms_sender msg = sg_public S sk"
  shows "message_decode hc mc S (ms_receiver msg) (packet S sk (enc msg)) = Ok msg"
proof -
  have "codec_ok_on (\<lambda>m. m = msg) mc enc" using assms(2) by (simp add: codec_ok_on_def)
  from decode_packet [OF assms(1) this refl assms(3) small_body [OF assms(4)] assms(5) refl, of "[]"]
  show ?thesis by simp
qed

lemma length_encode_and_sign_run:
  "length (fst (encode_and_sign_run hc mc S sh turns)) \<le> length (asked3 turns)"
proof (induction turns rule: asked3.induct)
  case (2 req ca turns)
  obtain chan accepted msg a where x: "ca = (chan, accepted)" "rq_data req = (msg, a)" by (metis prod.exhaust)
  obtain r buf where e: "message_encode hc mc S sh msg (replicate MAX_UDP_MSG_SIZE 0) = (r, buf)"
    by (cases "message_encode hc mc S sh msg (replicate MAX_UDP_MSG_SIZE 0)")
  have "length (snd (request_send chan accepted v)) \<le> 1" for v :: "bytes \<times> socket_addr"
    using request_send_data [of chan accepted v, THEN arg_cong, of length] by (auto split: if_splits)
  note len = this
  show ?case
  proof (cases r)
    case (Ok k)
    then show ?thesis using 2 len [of "(take k buf, a)"] by (simp add: x e recv_data_def case_prod_unfold)
  qed (use 2 in \<open>simp_all add: x e recv_data_def\<close>)
qed (auto simp: recv_data_def)

lemma decode_wrong_sender:
  assumes "header_codec_ok hc" and "codes mc enc msg" and "sig_ok S" and "length (enc msg) \<le> U32_MAX"
    and "ms_sender msg \<noteq> sg_public S sk"
  shows "is_err (message_decode hc mc S receiver (packet S sk (enc msg)))"
proof -
  let ?h = "packet_header S sk (enc msg)"
  have wf: "header_wf ?h" by (rule packet_header_wf [OF assms(3)])
  have "from_slice_of mc (enc msg @ []) = Some (msg, length (enc msg))" using assms(2) unfolding codes_def by blast
  then have "is_err (decode_with_header mc S receiver (enc msg) ?h)"
    using assms(3,5) by (auto simp: decode_with_header_def verify_header_def verify_signature_bytes_def)
  moreover have "slice (packet S sk (enc msg)) 0 100 = Ok (header_bytes ?h)"
    and "slice (packet S sk (enc msg)) 100 (100 + length (enc msg)) = Ok (enc msg)"
    using wf by (simp_all add: slice_def packet_def)
  moreover have "header_decode hc (header_bytes ?h) = Ok ?h"
    using header_decode_bytes [OF assms(1) wf, of "[]"] by simp
  moreover have "unat (word_of_nat (length (enc msg)) :: u32) = length (enc msg)"
    using assms(4) by (simp add: unat_of_nat U32_MAX_def)
  ultimately show ?thesis using assms(3) by (auto simp: message_decode_def header_size_def Let_def)
qed

section \<open>A sample network of two nodes\<close>

text \<open>Two key pairs; a friend (key \<open>False\<close>) talks to the node (key \<open>True\<close>).\<close>

definition pair_sig :: "bool sig_scheme" where
  "pair_sig = \<lparr>sg_public = (\<lambda>sk. replicate 32 (if sk then 1 else 2)),
     sg_sign = (\<lambda>sk m. replicate 64 (if sk then 1 else 2)), sg_key_ok = (\<lambda>_. True),
     sg_verify = (\<lambda>pk m sig. sig = replicate 64 (hd pk))\<rparr>"

lemma pair_sig_ok: "sig_ok pair_sig"
  by (simp add: sig_ok_def pair_sig_def)

lemma pair_sig_keys: "sg_public pair_sig True \<noteq> sg_public pair_sig False"
  by (simp add: pair_sig_def)

definition node_key :: hash where "node_key = sg_public pair_sig True"
definition friend_key :: hash where "friend_key = sg_public pair_sig False"

definition friend_addr :: socket_addr where "friend_addr = ([127, 0, 0, 1], 8080)"

definition friend_info :: node_info where
  "friend_info = node_info_new\<lparr>ni_name := Some friend_key, ni_address := Some [friend_addr]\<rparr>"

text \<open>What the friend says and what the node answers and asks.\<close>

definition to_node :: "payload \<Rightarrow> message" where
  "to_node p = \<lparr>ms_sender = friend_key, ms_timestamp = 5, ms_payload = p, ms_receiver = node_key\<rparr>"

definition to_friend :: "payload \<Rightarrow> message" where
  "to_friend p = message_new 7 node_key friend_key p"

definition pair_messages :: "message list" where
  "pair_messages = [to_node EmptyPayload, to_friend EmptyPayload, to_friend Introduce,
     to_node (IntroduceResp node_info_new)]"

definition pair_mc :: "message codec" where "pair_mc = table_codec pair_messages"
definition pair_enc :: "message \<Rightarrow> bytes" where "pair_enc = table_enc pair_messages"

lemma pair_codes: "m \<in> set pair_messages \<Longrightarrow> codes pair_mc pair_enc m"
  unfolding pair_mc_def pair_enc_def by (rule table_codec_codes) (simp_all add: pair_messages_def)

lemma pair_enc_fits [simp]: "length (pair_enc m) = 1"
  by (simp add: pair_enc_def)

lemma pair_small: "100 + length (pair_enc m) \<le> MAX_UDP_MSG_SIZE"
  by (simp add: MAX_UDP_MSG_SIZE_def)

text \<open>The datagram that carries a message of the friend, and what the node reads in it.\<close>

definition from_friend :: "payload \<Rightarrow> bytes" where
  "from_friend p = packet pair_sig False (pair_enc (to_node p))"

lemma from_friend_decodes:
  assumes "to_node p \<in> set pair_messages"
  shows "message_decode sample_hc pair_mc pair_sig node_key (take MAX_UDP_MSG_SIZE (from_friend p)) = Ok (to_node p)"
proof -
  have "ms_sender (to_node p) = sg_public pair_sig False" "ms_receiver (to_node p) = node_key"
    by (simp_all add: to_node_def friend_key_def)
  with decode_reply [OF sample_hc_ok pair_codes [OF assms] pair_sig_ok pair_small, of False]
  show ?thesis using length_packet [OF pair_sig_ok] by (simp add: from_friend_def MAX_UDP_MSG_SIZE_def)
qed

definition pair_register :: async_register where
  "pair_register = snd (reg_async async_register_new EmptyType (\<lambda>payload. Ok payload))"

lemma pair_register_empty: "async_handle pair_register EmptyPayload = Ok EmptyPayload"
  by (simp add: pair_register_def async.hdl_reg_same)

definition pair_node :: "bool test_node" where
  "pair_node = \<lparr>tn_this_node_info = node_info_new\<lparr>ni_name := Some node_key\<rparr>, tn_sign_handle = None,
     tn_friends = [(friend_key, friend_info)], tn_async_payload_handler = pair_register\<rparr>"

lemma pair_encodes:
  assumes "p \<in> {EmptyPayload, Introduce}" and "MAX_UDP_MSG_SIZE \<le> length buffer"
  shows "\<exists>buf. message_encode sample_hc pair_mc pair_sig (handle_of pair_sig True) (to_friend p) buffer = (Ok 101, buf) \<and>
    length buf = length buffer"
proof -
  have "codec_ok_on (\<lambda>m. m = to_friend p) pair_mc pair_enc"
    using pair_codes [of "to_friend p"] assms(1) by (auto simp: codec_ok_on_def pair_messages_def)
  from message_encode_packet [OF sample_hc_ok this refl pair_sig_ok pair_small assms(2), of True]
  show ?thesis by auto
qed

text \<open>The node asks its friend for a new acquaintance: the question is sent.\<close>

lemma pair_asks:
  "\<exists>r d. make_new sample_hc pair_mc pair_sig (test_node_impl pair_node) 7
     (\<lambda>_. (True, Datagram (from_friend EmptyPayload) friend_addr)) True bound answer pair_node friend_key
     (handle_of pair_sig True) = (r, [(friend_addr, d)])"
proof -
  let ?net = "\<lambda>_ :: socket_addr. (True, Datagram (from_friend EmptyPayload) friend_addr)"
  let ?h = "handle_of pair_sig True"
  have h: "sh_public_key_bytes ?h = node_key" by (simp add: handle_of_def node_key_def)
  have "MAX_UDP_MSG_SIZE \<le> length (replicate MAX_MSG_SIZE (0 :: u8))" by (simp add: MAX_UDP_MSG_SIZE_def MAX_MSG_SIZE_def)
  then obtain b1 where b1: "message_encode sample_hc pair_mc pair_sig ?h (to_friend EmptyPayload) (replicate MAX_MSG_SIZE 0) = (Ok 101, b1)"
    using pair_encodes [of EmptyPayload] by blast
  obtain b2 where b2: "message_encode sample_hc pair_mc pair_sig ?h (to_friend Introduce) (replicate MAX_UDP_MSG_SIZE 0) = (Ok 101, b2)"
    "length b2 = MAX_UDP_MSG_SIZE"
    using pair_encodes [of Introduce "replicate MAX_UDP_MSG_SIZE 0"] by auto
  have "to_node EmptyPayload \<in> set pair_messages" by (simp add: pair_messages_def)
  then have "check_addr_available sample_hc pair_mc pair_sig node_key friend_addr True
      (Datagram (from_friend EmptyPayload) friend_addr) = Ok friend_addr"
    using from_friend_decodes [of EmptyPayload] by (simp add: check_addr_available_def) (simp add: to_node_def)
  with b1 have "check_addresses_available sample_hc pair_mc pair_sig 7 ?net [friend_addr] friend_key ?h = Ok [friend_addr]"
    by (simp add: check_addresses_available_def h Let_def to_friend_def)
  moreover have "\<exists>d. udp_send_to sample_hc pair_mc pair_sig True (to_friend Introduce) ?h = Ok (201, d)"
    using b2 by (simp add: udp_send_to_def header_size_def slice_def MAX_UDP_MSG_SIZE_def)
  then obtain d where "udp_send_to sample_hc pair_mc pair_sig True (to_friend Introduce) ?h = Ok (201, d)" by blast
  moreover have "node_get (test_node_impl pair_node) pair_node friend_key = Some friend_info"
    by (simp add: node_get_def test_node_impl_def pair_node_def)
  moreover have "nodeinfo_of (test_node_impl pair_node) pair_node = Ok (node_info_new\<lparr>ni_name := Some node_key\<rparr>)"
    by (simp add: test_node_impl_def pair_node_def)
  ultimately show ?thesis
    by (simp add: make_new_def friend_info_def info_name_def info_address_def required_def vec_index_def Let_def
        to_friend_def)
qed

section \<open>Properties\<close>

text \<open>The node answers nobody but authenticated senders: whatever the interleaving of its four tasks and
  of the handler children, every datagram it sends goes to the address of a datagram it accepted (one
  that carries a message signed by its sender and addressed to the node), and the sender of that
  message decodes it as a message from the node whose payload is the registered handler's answer; and
  no more datagrams leave than messages were accepted.\<close>

theorem pipeline_answers_authenticated:
  assumes "header_codec_ok hc" and "sig_ok S" and "my_name = sg_public S sk"
    and "prefix (map rq_data (served turns2)) (map rq_data (fst (recv_net_run hc mc S my_name turns1)))"
    and "map fst children = fst (handler_task_run turns2)"
    and "mset (asked3 turns3) \<subseteq># mset (child_sends ar children)"
    and "\<forall>(reply, a) \<in> set (child_sends ar children). codes mc enc reply"
    and "prefix (asked4 turns4) (map rq_data (fst (encode_and_sign_run hc mc S (handle_of S sk) turns3)))"
  shows "(\<forall>(bs, addr) \<in> set (fst (udp_send_run turns4)). \<exists>msg p now.
      accepted_from hc mc S my_name turns1 (msg, addr) \<and> async_handle ar (ms_payload msg) = Ok p \<and>
      message_decode hc mc S (ms_sender msg) bs = Ok (message_new now my_name (ms_sender msg) p)) \<and>
    length (fst (udp_send_run turns4)) \<le> length (fst (recv_net_run hc mc S my_name turns1))"
proof (intro conjI ballI)
  have asked3: "set (asked3 turns3) \<subseteq> set (child_sends ar children)"
    using set_mset_mono [OF assms(6)] by simp
  have cs: "map fst children = map rq_data (served turns2)" using assms(5) by (simp add: handler_task_run_served)
  fix x assume "x \<in> set (fst (udp_send_run turns4))"
  moreover obtain bs addr where x: "x = (bs, addr)" by (cases x)
  ultimately have "(bs, addr) \<in> set (map rq_data (fst (encode_and_sign_run hc mc S (handle_of S sk) turns3)))"
    using subseq_order.order_trans [OF udp_send_run_subseq prefix_imp_subseq [OF assms(8)]]
    using subseq_set by blast
  from encode_and_sign_run_packets [OF assms(1,2) _ this, of enc] asked3 assms(7) obtain reply where
    r: "(reply, addr) \<in> set (child_sends ar children)" "bs = packet S sk (enc reply)"
      "100 + length (enc reply) \<le> MAX_UDP_MSG_SIZE" by blast
  from child_sends_from [OF r(1)] obtain msg p now where
    m: "(msg, addr) \<in> set (map fst children)" "async_handle ar (ms_payload msg) = Ok p"
      "reply = message_new now (ms_receiver msg) (ms_sender msg) p" by blast
  have "(msg, addr) \<in> set (map rq_data (fst (recv_net_run hc mc S my_name turns1)))"
    using set_mono_prefix [OF assms(4)] m(1) unfolding cs by (rule subsetD)
  then have "accepted_from hc mc S my_name turns1 (msg, addr)" by (rule recv_net_run_accepted)
  moreover from this have "ms_receiver msg = my_name"
    by (auto simp: accepted_from_def dest: message_decode_receiver)
  then have reply: "reply = message_new now my_name (ms_sender msg) p" using m(3) by simp
  then have "ms_sender reply = sg_public S sk" "ms_receiver reply = ms_sender msg"
    using assms(3) by (simp_all add: message_new_def)
  moreover have "codes mc enc reply" using r(1) assms(7) by blast
  ultimately have "message_decode hc mc S (ms_sender msg) bs = Ok (message_new now my_name (ms_sender msg) p)"
    using decode_reply [where msg = reply and enc = enc, OF assms(1) _ assms(2) r(3)] reply r(2) by metis
  with \<open>accepted_from hc mc S my_name turns1 (msg, addr)\<close> m(2)
  show "case x of (bs, addr) \<Rightarrow> \<exists>msg p now.
      accepted_from hc mc S my_name turns1 (msg, addr) \<and> async_handle ar (ms_payload msg) = Ok p \<and>
      message_decode hc mc S (ms_sender msg) bs = Ok (message_new now my_name (ms_sender msg) p)"
    unfolding x prod.case by blast
next
  have "length (fst (udp_send_run turns4)) \<le> length (asked4 turns4)"
    by (rule list_emb_length [OF udp_send_run_subseq])
  also have "\<dots> \<le> length (asked3 turns3)"
    using prefix_length_le [OF assms(8)] length_encode_and_sign_run order_trans by fastforce
  also have "\<dots> \<le> length (child_sends ar children)" using size_mset_mono [OF assms(6)] by simp
  also have "\<dots> \<le> length children" by (rule length_child_sends)
  also have "\<dots> = length (served turns2)" using arg_cong [OF assms(5), of length] by (simp add: handler_task_run_served)
  also have "\<dots> \<le> length (fst (recv_net_run hc mc S my_name turns1))" using prefix_length_le [OF assms(4)] by simp
  finally show "length (fst (udp_send_run turns4)) \<le> length (fst (recv_net_run hc mc S my_name turns1))" .
qed

theorem pipeline_answers_authenticated_instance:
  "\<exists>msg p now. accepted_from sample_hc pair_mc pair_sig node_key
      [Received (True, Datagram (from_friend EmptyPayload) friend_addr, 0, True)] (msg, friend_addr) \<and>
    async_handle pair_register (ms_payload msg) = Ok p \<and>
    message_decode sample_hc pair_mc pair_sig (ms_sender msg) (packet pair_sig True (pair_enc (to_friend EmptyPayload))) =
      Ok (message_new now node_key (ms_sender msg) p)"
proof -
  let ?req = "(to_node EmptyPayload, friend_addr)" and ?reply = "(to_friend EmptyPayload, friend_addr)"
  let ?turns1 = "[Received (True, Datagram (from_friend EmptyPayload) friend_addr, 0, True)]"
  let ?turns3 = "[Received (Some \<lparr>rq_sender = 1, rq_data = ?reply\<rparr>, 2, True)]"
  have c: "codes pair_mc pair_enc (to_friend EmptyPayload)" by (rule pair_codes) (simp add: pair_messages_def)
  have in_table: "to_node EmptyPayload \<in> set pair_messages" by (simp add: pair_messages_def)
  have 1: "map rq_data (fst (recv_net_run sample_hc pair_mc pair_sig node_key ?turns1)) = [?req]"
    using from_friend_decodes [OF in_table] by (simp add: udp_recv_from_def send_defs)
  have 2: "child_sends pair_register [(?req, 7, 1, True)] = [?reply]"
    by (simp add: child_sends_def child_task_data)
      (simp add: to_node_def pair_register_empty to_friend_def)
  have cm: "codec_ok_on (\<lambda>m. m = to_friend EmptyPayload) pair_mc pair_enc" using c by (simp add: codec_ok_on_def)
  from message_encode_packet [OF sample_hc_ok cm refl pair_sig_ok pair_small, of "replicate MAX_UDP_MSG_SIZE 0" True]
  have 3: "map rq_data (fst (encode_and_sign_run sample_hc pair_mc pair_sig (handle_of pair_sig True) ?turns3)) =
      [(packet pair_sig True (pair_enc (to_friend EmptyPayload)), friend_addr)]"
    by (auto simp: recv_data_def send_defs)
  let ?packet = "packet pair_sig True (pair_enc (to_friend EmptyPayload))"
  let ?turns4 = "[Received (Some \<lparr>rq_sender = 2, rq_data = (?packet, friend_addr)\<rparr>, Some 101)]"
  have sent: "(?packet, friend_addr) \<in> set (fst (udp_send_run ?turns4))"
    using length_packet [OF pair_sig_ok] by (simp add: recv_data_def wrapper_udp_send_to_def MAX_UDP_MSG_SIZE_def)
  have "\<forall>(bs, addr) \<in> set (fst (udp_send_run ?turns4)).
     \<exists>msg p now. accepted_from sample_hc pair_mc pair_sig node_key ?turns1 (msg, addr) \<and>
      async_handle pair_register (ms_payload msg) = Ok p \<and>
      message_decode sample_hc pair_mc pair_sig (ms_sender msg) bs = Ok (message_new now node_key (ms_sender msg) p)"
    using pipeline_answers_authenticated [OF sample_hc_ok pair_sig_ok node_key_def, of
        "[Received (Some \<lparr>rq_sender = 0, rq_data = ?req\<rparr>)]" pair_mc ?turns1 "[(?req, 7, 1, True)]" ?turns3
        pair_register pair_enc ?turns4]
    by (simp only: 1 2 3) (simp add: recv_data_def c)
  from bspec [OF this sent] show ?thesis unfolding prod.case .
qed

text \<open>A message the node accepts and has a handler for is answered: when every channel on the way
  delivers and the answer fits a datagram, exactly one datagram leaves, to the address the message
  came from, and the sender decodes it as the answer.\<close>

theorem pipeline_delivers_answer:
  assumes "header_codec_ok hc" and "sig_ok S" and "my_name = sg_public S sk"
    and "message_decode hc mc S my_name (take MAX_UDP_MSG_SIZE datagram) = Ok msg"
    and "async_handle ar (ms_payload msg) = Ok p"
    and "reply = message_new now my_name (ms_sender msg) p" and "codes mc enc reply"
    and "100 + length (enc reply) \<le> MAX_UDP_MSG_SIZE"
  shows "let received = fst (recv_net_run hc mc S my_name [Received (True, Datagram datagram addr, c1, True)]);
      children = fst (handler_task_run (map (\<lambda>r. Received (Some r)) received));
      answers = concat (map (child_task ar now c2 True) children);
      packets = fst (encode_and_sign_run hc mc S (handle_of S sk) (map (\<lambda>r. Received (Some r, c3, True)) answers));
      sent = fst (udp_send_run (map (\<lambda>r. Received (Some r, Some n)) packets))
    in sent = [(packet S sk (enc reply), addr)] \<and>
       message_decode hc mc S (ms_sender msg) (packet S sk (enc reply)) = Ok reply"
proof -
  have c: "codec_ok_on (\<lambda>m. m = reply) mc enc" using assms(7) by (simp add: codec_ok_on_def)
  from message_encode_packet [OF assms(1) c refl assms(2,8), of "replicate MAX_UDP_MSG_SIZE 0" sk]
  obtain buf where e: "message_encode hc mc S (handle_of S sk) reply (replicate MAX_UDP_MSG_SIZE 0) =
      (Ok (100 + length (enc reply)), buf)" "take (100 + length (enc reply)) buf = packet S sk (enc reply)"
    by auto
  have "udp_recv_from hc mc S my_name True (Datagram datagram addr) = Ok (msg, addr)"
    using assms(4) by (simp add: udp_recv_from_def)
  moreover have "ms_receiver msg = my_name" using assms(4) by (rule message_decode_receiver)
  moreover have "length (packet S sk (enc reply)) \<le> MAX_UDP_MSG_SIZE" using assms(2,8) by simp
  ultimately show ?thesis
    using e assms(5,6) decode_reply [OF assms(1,7,2,8), of sk] assms(3)
    by (simp add: Let_def send_defs recv_data_def child_task_def
        spawn_handle_def wrapper_udp_send_to_def) (simp add: message_new_def)
qed

theorem pipeline_delivers_answer_instance:
  "let received = fst (recv_net_run sample_hc pair_mc pair_sig node_key
        [Received (True, Datagram (from_friend EmptyPayload) friend_addr, 0, True)]);
      children = fst (handler_task_run (map (\<lambda>r. Received (Some r)) received));
      answers = concat (map (child_task pair_register 7 1 True) children);
      packets = fst (encode_and_sign_run sample_hc pair_mc pair_sig (handle_of pair_sig True)
        (map (\<lambda>r. Received (Some r, 2, True)) answers))
    in fst (udp_send_run (map (\<lambda>r. Received (Some r, Some 101)) packets)) =
       [(packet pair_sig True (pair_enc (to_friend EmptyPayload)), friend_addr)]"
proof -
  have "codes pair_mc pair_enc (to_friend EmptyPayload)" by (rule pair_codes) (simp add: pair_messages_def)
  moreover have "to_friend EmptyPayload = message_new 7 node_key (ms_sender (to_node EmptyPayload)) EmptyPayload"
    by (simp add: to_friend_def to_node_def)
  moreover have "async_handle pair_register (ms_payload (to_node EmptyPayload)) = Ok EmptyPayload"
    by (simp add: to_node_def pair_register_empty)
  moreover have "to_node EmptyPayload \<in> set pair_messages" by (simp add: pair_messages_def)
  ultimately show ?thesis
    using pipeline_delivers_answer [where addr = friend_addr and ?c1.0 = 0 and ?c2.0 = 1 and ?c3.0 = 2 and n = 101
        and enc = pair_enc, OF sample_hc_ok pair_sig_ok node_key_def from_friend_decodes _ _ _ pair_small]
    unfolding Let_def by blast
qed

text \<open>C27: Every packet the signing task hands on fits the 1024 bytes a datagram may have, whatever the codecs,
  the key and the messages are, so the size check of the sending task never refuses one: with a
  working socket every packet leaves, in order and unchanged.\<close>

theorem packets_fit_datagram:
  "list_all (\<lambda>r. length (fst (rq_data r)) \<le> MAX_UDP_MSG_SIZE) (fst (encode_and_sign_run hc mc S sh turns)) \<and>
   fst (udp_send_run (map (\<lambda>r. Received (Some r, Some (n r))) (fst (encode_and_sign_run hc mc S sh turns)))) =
     map rq_data (fst (encode_and_sign_run hc mc S sh turns))"
  using encode_and_sign_run_bound [of _ hc mc S sh turns]
    udp_send_run_all [of "fst (encode_and_sign_run hc mc S sh turns)" n]
  by (simp add: list_all_iff)

text \<open>C12: The chain of tasks refines the one call \<open>msg_delivery\<close>: for a message whose handler returns, the
  packets the signing task makes of the answer are those \<open>msg_delivery\<close>, asking the payload task of
  the same register, hands to its sending worker, also when there is no handler, when the handler
  fails or when the answer is too large, and then there is none and \<open>msg_delivery\<close> reports an error.\<close>

theorem tasks_refine_msg_delivery:
  assumes "header_codec_ok hc" and "sig_ok S" and "returns (async_handle ar (ms_payload msg))"
    and "\<forall>p. async_handle ar (ms_payload msg) = Ok p \<longrightarrow>
      codes mc enc (message_new now (ms_receiver msg) (ms_sender msg) p)"
    and "asked = snd (request_send c True (ms_payload msg))"
    and "answer = reply_for c (fst (async_run ar (\<lambda>_. True) (map (\<lambda>r. Received (Some r)) asked)))"
    and "packets = fst (encode_and_sign_run hc mc S (handle_of S sk)
      (map (\<lambda>r. Received (Some r, c3, True)) (child_task ar now c2 True (msg, addr))))"
    and "msg_delivery hc mc S (handle_of S sk) (c, True) answer now (c', True) msg addr = (result, asked', delivered)"
  shows "asked' = asked \<and> map rq_data packets = map rq_data delivered \<and> (result = Ok () \<longleftrightarrow> packets \<noteq> []) \<and>
    (is_err result \<longleftrightarrow> packets = [])"
proof (cases "async_handle ar (ms_payload msg)")
  case (Ok p)
  let ?reply = "message_new now (ms_receiver msg) (ms_sender msg) p"
  have answer: "answer = Some p"
    by (simp add: assms(5,6) send_defs Ok send_back_def)
  have c: "codes mc enc ?reply" using assms(4) Ok by simp
  then have c': "codec_ok_on (\<lambda>m. m = ?reply) mc enc" by (simp add: codec_ok_on_def)
  have big: "MAX_UDP_MSG_SIZE \<le> length (replicate MAX_MSG_SIZE (0 :: u8))"
    by (simp add: MAX_UDP_MSG_SIZE_def MAX_MSG_SIZE_def)
  have small: "MAX_UDP_MSG_SIZE \<le> length (replicate MAX_UDP_MSG_SIZE (0 :: u8))" by simp
  note run = send_defs recv_data_def child_task_def spawn_handle_def
    msg_delivery_def response_wait_def
  show ?thesis
  proof (cases "100 + length (enc ?reply) \<le> MAX_UDP_MSG_SIZE")
    case True
    from message_encode_packet [OF assms(1) c' refl assms(2) True big, of sk]
      message_encode_packet [OF assms(1) c' refl assms(2) True small, of sk]
    obtain b1 b2 where
      "message_encode hc mc S (handle_of S sk) ?reply (replicate MAX_MSG_SIZE 0) = (Ok (100 + length (enc ?reply)), b1)"
      "message_encode hc mc S (handle_of S sk) ?reply (replicate MAX_UDP_MSG_SIZE 0) = (Ok (100 + length (enc ?reply)), b2)"
      "take (100 + length (enc ?reply)) b1 = take (100 + length (enc ?reply)) b2" by auto
    with assms(5,7,8) Ok answer show ?thesis by (auto simp: run Let_def)
  next
    case False
    then have l: "MAX_UDP_MSG_SIZE < 100 + length (enc ?reply)" by simp
    from message_encode_too_large [OF c l big, of hc S "handle_of S sk"]
      message_encode_too_large [OF c l small, of hc S "handle_of S sk"]
    obtain e1 b1 e2 b2 where
      "message_encode hc mc S (handle_of S sk) ?reply (replicate MAX_MSG_SIZE 0) = (Err e1, b1)"
      "message_encode hc mc S (handle_of S sk) ?reply (replicate MAX_UDP_MSG_SIZE 0) = (Err e2, b2)" by blast
    with assms(5,7,8) Ok answer show ?thesis by (auto simp: run Let_def)
  qed
next
  case (Err e)
  then have "answer = None"
    by (simp add: assms(5,6) send_defs)
  with assms(5,7,8) Err show ?thesis
    by (auto simp: send_defs msg_delivery_def response_wait_def
        child_task_def spawn_handle_def)
qed (use assms(3) in \<open>auto simp: returns_def\<close>)

theorem tasks_refine_msg_delivery_witness:
  "snd (snd (msg_delivery sample_hc pair_mc pair_sig (handle_of pair_sig True) (0, True) (Some EmptyPayload) 7 (1, True)
     (to_node EmptyPayload) friend_addr)) \<noteq> []"
proof -
  let ?asked = "snd (request_send 0 True (ms_payload (to_node EmptyPayload)))"
  let ?answer = "reply_for 0 (fst (async_run pair_register (\<lambda>_. True) (map (\<lambda>r. Received (Some r)) ?asked)))"
  have h: "async_handle pair_register (ms_payload (to_node EmptyPayload)) = Ok EmptyPayload"
    by (simp add: to_node_def pair_register_empty)
  have reply: "message_new 7 (ms_receiver (to_node EmptyPayload)) (ms_sender (to_node EmptyPayload)) EmptyPayload =
      to_friend EmptyPayload" by (simp add: to_node_def to_friend_def)
  have c: "codes pair_mc pair_enc (to_friend EmptyPayload)" by (rule pair_codes) (simp add: pair_messages_def)
  have answer: "?answer = Some EmptyPayload"
    using h by (simp add: send_defs send_back_def)
  obtain buf where e: "message_encode sample_hc pair_mc pair_sig (handle_of pair_sig True) (to_friend EmptyPayload)
      (replicate MAX_UDP_MSG_SIZE 0) = (Ok 101, buf)"
    using pair_encodes [of EmptyPayload "replicate MAX_UDP_MSG_SIZE 0"] by auto
  obtain result asked' delivered where m: "msg_delivery sample_hc pair_mc pair_sig (handle_of pair_sig True) (0, True) ?answer 7
      (1, True) (to_node EmptyPayload) friend_addr = (result, asked', delivered)" by (metis prod.exhaust)
  have "returns (async_handle pair_register (ms_payload (to_node EmptyPayload)))" by (simp add: h returns_def)
  moreover have "\<forall>p. async_handle pair_register (ms_payload (to_node EmptyPayload)) = Ok p \<longrightarrow>
      codes pair_mc pair_enc (message_new 7 (ms_receiver (to_node EmptyPayload)) (ms_sender (to_node EmptyPayload)) p)"
    by (simp add: h reply c)
  ultimately have "map rq_data (fst (encode_and_sign_run sample_hc pair_mc pair_sig (handle_of pair_sig True)
      (map (\<lambda>r. Received (Some r, 3, True)) (child_task pair_register 7 2 True (to_node EmptyPayload, friend_addr))))) =
      map rq_data delivered"
    using tasks_refine_msg_delivery [OF sample_hc_ok pair_sig_ok _ _ refl refl refl m] by blast
  moreover have "child_task pair_register 7 2 True (to_node EmptyPayload, friend_addr) =
      [\<lparr>rq_sender = 2, rq_data = (to_friend EmptyPayload, friend_addr)\<rparr>]"
    using h reply by (simp add: child_task_def spawn_handle_def send_defs)
  ultimately have "delivered \<noteq> []"
    using e by (auto simp: recv_data_def send_defs)
  with m show ?thesis unfolding answer by simp
qed

text \<open>The receiving task ends at the first thing that goes wrong: a quiet spell as long as the timeout or
  one datagram that is not a valid message for the node, from anyone, and whatever arrives afterwards
  is never looked at.\<close>

theorem recv_task_ends_on_error:
  assumes "\<forall>t \<in> set before. \<exists>b a c d x. t = Received (b, a, c, d) \<and> udp_recv_from hc mc S my_name b a = Ok x"
    and "answer = TimedOut \<or> (\<exists>bs addr. answer = Datagram bs addr \<and>
      is_err (message_decode hc mc S my_name (take MAX_UDP_MSG_SIZE bs)))"
  shows "recv_net_run hc mc S my_name (before @ Received (True, answer, chan, accepted) # afterwards) =
    (fst (recv_net_run hc mc S my_name before), Stopped)"
proof -
  have "is_err (udp_recv_from hc mc S my_name True answer)"
    using assms(2) by (auto simp: udp_recv_from_def)
  then have "recv_net_run hc mc S my_name (Received (True, answer, chan, accepted) # afterwards) = ([], Stopped)"
    by (auto simp only: is_err_iff recv_net_run.simps outcome.case)
  then show ?thesis by (simp add: recv_net_run_append [OF assms(1)])
qed

theorem recv_task_ends_on_error_instance:
  "recv_net_run sample_hc pair_mc pair_sig node_key ([] @ Received (True, TimedOut, 0, True) #
     [Received (True, Datagram (from_friend EmptyPayload) friend_addr, 1, True)]) =
   (fst (recv_net_run sample_hc pair_mc pair_sig node_key []), Stopped)"
  by (rule recv_task_ends_on_error) simp_all

text \<open>A new node carries the name of its key and signs under it, but it has no address, so the task that
  receives from the network refuses to start; and after \<open>start_sign_handle\<close> with another identity the
  name stays the old one, so that no receiver accepts what the node then signs.\<close>

theorem new_node_identity:
  assumes "lawful_node N" and "header_codec_ok hc" and "sig_ok S" and "init_new N S sk = Ok n"
    and "start_sign_handle N n (identity_new S sk') = (r, n')" and "sg_public S sk' \<noteq> sg_public S sk"
    and "codes mc enc msg" and "ms_sender msg = sg_public S sk" and "length (enc msg) \<le> U32_MAX"
  shows "and_then (nodeinfo_of N n) info_name = Ok (sg_public S sk) \<and>
    (\<exists>sig. node_sign N S n m = Ok sig \<and> verify_signature_bytes S m (sg_public S sk) sig = Ok ()) \<and>
    spawn_recv_net_task N n = Err (H_Message ''node address is not set'') \<and>
    and_then (nodeinfo_of N n') info_name = Ok (sg_public S sk) \<and> sign_handle_of N n' = Ok (handle_of S sk') \<and>
    is_err (message_decode hc mc S receiver (packet S sk' (enc msg)))"
proof -
  from lawful_node.init_new_Ok [OF assms(1), of S sk] assms(4) have
    n: "nodeinfo_of N n = Ok (node_info_new\<lparr>ni_name := Some (sg_public S sk)\<rparr>)"
      "sign_handle_of N n = Ok (handle_of S sk)" by auto
  from lawful_node.start_sign_handle_Ok [OF assms(1), of n S sk'] assms(5)
  have n': "n' = set_sign_handle_of N n (handle_of S sk')" by simp
  have "is_err (message_decode hc mc S receiver (packet S sk' (enc msg)))"
    by (rule decode_wrong_sender [OF assms(2,7,3,9)]) (use assms(6,8) in simp)
  then show ?thesis
    using n lawful_node.sign_under [OF assms(1) n(2), of m] sig_ok_verify [OF assms(3), of m sk]
      lawful_node.handle_keeps_info [OF assms(1), of n "handle_of S sk'"] lawful_node.handle_set [OF assms(1)]
    by (simp add: n' info_name_def required_def spawn_recv_net_task_def info_address_def node_info_new_def)
qed

theorem new_node_identity_instance:
  "is_err (message_decode sample_hc pair_mc pair_sig friend_key
     (packet pair_sig False (pair_enc (to_friend EmptyPayload))))"
proof -
  let ?N = "test_node_impl pair_node"
  obtain n where n: "init_new ?N pair_sig True = Ok n" using test.init_new_Ok [of pair_node pair_sig True] by blast
  obtain r n' where n': "start_sign_handle ?N n (identity_new pair_sig False) = (r, n')" by (metis surj_pair)
  have "codes pair_mc pair_enc (to_friend EmptyPayload)" by (rule pair_codes) (simp add: pair_messages_def)
  moreover have "ms_sender (to_friend EmptyPayload) = sg_public pair_sig True"
    by (simp add: to_friend_def message_new_def node_key_def)
  ultimately show ?thesis
    using new_node_identity [OF test_node_lawful sample_hc_ok pair_sig_ok n n' pair_sig_keys [symmetric]]
    by (simp add: U32_MAX_def)
qed

text \<open>C28: What \<open>make_new\<close> accepts once its question is out: an \<open>IntroduceResp\<close> in any message that is signed
  by its own sender and addressed to the node, whoever that sender is, as long as it comes from the
  first address listed for the introducer, even when another of its addresses was the one asked.\<close>

theorem make_new_trusts_first_address:
  assumes "make_new hc mc S N now net sock_ok bound (Datagram bs src) n introducer sh = (r, [(dst, d)])"
    and "node_get N n introducer = Some info"
  shows "r = Ok new_info \<longleftrightarrow> bound \<and> (\<exists>addrs. ni_address info = Some addrs \<and> addrs \<noteq> [] \<and> src = hd addrs) \<and>
    (\<exists>msg. message_decode hc mc S (sh_public_key_bytes sh) (take MAX_UDP_MSG_SIZE bs) = Ok msg \<and>
       ms_payload msg = IntroduceResp new_info)"
proof -
  let ?recv = "udp_recv_from hc mc S (sh_public_key_bytes sh) bound (Datagram bs src)"
  let ?rest = "\<lambda>info. and_then ?recv (\<lambda>(msg, src_addr). and_then (info_address info) (\<lambda>addrs.
      and_then (vec_index addrs 0) (\<lambda>first. if src_addr \<noteq> first then Err (H_Message ''response is not from the introducer'')
        else case ms_payload msg of IntroduceResp new_node_info \<Rightarrow> Ok new_node_info
          | _ \<Rightarrow> Err (H_Message ''introduce response for a new node is not valid''))))"
  from assms have "r = ?rest info"
    by (auto simp: make_new_def Let_def case_prod_unfold and_then_Ok split: outcome.splits if_splits)
  have intro_resp: "(case pl of IntroduceResp x \<Rightarrow> Ok x | _ \<Rightarrow> Err e) = Ok y \<longleftrightarrow> pl = IntroduceResp y"
    for pl and e and y by (cases pl) auto
  have "r = Ok new_info \<longleftrightarrow> (\<exists>msg a addrs. ?recv = Ok (msg, a) \<and> ni_address info = Some addrs \<and>
      addrs \<noteq> [] \<and> a = addrs ! 0 \<and> ms_payload msg = IntroduceResp new_info)"
  proof (cases ?recv)
    case (Ok x)
    obtain msg a where x: "x = (msg, a)" by (cases x)
    show ?thesis
    proof (cases "ni_address info")
      case None
      then have "\<And>addrs. info_address info \<noteq> Ok addrs" by (simp add: info_address_def required_def)
      with \<open>r = ?rest info\<close> Ok x None show ?thesis by (simp add: and_then_Ok)
    next
      case (Some addrs)
      then have "info_address info = Ok addrs" by (simp add: info_address_def required_def)
      with \<open>r = ?rest info\<close> Ok x Some show ?thesis
        by (auto simp: intro_resp vec_index_def)
    qed
  qed (use \<open>r = ?rest info\<close> in simp_all)
  also have "\<dots> \<longleftrightarrow> bound \<and> (\<exists>addrs. ni_address info = Some addrs \<and> addrs \<noteq> [] \<and> src = addrs ! 0) \<and>
      (\<exists>msg. message_decode hc mc S (sh_public_key_bytes sh) (take MAX_UDP_MSG_SIZE bs) = Ok msg \<and>
       ms_payload msg = IntroduceResp new_info)"
    unfolding udp_recv_Ok by blast
  finally show ?thesis by (metis hd_conv_nth)
qed

theorem make_new_trusts_first_address_witness:
  "fst (make_new sample_hc pair_mc pair_sig (test_node_impl pair_node) 7
     (\<lambda>_. (True, Datagram (from_friend EmptyPayload) friend_addr)) True True
     (Datagram (from_friend (IntroduceResp node_info_new)) friend_addr) pair_node friend_key
     (handle_of pair_sig True)) = Ok node_info_new"
proof -
  obtain r d where m: "make_new sample_hc pair_mc pair_sig (test_node_impl pair_node) 7
     (\<lambda>_. (True, Datagram (from_friend EmptyPayload) friend_addr)) True True
     (Datagram (from_friend (IntroduceResp node_info_new)) friend_addr) pair_node friend_key
     (handle_of pair_sig True) = (r, [(friend_addr, d)])" using pair_asks by blast
  have "node_get (test_node_impl pair_node) pair_node friend_key = Some friend_info"
    by (simp add: node_get_def test_node_impl_def pair_node_def)
  from make_new_trusts_first_address [OF m this, of node_info_new]
  have "r = Ok node_info_new"
    using from_friend_decodes [of "IntroduceResp node_info_new"]
    by (simp add: friend_info_def handle_of_def node_key_def [symmetric] pair_messages_def)
      (simp add: to_node_def)
  with m show ?thesis by simp
qed

end
