(* ===== verification/NodeSystemDefs.thy ===== *)
theory NodeSystemDefs imports Node begin

text \<open>
  The four tasks of \<open>src/nodes/node.rs\<close> running side by side: a state machine whose steps are single
  turns of the loops in \<open>NodeDefs\<close> and single children of step 2, in any order, over the three
  bounded channels between them. A turn that has to wait for room in the next channel is taken when
  the room is there; what it holds until then no other task can see.

  Two things are taken as fixed for a run: the sign handle (the signer is there for the whole run, or gone
  for the whole run: its cancellation in the middle of one is not modelled), and that the task of step 1 is
  the only one that sends to step 2 (its sender is handed to that task when it is spawned; a copy kept elsewhere would only
  keep the channel of step 2 open).
\<close>

section \<open>Metered systems\<close>

text \<open>A transition system in which every step that counts uses up some weight, and only what arrives
  from outside brings weight in: a run has no more of them than was paid for.\<close>

locale metered =
  fixes step :: "'l \<Rightarrow> 's \<Rightarrow> 's \<Rightarrow> bool"
    and counts :: "'l \<Rightarrow> bool"
    and price :: "'l \<Rightarrow> nat"
    and weight :: "'s \<Rightarrow> nat"
  assumes counted: "step l s s' \<Longrightarrow> counts l \<Longrightarrow> weight s' < weight s"
    and uncounted: "step l s s' \<Longrightarrow> \<not> counts l \<Longrightarrow> weight s' \<le> weight s + price l"
begin

inductive run :: "'s \<Rightarrow> 'l list \<Rightarrow> 's \<Rightarrow> bool" for s where
  run_start: "run s [] s"
| run_step: "run s ls s' \<Longrightarrow> step l s' s'' \<Longrightarrow> run s (ls @ [l]) s''"

lemma budget: "run s ls s' \<Longrightarrow> length (filter counts ls) + weight s' \<le> weight s + sum_list (map price ls)"
proof (induction rule: run.induct)
  case (run_step ls s' l s'')
  then show ?case using counted [of l s' s''] uncounted [of l s' s''] by (cases "counts l") auto
qed simp

lemma at_rest: "weight s = 0 \<Longrightarrow> step l s s' \<Longrightarrow> \<not> counts l"
  using counted by fastforce

end

section \<open>The state\<close>

text \<open>The channels carry the requests of steps 2, 3 and 4; the children are those step 2 has spawned and
  that have not ended; \<open>sy_locked\<close> says that one of them holds the register's lock for ever. The fields
  \<open>sy_heard\<close>, \<open>sy_accepted\<close> and \<open>sy_done\<close> only record what happened: the datagrams that arrived,
  the messages that entered the channel of step 2, and the children that ended, each with the clock
  reading of its answer and whether step 3 took it.\<close>

datatype node_task = RecvTask | HandlerTask | SignTask | SendTask

record node_sys =
  sy_status :: "node_task \<Rightarrow> task_status"
  sy_work :: "(message \<times> socket_addr) request list"
  sy_children :: "(message \<times> socket_addr) multiset"
  sy_answers :: "(message \<times> socket_addr) request list"
  sy_packets :: "(bytes \<times> socket_addr) request list"
  sy_sent :: "(bytes \<times> socket_addr) list"
  sy_heard :: "(bytes \<times> socket_addr) list"
  sy_accepted :: "(message \<times> socket_addr) list"
  sy_done :: "((message \<times> socket_addr) \<times> u64 \<times> bool) list"
  sy_locked :: bool

definition node_start :: node_sys where
  "node_start =
     \<lparr>sy_status = (\<lambda>_. Running), sy_work = [], sy_children = {#}, sy_answers = [], sy_packets = [],
      sy_sent = [], sy_heard = [], sy_accepted = [], sy_done = [],
      sy_locked = False\<rparr>"

text \<open>What the tasks hold: the codecs and the signature scheme, the node's name, its register and its sign handle.\<close>

record 'sk node_env =
  ev_hc :: header_codec
  ev_mc :: "message codec"
  ev_sig :: "'sk sig_scheme"
  ev_name :: hash
  ev_register :: async_register
  ev_handle :: "'sk sign_handle"

text \<open>A task that ends drops its receiver, and what is in its channel with it.\<close>

fun task_ends :: "node_task \<Rightarrow> task_status \<Rightarrow> node_sys \<Rightarrow> node_sys" where
  "task_ends t Running s = s"
| "task_ends t st s =
     (let s = s\<lparr>sy_status := (sy_status s)(t := st)\<rparr> in
      case t of
        RecvTask \<Rightarrow> s
      | HandlerTask \<Rightarrow> s\<lparr>sy_work := []\<rparr>
      | SignTask \<Rightarrow> s\<lparr>sy_answers := []\<rparr>
      | SendTask \<Rightarrow> s\<lparr>sy_packets := []\<rparr>)"

definition heard_from :: "recv_answer \<Rightarrow> (bytes \<times> socket_addr) list" where
  "heard_from answer = (case answer of Datagram bs addr \<Rightarrow> [(bs, addr)] | _ \<Rightarrow> [])"

section \<open>The steps\<close>

text \<open>\<open>Receive\<close>: a turn of step 1 (whether the socket was bound, its answer); \<open>Spawn\<close>: a turn of step 2;
  \<open>Finish\<close>: a child, with its clock reading (it holds the register's lock while its handler runs);
  \<open>Hang\<close>: a child whose handler never returns takes the lock; \<open>Sign\<close>: a turn of step 3; \<open>Deliver\<close>: a turn of step 4, with
  the socket's answer; \<open>Spin\<close>: a turn of a task whose channel is empty and has no sender left, where
  \<open>recv\<close> returns at once; \<open>Cancel\<close>: the cancellation of a task.\<close>

datatype node_label =
  Receive bool recv_answer | Spawn | Finish "message \<times> socket_addr" u64 | Hang | Sign | Deliver "nat option"
| Spin node_task | Cancel node_task

inductive node_step :: "'sk node_env \<Rightarrow> node_label \<Rightarrow> node_sys \<Rightarrow> node_sys \<Rightarrow> bool" for E where
  receive:
    "sy_status s RecvTask = Running \<Longrightarrow>
     recv_net_run (ev_hc E) (ev_mc E) (ev_sig E) (ev_name E)
       [Received (bound, answer, chan, sy_status s HandlerTask = Running)] = (reqs, st) \<Longrightarrow>
     length (sy_work s) + length reqs \<le> CHANNEL_CAPACITY \<Longrightarrow>
     node_step E (Receive bound answer) s
       (task_ends RecvTask st
          (s\<lparr>sy_work := sy_work s @ reqs, sy_heard := sy_heard s @ heard_from answer,
             sy_accepted := sy_accepted s @ map rq_data reqs\<rparr>))"
| spawn:
    "sy_status s HandlerTask = Running \<Longrightarrow> sy_work s = req # rest \<Longrightarrow>
     handler_task_run [Received (Some req)] = (cs, st) \<Longrightarrow>
     node_step E Spawn s (s\<lparr>sy_work := rest, sy_children := sy_children s + mset cs\<rparr>)"
| finish:
    "ma \<in># sy_children s \<Longrightarrow> \<not> sy_locked s \<Longrightarrow>
     spawn_handle (ev_register E) now chan (sy_status s SignTask = Running) ma = (r, sent) \<Longrightarrow>
     r \<noteq> Diverge \<Longrightarrow> length (sy_answers s) + length sent \<le> CHANNEL_CAPACITY \<Longrightarrow>
     node_step E (Finish ma now) s
       (s\<lparr>sy_children := sy_children s - {#ma#}, sy_answers := sy_answers s @ sent,
          sy_done := sy_done s @ [(ma, now, sy_status s SignTask = Running)]\<rparr>)"
| hang:
    "(msg, addr) \<in># sy_children s \<Longrightarrow> \<not> sy_locked s \<Longrightarrow>
     async_handle (ev_register E) (ms_payload msg) = Diverge \<Longrightarrow>
     node_step E Hang s (s\<lparr>sy_locked := True\<rparr>)"
| sign:
    "sy_status s SignTask = Running \<Longrightarrow> sy_answers s = req # rest \<Longrightarrow>
     encode_and_sign_run (ev_hc E) (ev_mc E) (ev_sig E) (ev_handle E)
       [Received (Some req, chan, sy_status s SendTask = Running)] = (ps, st) \<Longrightarrow>
     length (sy_packets s) + length ps \<le> CHANNEL_CAPACITY \<Longrightarrow>
     node_step E Sign s (task_ends SignTask st (s\<lparr>sy_answers := rest, sy_packets := sy_packets s @ ps\<rparr>))"
| deliver:
    "sy_status s SendTask = Running \<Longrightarrow> sy_packets s = req # rest \<Longrightarrow>
     udp_send_run [Received (Some req, answer)] = (ds, st) \<Longrightarrow>
     node_step E (Deliver answer) s (s\<lparr>sy_packets := rest, sy_sent := sy_sent s @ ds\<rparr>)"
| spin_handler:
    "sy_status s HandlerTask = Running \<Longrightarrow> sy_work s = [] \<Longrightarrow> sy_status s RecvTask \<noteq> Running \<Longrightarrow>
     node_step E (Spin HandlerTask) s s"
| spin_sign:
    "sy_status s SignTask = Running \<Longrightarrow> sy_answers s = [] \<Longrightarrow> sy_status s HandlerTask \<noteq> Running \<Longrightarrow>
     sy_children s = {#} \<Longrightarrow> node_step E (Spin SignTask) s s"
| spin_send:
    "sy_status s SendTask = Running \<Longrightarrow> sy_packets s = [] \<Longrightarrow> sy_status s SignTask \<noteq> Running \<Longrightarrow>
     node_step E (Spin SendTask) s s"
| cancel:
    "sy_status s t = Running \<Longrightarrow> node_step E (Cancel t) s (task_ends t Stopped s)"

inductive node_run :: "'sk node_env \<Rightarrow> node_label list \<Rightarrow> node_sys \<Rightarrow> bool" for E where
  node_run_start: "node_run E [] node_start"
| node_run_step: "node_run E ls s \<Longrightarrow> node_step E l s s' \<Longrightarrow> node_run E (ls @ [l]) s'"

text \<open>The steps that do work, and what a datagram brings in.\<close>

fun works :: "node_label \<Rightarrow> bool" where
  "works Spawn = True"
| "works (Finish _ _) = True"
| "works Sign = True"
| "works (Deliver _) = True"
| "works _ = False"

fun receives :: "node_label \<Rightarrow> bool" where
  "receives (Receive _ _) = True"
| "receives _ = False"

definition node_weight :: "node_sys \<Rightarrow> nat" where
  "node_weight s = 4 * length (sy_work s) + 3 * size (sy_children s) + 2 * length (sy_answers s) + length (sy_packets s)"

lemma task_ends_fields [simp]:
  "sy_children (task_ends t st s) = sy_children s" "sy_sent (task_ends t st s) = sy_sent s"
  "sy_heard (task_ends t st s) = sy_heard s" "sy_accepted (task_ends t st s) = sy_accepted s"
  "sy_done (task_ends t st s) = sy_done s" "sy_locked (task_ends t st s) = sy_locked s"
  by (cases st; cases t; simp add: Let_def)+

lemma task_ends_queues:
  "sy_work (task_ends t st s) = (if t = HandlerTask \<and> st \<noteq> Running then [] else sy_work s)"
  "sy_answers (task_ends t st s) = (if t = SignTask \<and> st \<noteq> Running then [] else sy_answers s)"
  "sy_packets (task_ends t st s) = (if t = SendTask \<and> st \<noteq> Running then [] else sy_packets s)"
  by (cases st; cases t; simp add: Let_def)+

lemma task_ends_status:
  "st \<noteq> Running \<or> sy_status s t = Running \<Longrightarrow> sy_status (task_ends t st s) = (sy_status s)(t := st)"
  by (cases st; cases t; auto simp: Let_def fun_eq_iff)

declare task_ends.simps [simp del]

lemma node_weight_task_ends: "node_weight (task_ends t st s) \<le> node_weight s"
  by (simp add: node_weight_def task_ends_queues)

lemma request_send_at_most_one: "length (snd (request_send chan accepted x)) \<le> 1"
  by (simp add: send_defs)

lemma recv_turn_at_most_one: "length (fst (recv_net_run hc mc S n [Received (b, a, c, d)])) \<le> 1"
  using request_send_at_most_one by (auto simp: case_prod_unfold split: outcome.split)

lemma sign_turn_at_most_one: "length (fst (encode_and_sign_run hc mc S sh [Received (Some req, c, a)])) \<le> 1"
  using length_encode_and_sign_run [of hc mc S sh "[Received (Some req, c, a)]"] by simp

lemma spawn_handle_at_most_one: "length (snd (spawn_handle ar now c a ma)) \<le> 1"
proof -
  obtain msg addr where Pair: "ma = (msg, addr)" by (metis surj_pair)
  have "map rq_data (snd (spawn_handle ar now c a ma)) =
      (case async_handle ar (ms_payload msg) of
       Ok p \<Rightarrow> if a then [(message_new now (ms_receiver msg) (ms_sender msg) p, addr)] else [] | _ \<Rightarrow> [])"
    using child_task_data [of ar now c a msg addr] by (simp add: child_task_def Pair)
  from arg_cong [OF this, of length] show ?thesis by (simp split: outcome.splits if_splits)
qed

interpretation node: metered "node_step E" works "\<lambda>l. if receives l then 4 else 0" node_weight
  for E :: "'sk node_env"
proof
  fix l s s' assume "node_step E l s s'" and "works l"
  then show "node_weight s' < node_weight s"
  proof cases
    case (spawn req rest cs st)
    then have "length cs \<le> 1" by (auto simp: recv_data_def)
    with spawn show ?thesis by (simp add: node_weight_def)
  next
    case (finish ma now chan r sent)
    have "length sent \<le> 1" using spawn_handle_at_most_one [of "ev_register E" now chan "sy_status s SignTask = Running" ma] finish by simp
    with finish show ?thesis by (auto simp: node_weight_def size_Diff_singleton dest!: multi_member_split)
  next
    case (sign req rest chan ps st)
    have "length ps \<le> 1" using sign_turn_at_most_one sign by (metis fst_conv)
    then have "node_weight (s\<lparr>sy_answers := rest, sy_packets := sy_packets s @ ps\<rparr>) < node_weight s"
      using sign by (simp add: node_weight_def)
    with order_le_less_trans [OF node_weight_task_ends] show ?thesis unfolding sign(1,2) by blast
  next
    case (deliver req rest answer ds st)
    then show ?thesis by (simp add: node_weight_def)
  qed simp_all
next
  fix l s s' assume "node_step E l s s'" and "\<not> works l"
  then show "node_weight s' \<le> node_weight s + (if receives l then 4 else 0)"
  proof cases
    case (receive bound answer chan reqs st)
    have "length reqs \<le> 1" using recv_turn_at_most_one receive by (metis fst_conv)
    then have "node_weight (s\<lparr>sy_work := sy_work s @ reqs, sy_heard := sy_heard s @ heard_from answer,
        sy_accepted := sy_accepted s @ map rq_data reqs\<rparr>) \<le> node_weight s + 4"
      by (simp add: node_weight_def)
    with order_trans [OF node_weight_task_ends] show ?thesis unfolding receive(1,2) by simp
  next
    case (hang msg addr)
    then show ?thesis by (simp add: node_weight_def)
  next
    case (cancel t)
    show ?thesis unfolding cancel(1,2) by (simp add: node_weight_task_ends)
  qed (simp_all only: works.simps simp_thms le_add1)
qed

lemma node_run_metered: "node_run E ls s \<Longrightarrow> metered.run (node_step E) node_start ls s"
  by (induction rule: node_run.induct) (auto intro: node.run_start node.run_step)

lemma node_run_budget: "node_run E ls s \<Longrightarrow> length (filter works ls) + node_weight s \<le> 4 * length (filter receives ls)"
proof -
  assume "node_run E ls s"
  from node.budget [OF node_run_metered [OF this]]
  have "length (filter works ls) + node_weight s \<le> sum_list (map (\<lambda>l. if receives l then 4 else 0) ls)"
    by (simp add: node_weight_def node_start_def)
  also have "sum_list (map (\<lambda>l. if receives l then 4 else 0) ls) = 4 * length (filter receives ls)"
    by (induction ls) auto
  finally show ?thesis .
qed

end
