(* ===== verification/NodeSystem.thy ===== *)
theory NodeSystem imports NodeSystemDefs begin

text \<open>
  What the running node promises, for every interleaving of its tasks: the invariants of the steps of
  \<open>NodeSystemDefs\<close> by rule induction, and what they give for the datagrams it sends.
\<close>

section \<open>What a turn does\<close>

text \<open>A message whose sender is known: a datagram that arrived carries it, signed by its sender and
  addressed to the node.\<close>

definition authentic :: "'sk node_env \<Rightarrow> (bytes \<times> socket_addr) list \<Rightarrow> message \<times> socket_addr \<Rightarrow> bool" where
  "authentic E heard ma \<longleftrightarrow>
     (\<exists>bs. (bs, snd ma) \<in> set heard \<and>
        message_decode (ev_hc E) (ev_mc E) (ev_sig E) (ev_name E) (take MAX_UDP_MSG_SIZE bs) = Ok (fst ma))"

text \<open>What a child sends on, and what all that have ended have sent on.\<close>

fun answer_of :: "'sk node_env \<Rightarrow> (message \<times> socket_addr) \<times> u64 \<times> bool \<Rightarrow> (message \<times> socket_addr) list" where
  "answer_of E ((msg, addr), now, taken) =
     (case async_handle (ev_register E) (ms_payload msg) of
        Ok p \<Rightarrow> if taken then [(message_new now (ms_receiver msg) (ms_sender msg) p, addr)] else []
      | _ \<Rightarrow> [])"

definition answers_of :: "'sk node_env \<Rightarrow> node_sys \<Rightarrow> (message \<times> socket_addr) list" where
  "answers_of E s = concat (map (answer_of E) (sy_done s))"

lemma recv_turn:
  assumes "recv_net_run hc mc S my_name [Received (bound, answer, chan, taken)] = (reqs, st)"
  shows "reqs = [] \<or> (\<exists>bs addr msg. answer = Datagram bs addr \<and> map rq_data reqs = [(msg, addr)] \<and> taken \<and>
    message_decode hc mc S my_name (take MAX_UDP_MSG_SIZE bs) = Ok msg)"
proof (cases "udp_recv_from hc mc S my_name bound answer")
  case (Ok y)
  obtain msg addr where y: "y = (msg, addr)" by (cases y)
  with Ok obtain bs where d: "answer = Datagram bs addr"
    "message_decode hc mc S my_name (take MAX_UDP_MSG_SIZE bs) = Ok msg" by (auto simp: udp_recv_Ok)
  from Ok y assms request_send_data [of chan taken "(msg, addr)"]
  have "map rq_data reqs = (if taken then [(msg, addr)] else [])" by (auto simp: case_prod_unfold)
  with d show ?thesis by (auto split: if_splits)
qed (use assms in simp_all)

lemma spawn_turn: "handler_task_run [Received (Some req)] = (cs, st) \<Longrightarrow> cs = [rq_data req] \<and> st = Running"
  by (auto simp: recv_data_def)

lemma finish_turn:
  assumes "spawn_handle (ev_register E) now chan taken ma = (r, sent)"
  shows "map rq_data sent = answer_of E (ma, now, taken)"
proof -
  obtain msg addr where ma: "ma = (msg, addr)" by (metis surj_pair)
  from child_task_data [of "ev_register E" now chan taken msg addr] assms show ?thesis
    by (simp add: child_task_def ma)
qed

lemma sign_turn_addr:
  assumes "encode_and_sign_run hc mc S sh [Received (Some req, chan, taken)] = (ps, st)"
  shows "ps = [] \<or> (\<exists>bs. map rq_data ps = [(bs, snd (rq_data req))])"
proof -
  obtain msg a where ma: "rq_data req = (msg, a)" by (cases "rq_data req")
  obtain r buf where e: "message_encode hc mc S sh msg (replicate MAX_UDP_MSG_SIZE 0) = (r, buf)"
    by (cases "message_encode hc mc S sh msg (replicate MAX_UDP_MSG_SIZE 0)")
  show ?thesis
  proof (cases r)
    case (Ok n)
    with assms request_send_data [of chan taken "(take n buf, a)"] show ?thesis
      by (auto simp: ma e recv_data_def case_prod_unfold split: if_splits)
  qed (use assms in \<open>auto simp: ma e recv_data_def\<close>)
qed

text \<open>The datagram of an answer, when it fits.\<close>

fun packet_of :: "'sk sig_scheme \<Rightarrow> 'sk \<Rightarrow> (message \<Rightarrow> bytes) \<Rightarrow> message \<times> socket_addr \<Rightarrow> (bytes \<times> socket_addr) list" where
  "packet_of S sk enc (reply, addr) =
     (if 100 + length (enc reply) \<le> MAX_UDP_MSG_SIZE then [(packet S sk (enc reply), addr)] else [])"

lemma sign_turn:
  assumes "header_codec_ok hc" and "sig_ok S" and "codes mc enc (fst (rq_data req))"
    and "encode_and_sign_run hc mc S (handle_of S sk) [Received (Some req, chan, taken)] = (ps, st)"
  shows "st = Running \<and> map rq_data ps = (if taken then packet_of S sk enc (rq_data req) else [])"
proof -
  obtain msg a where ma: "rq_data req = (msg, a)" by (cases "rq_data req")
  then have c: "codes mc enc msg" using assms(3) by simp
  then have c': "codec_ok_on (\<lambda>m. m = msg) mc enc" by (simp add: codec_ok_on_def)
  show ?thesis
  proof (cases "100 + length (enc msg) \<le> MAX_UDP_MSG_SIZE")
    case True
    from message_encode_packet [OF assms(1) c' refl assms(2) True, of "replicate MAX_UDP_MSG_SIZE 0" sk] obtain buf
      where "message_encode hc mc S (handle_of S sk) msg (replicate MAX_UDP_MSG_SIZE 0) = (Ok (100 + length (enc msg)), buf)"
        "take (100 + length (enc msg)) buf = packet S sk (enc msg)" by auto
    with assms(4) request_send_data [of chan taken "(packet S sk (enc msg), a)"] True show ?thesis
      by (auto simp: ma recv_data_def case_prod_unfold)
  next
    case False
    then have "MAX_UDP_MSG_SIZE < 100 + length (enc msg)" by simp
    from message_encode_too_large [OF c this, of "replicate MAX_UDP_MSG_SIZE 0" hc S "handle_of S sk"] obtain e buf
      where "message_encode hc mc S (handle_of S sk) msg (replicate MAX_UDP_MSG_SIZE 0) = (Err e, buf)" by auto
    with assms(4) False show ?thesis by (auto simp: ma recv_data_def)
  qed
qed

lemma deliver_turn:
  assumes "udp_send_run [Received (Some req, answer)] = (ds, st)"
  shows "ds = [] \<or> ds = [rq_data req]"
    and "answer \<noteq> None \<Longrightarrow> length (fst (rq_data req)) \<le> MAX_UDP_MSG_SIZE \<Longrightarrow> ds = [rq_data req]"
  using assms
  by (auto simp: recv_data_def wrapper_udp_send_to_def case_prod_unfold split: outcome.splits option.splits if_splits)

section \<open>Nobody is answered who did not ask\<close>

text \<open>Where everything in the system comes from.\<close>

definition node_origin :: "'sk node_env \<Rightarrow> node_sys \<Rightarrow> bool" where
  "node_origin E s \<longleftrightarrow>
     (\<forall>ma \<in> rq_data ` set (sy_work s) \<union> set_mset (sy_children s) \<union> fst ` set (sy_done s). authentic E (sy_heard s) ma) \<and>
     rq_data ` set (sy_answers s) \<subseteq> set (answers_of E s)"

text \<open>The addresses of what is under way and of what was sent were all heard from, each at least as often.\<close>

definition addresses :: "node_sys \<Rightarrow> socket_addr multiset" where
  "addresses s =
     image_mset (snd \<circ> rq_data) (mset (sy_work s)) + image_mset snd (sy_children s) +
     image_mset (snd \<circ> rq_data) (mset (sy_answers s)) + image_mset (snd \<circ> rq_data) (mset (sy_packets s)) +
     image_mset snd (mset (sy_sent s))"

definition node_bounded :: "node_sys \<Rightarrow> bool" where
  "node_bounded s \<longleftrightarrow> length (sy_work s) \<le> CHANNEL_CAPACITY \<and> length (sy_answers s) \<le> CHANNEL_CAPACITY \<and>
     length (sy_packets s) \<le> CHANNEL_CAPACITY"

lemma authentic_more: "authentic E heard ma \<Longrightarrow> authentic E (heard @ later) ma"
  by (auto simp: authentic_def)

lemma node_step_origin: "node_step E l s s' \<Longrightarrow> node_origin E s \<Longrightarrow> node_origin E s'"
proof (induction rule: node_step.induct)
  case (receive s bound answer chan reqs st)
  have "authentic E (sy_heard s @ heard_from answer) ma" if "ma \<in> rq_data ` set reqs" for ma
  proof -
    have "ma \<in> set (map rq_data reqs)" using that by simp
    with recv_turn [OF receive(2)] show ?thesis by (auto simp: authentic_def heard_from_def)
  qed
  with receive(4) show ?case
    by (auto simp: node_origin_def task_ends_queues answers_of_def intro: authentic_more)
next
  case (spawn s req rest cs st)
  with spawn_turn [OF spawn(3)] show ?case by (auto simp: node_origin_def answers_of_def)
next
  case (finish ma s now chan r sent)
  from finish(6) have "ma \<in># sy_children s" "authentic E (sy_heard s) ma"
    using finish(1) by (auto simp: node_origin_def)
  moreover have "rq_data ` set sent = set (answer_of E (ma, now, sy_status s SignTask = Running))"
    using finish_turn [OF finish(3), THEN arg_cong, of set] by simp
  ultimately show ?case using finish(6) by (auto simp: node_origin_def answers_of_def dest: in_diffD)
next
  case (sign s req rest chan ps st)
  then show ?case by (auto simp: node_origin_def task_ends_queues answers_of_def)
qed (auto simp: node_origin_def task_ends_queues answers_of_def)

lemma addresses_task_ends: "addresses (task_ends t st s) \<subseteq># addresses s"
  by (auto simp: addresses_def task_ends_queues intro!: subset_mset.add_mono)

lemma node_step_addresses:
  "node_step E l s s' \<Longrightarrow> addresses s \<subseteq># image_mset snd (mset (sy_heard s)) \<Longrightarrow>
     addresses s' \<subseteq># image_mset snd (mset (sy_heard s'))"
proof (induction rule: node_step.induct)
  case (receive s bound answer chan reqs st)
  have "image_mset (snd \<circ> rq_data) (mset reqs) = mset (map snd (map rq_data reqs))" by simp
  also have "\<dots> \<subseteq># mset (map snd (heard_from answer))"
    using recv_turn [OF receive(2)] by (auto simp: heard_from_def simp del: map_map mset_map)
  finally have new: "image_mset (snd \<circ> rq_data) (mset reqs) \<subseteq># image_mset snd (mset (heard_from answer))" by simp
  let ?s = "s\<lparr>sy_work := sy_work s @ reqs, sy_heard := sy_heard s @ heard_from answer,
    sy_accepted := sy_accepted s @ map rq_data reqs\<rparr>"
  have "addresses ?s = addresses s + image_mset (snd \<circ> rq_data) (mset reqs)" by (simp add: addresses_def)
  also have "\<dots> \<subseteq># image_mset snd (mset (sy_heard s)) + image_mset snd (mset (heard_from answer))"
    by (rule subset_mset.add_mono [OF receive(4) new])
  finally show ?case
    using subset_mset.order_trans [OF addresses_task_ends [of RecvTask st ?s]] by simp
next
  case (spawn s req rest cs st)
  with spawn_turn [OF spawn(3)] show ?case by (simp add: addresses_def)
next
  case (finish ma s now chan r sent)
  have "image_mset (snd \<circ> rq_data) (mset sent) = mset (map snd (map rq_data sent))" by simp
  also have "\<dots> \<subseteq># {#snd ma#}"
    unfolding finish_turn [OF finish(3)] by (cases ma) (simp split: outcome.split)
  finally have "image_mset (snd \<circ> rq_data) (mset sent) \<subseteq># {#snd ma#}" .
  moreover obtain M where "sy_children s = add_mset ma M" using finish(1) by (blast dest: multi_member_split)
  ultimately have "addresses (s\<lparr>sy_children := sy_children s - {#ma#}, sy_answers := sy_answers s @ sent,
      sy_done := sy_done s @ [(ma, now, sy_status s SignTask = Running)]\<rparr>) \<subseteq># addresses s"
    by (auto simp: addresses_def intro: subset_mset.add_mono)
  with finish(6) show ?case by (simp add: subset_mset.order_trans)
next
  case (sign s req rest chan ps st)
  have "image_mset (snd \<circ> rq_data) (mset ps) = mset (map snd (map rq_data ps))" by simp
  also have "\<dots> \<subseteq># {#snd (rq_data req)#}"
    using sign_turn_addr [OF sign(3)] by (auto simp del: map_map mset_map)
  finally have "image_mset (snd \<circ> rq_data) (mset ps) \<subseteq># {#snd (rq_data req)#}" .
  with sign(2) have "addresses (s\<lparr>sy_answers := rest, sy_packets := sy_packets s @ ps\<rparr>) \<subseteq># addresses s"
    by (simp add: addresses_def subset_mset.add_mono)
  with sign(5) show ?case using subset_mset.order_trans [OF addresses_task_ends] subset_mset.order_trans by fastforce
next
  case (deliver s req rest answer ds st)
  from deliver_turn(1) [OF deliver(3)] deliver(2) have "addresses (s\<lparr>sy_packets := rest, sy_sent := sy_sent s @ ds\<rparr>) \<subseteq># addresses s"
    by (auto simp: addresses_def)
  with deliver(4) show ?case by (simp add: subset_mset.order_trans)
next
  case (cancel s t)
  then show ?case using subset_mset.order_trans [OF addresses_task_ends] by simp
qed (simp_all add: addresses_def)

lemma node_step_bounded: "node_step E l s s' \<Longrightarrow> node_bounded s \<Longrightarrow> node_bounded s'"
  by (induction rule: node_step.induct) (auto simp: node_bounded_def task_ends_queues)

text \<open>The packets and the datagrams are those of answers.\<close>

definition node_packed :: "'sk node_env \<Rightarrow> 'sk \<Rightarrow> (message \<Rightarrow> bytes) \<Rightarrow> node_sys \<Rightarrow> bool" where
  "node_packed E sk enc s \<longleftrightarrow>
     rq_data ` set (sy_packets s) \<union> set (sy_sent s) \<subseteq> (\<Union>ma \<in> set (answers_of E s). set (packet_of (ev_sig E) sk enc ma))"

lemma answers_of_step: "node_step E l s s' \<Longrightarrow> set (answers_of E s) \<subseteq> set (answers_of E s')"
  by (induction rule: node_step.induct) (auto simp: answers_of_def)

lemma Un_subset_trans: "A' \<subseteq> A \<Longrightarrow> X \<subseteq> Y \<Longrightarrow> A \<union> B \<subseteq> X \<Longrightarrow> A' \<union> B \<subseteq> Y"
  by blast

lemma node_packed_less:
  assumes "node_packed E sk enc s" and "set (sy_packets s') \<subseteq> set (sy_packets s)" and "sy_sent s' = sy_sent s"
    and "set (answers_of E s) \<subseteq> set (answers_of E s')"
  shows "node_packed E sk enc s'"
proof -
  have "(\<Union>ma \<in> set (answers_of E s). set (packet_of (ev_sig E) sk enc ma)) \<subseteq>
      (\<Union>ma \<in> set (answers_of E s'). set (packet_of (ev_sig E) sk enc ma))"
    using assms(4) by (rule UN_mono) simp
  from Un_subset_trans [OF image_mono [OF assms(2)] this assms(1) [unfolded node_packed_def]]
  show ?thesis unfolding node_packed_def assms(3) .
qed

lemma node_step_packed:
  assumes "node_step E l s s'" and "node_packed E sk enc s" and "rq_data ` set (sy_answers s) \<subseteq> set (answers_of E s)"
    and "header_codec_ok (ev_hc E)" and "sig_ok (ev_sig E)" and "ev_handle E = handle_of (ev_sig E) sk"
    and "\<forall>(reply, a) \<in> set (answers_of E s). codes (ev_mc E) enc reply"
  shows "node_packed E sk enc s'"
  using assms
proof (induction rule: node_step.induct)
  case (sign s req rest chan ps st)
  obtain reply a where r: "rq_data req = (reply, a)" by (cases "rq_data req")
  with sign(2,6,10) have m: "(reply, a) \<in> set (answers_of E s)" "codes (ev_mc E) enc reply" by auto
  then have "codes (ev_mc E) enc (fst (rq_data req))" using r by simp
  from sign_turn [OF sign(7,8) this sign(3) [unfolded sign(9)]]
  have "set (map rq_data ps) \<subseteq> set (packet_of (ev_sig E) sk enc (reply, a))" using r by auto
  moreover have "set (packet_of (ev_sig E) sk enc (reply, a)) \<subseteq>
      (\<Union>ma \<in> set (answers_of E s). set (packet_of (ev_sig E) sk enc ma))" using m(1) by blast
  ultimately have "rq_data ` set ps \<subseteq> (\<Union>ma \<in> set (answers_of E s). set (packet_of (ev_sig E) sk enc ma))" by simp
  with sign(5) show ?case by (auto simp: node_packed_def task_ends_queues answers_of_def simp del: packet_of.simps)
next
  case (deliver s req rest answer ds st)
  have "set ds \<subseteq> {rq_data req}" using deliver_turn(1) [OF deliver(3)] by auto
  moreover have "answers_of E (s\<lparr>sy_packets := rest, sy_sent := sy_sent s @ ds\<rparr>) = answers_of E s"
    by (simp add: answers_of_def)
  moreover let ?X = "\<Union>ma \<in> set (answers_of E s). set (packet_of (ev_sig E) sk enc ma)"
  have "rq_data req \<in> ?X" "rq_data ` set rest \<subseteq> ?X" "set (sy_sent s) \<subseteq> ?X"
    using deliver(2,4) by (simp_all add: node_packed_def del: packet_of.simps)
  ultimately show ?case unfolding node_packed_def by (simp del: packet_of.simps UN_simps) blast
next
  case (finish ma s now chan r sent)
  have "set (answers_of E s) \<subseteq> set (answers_of E (s\<lparr>sy_children := sy_children s - {#ma#}, sy_answers := sy_answers s @ sent,
      sy_done := sy_done s @ [(ma, now, sy_status s SignTask = Running)]\<rparr>))" by (simp add: answers_of_def)
  then show ?case by (rule node_packed_less [OF finish(6), rotated 2]) simp_all
next
  case (receive s bound answer chan reqs st)
  from receive(4) show ?case by (rule node_packed_less) (simp_all add: task_ends_queues answers_of_def)
next
  case (cancel s t)
  from cancel(2) show ?case by (rule node_packed_less) (simp_all add: task_ends_queues answers_of_def)
next
  case (spawn s req rest cs st)
  from spawn(4) show ?case by (rule node_packed_less) (simp_all add: answers_of_def)
next
  case (hang msg addr s)
  from hang(4) show ?case by (rule node_packed_less) (simp_all add: answers_of_def)
qed

lemma node_run_basic:
  "node_run E ls s \<Longrightarrow> node_origin E s \<and> node_bounded s \<and> addresses s \<subseteq># image_mset snd (mset (sy_heard s))"
proof (induction rule: node_run.induct)
  case node_run_start
  show ?case by (simp add: node_origin_def node_bounded_def addresses_def node_start_def)
next
  case (node_run_step ls s l s')
  then show ?case using node_step_origin node_step_bounded node_step_addresses by blast
qed

lemma node_run_packed:
  assumes "node_run E ls s"
    and "header_codec_ok (ev_hc E)" and "sig_ok (ev_sig E)" and "ev_handle E = handle_of (ev_sig E) sk"
    and "\<forall>(reply, a) \<in> set (answers_of E s). codes (ev_mc E) enc reply"
  shows "node_packed E sk enc s"
  using assms(1,5)
proof (induction rule: node_run.induct)
  case node_run_start
  show ?case by (simp add: node_packed_def node_start_def)
next
  case (node_run_step ls s l s')
  have c: "\<forall>(reply, a) \<in> set (answers_of E s). codes (ev_mc E) enc reply"
    using node_run_step.prems answers_of_step [OF node_run_step.hyps(2)] by blast
  have "rq_data ` set (sy_answers s) \<subseteq> set (answers_of E s)"
    using node_run_basic [OF node_run_step.hyps(1)] by (simp add: node_origin_def)
  from node_step_packed [OF node_run_step.hyps(2) node_run_step.IH [OF c] this assms(2-4) c] show ?case .
qed

section \<open>Everybody who asked is answered\<close>

text \<open>The labels of a run that loses nothing: no task is cancelled and the socket sends.\<close>

fun loses :: "node_label \<Rightarrow> bool" where
  "loses (Cancel _) = True"
| "loses (Deliver answer) = (answer = None)"
| "loses _ = False"

definition node_whole :: "'sk node_env \<Rightarrow> 'sk \<Rightarrow> (message \<Rightarrow> bytes) \<Rightarrow> node_sys \<Rightarrow> bool" where
  "node_whole E sk enc s \<longleftrightarrow>
     (\<forall>t. t \<noteq> RecvTask \<longrightarrow> sy_status s t = Running) \<and> list_all (\<lambda>(ma, now, taken). taken) (sy_done s) \<and>
     mset (sy_accepted s) = mset (map rq_data (sy_work s)) + sy_children s + mset (map fst (sy_done s)) \<and>
     sy_sent s @ map rq_data (sy_packets s) @ concat (map (packet_of (ev_sig E) sk enc) (map rq_data (sy_answers s))) =
       concat (map (packet_of (ev_sig E) sk enc) (answers_of E s))"

lemma packed_fits:
  assumes "node_packed E sk enc s" and "req \<in> set (sy_packets s)" and "sig_ok (ev_sig E)"
  shows "length (fst (rq_data req)) \<le> MAX_UDP_MSG_SIZE"
proof -
  from assms(1,2) have "rq_data req \<in> (\<Union>ma \<in> set (answers_of E s). set (packet_of (ev_sig E) sk enc ma))"
    unfolding node_packed_def by blast
  then obtain ma where "rq_data req \<in> set (packet_of (ev_sig E) sk enc ma)" by blast
  with assms(3) show ?thesis by (cases ma) (auto split: if_splits)
qed

lemma node_step_whole:
  assumes "node_step E l s s'" and "node_whole E sk enc s" and "\<not> loses l"
    and "header_codec_ok (ev_hc E)" and "sig_ok (ev_sig E)" and "ev_handle E = handle_of (ev_sig E) sk"
    and "\<forall>(reply, a) \<in> set (answers_of E s). codes (ev_mc E) enc reply"
    and "node_packed E sk enc s" and "rq_data ` set (sy_answers s) \<subseteq> set (answers_of E s)"
  shows "node_whole E sk enc s'"
  using assms
proof (induction rule: node_step.induct)
  case (receive s bound answer chan reqs st)
  then show ?case
    by (simp add: node_whole_def task_ends_queues task_ends_status answers_of_def del: recv_net_run.simps)
next
  case (spawn s req rest cs st)
  with spawn_turn [OF spawn(3)] show ?case by (simp add: node_whole_def answers_of_def)
next
  case (finish ma s now chan r sent)
  obtain M where "sy_children s = add_mset ma M" using finish(1) by (blast dest: multi_member_split)
  moreover have "sy_status s SignTask = Running" using finish(6) by (simp add: node_whole_def)
  moreover have "map rq_data sent = answer_of E (ma, now, sy_status s SignTask = Running)"
    by (rule finish_turn [OF finish(3)])
  ultimately show ?case using finish(6)
    by (simp add: node_whole_def answers_of_def del: answer_of.simps packet_of.simps)
next
  case (sign s req rest chan ps st)
  obtain reply a where r: "rq_data req = (reply, a)" by (cases "rq_data req")
  with sign(2,10,12) have "codes (ev_mc E) enc (fst (rq_data req))" by auto
  from sign_turn [OF sign(7,8) this sign(3) [unfolded sign(9)]] sign(5)
  have "st = Running" "map rq_data ps = packet_of (ev_sig E) sk enc (rq_data req)"
    by (auto simp: node_whole_def)
  with sign(2,5) show ?case by (simp add: node_whole_def answers_of_def task_ends.simps del: packet_of.simps)
next
  case (deliver s req rest answer ds st)
  have "length (fst (rq_data req)) \<le> MAX_UDP_MSG_SIZE"
    using packed_fits [OF deliver(10) _ deliver(7)] deliver(2) by simp
  with deliver_turn(2) [OF deliver(3)] deliver(5) have "ds = [rq_data req]" by simp
  with deliver(2,4) show ?case by (simp add: node_whole_def answers_of_def del: packet_of.simps)
qed (simp_all add: node_whole_def answers_of_def)

lemma node_run_whole:
  assumes "node_run E ls s" and "list_all (Not \<circ> loses) ls"
    and "header_codec_ok (ev_hc E)" and "sig_ok (ev_sig E)" and "ev_handle E = handle_of (ev_sig E) sk"
    and "\<forall>(reply, a) \<in> set (answers_of E s). codes (ev_mc E) enc reply"
  shows "node_whole E sk enc s"
  using assms(1,2,6)
proof (induction rule: node_run.induct)
  case node_run_start
  show ?case by (simp add: node_whole_def node_start_def answers_of_def)
next
  case (node_run_step ls s l s')
  have c: "\<forall>(reply, a) \<in> set (answers_of E s). codes (ev_mc E) enc reply"
    using node_run_step.prems answers_of_step [OF node_run_step.hyps(2)] by blast
  have "rq_data ` set (sy_answers s) \<subseteq> set (answers_of E s)"
    using node_run_basic [OF node_run_step.hyps(1)] by (simp add: node_origin_def)
  moreover have "node_whole E sk enc s" "\<not> loses l" using node_run_step c by simp_all
  ultimately show ?case
    using node_step_whole [OF node_run_step.hyps(2) _ _ assms(3-5) c node_run_packed [OF node_run_step.hyps(1) assms(3-5) c]]
    by blast
qed

lemma spawn_handle_Diverge:
  "spawn_handle ar now chan taken (msg, addr) = (Diverge, sent) \<Longrightarrow> async_handle ar (ms_payload msg) = Diverge"
  by (cases "async_handle ar (ms_payload msg)") (auto simp: spawn_handle_def send_defs Let_def split: if_splits)

lemma node_run_unlocked:
  "node_run E ls s \<Longrightarrow> \<forall>p. async_handle (ev_register E) p \<noteq> Diverge \<Longrightarrow> \<not> sy_locked s"
proof (induction rule: node_run.induct)
  case node_run_start
  show ?case by (simp add: node_start_def)
next
  case (node_run_step ls s l s')
  from node_run_step.hyps(2) node_run_step.IH [OF node_run_step.prems] node_run_step.prems show ?case
    by (induction rule: node_step.induct) auto
qed

lemma node_progress:
  assumes "\<forall>t. t \<noteq> RecvTask \<longrightarrow> sy_status s t = Running" and "\<not> sy_locked s"
    and "\<forall>p. async_handle (ev_register E) p \<noteq> Diverge" and "0 < node_weight s"
  shows "\<exists>l s'. works l \<and> \<not> loses l \<and> node_step E l s s'"
proof -
  have cap: "Suc 0 \<le> CHANNEL_CAPACITY" by (simp add: CHANNEL_CAPACITY_def)
  consider (packets) req rest where "sy_packets s = req # rest"
    | (answers) req rest where "sy_packets s = []" "sy_answers s = req # rest"
    | (children) ma where "sy_answers s = []" "ma \<in># sy_children s"
    | (work) req rest where "sy_work s = req # rest"
  proof -
    have "sy_work s \<noteq> [] \<or> sy_children s \<noteq> {#} \<or> sy_answers s \<noteq> [] \<or> sy_packets s \<noteq> []"
      using assms(4) by (auto simp: node_weight_def)
    then show thesis using that by (metis list.exhaust multiset_nonemptyE)
  qed
  then show ?thesis
  proof cases
    case packets
    obtain ds st where "udp_send_run [Received (Some req, Some 0)] = (ds, st)" by (metis surj_pair)
    with node_step.deliver [OF _ packets this, of E] assms(1) have "\<exists>s'. node_step E (Deliver (Some 0)) s s'" by blast
    then show ?thesis by (intro exI [of _ "Deliver (Some 0)"]) simp
  next
    case answers
    obtain ps st where e: "encode_and_sign_run (ev_hc E) (ev_mc E) (ev_sig E) (ev_handle E)
        [Received (Some req, 0, sy_status s SendTask = Running)] = (ps, st)" by (metis surj_pair)
    have "length ps \<le> 1"
      using sign_turn_at_most_one [of "ev_hc E" "ev_mc E" "ev_sig E" "ev_handle E" req 0 "sy_status s SendTask = Running"]
      by (simp only: e fst_conv)
    with answers(1) cap have "length (sy_packets s) + length ps \<le> CHANNEL_CAPACITY" by simp
    with node_step.sign [OF _ answers(2) e] assms(1) have "\<exists>s'. node_step E Sign s s'" by blast
    then show ?thesis by (intro exI [of _ Sign]) simp
  next
    case children
    obtain r sent where e: "spawn_handle (ev_register E) 0 0 (sy_status s SignTask = Running) ma = (r, sent)"
      by (metis surj_pair)
    moreover obtain msg addr where "ma = (msg, addr)" by (metis surj_pair)
    ultimately have "r \<noteq> Diverge" using assms(3) spawn_handle_Diverge by metis
    moreover have "length sent \<le> 1"
      using spawn_handle_at_most_one [of "ev_register E" 0 0 "sy_status s SignTask = Running" ma] by (simp only: e snd_conv)
    then have "length (sy_answers s) + length sent \<le> CHANNEL_CAPACITY" using children(1) cap by simp
    ultimately have "\<exists>s'. node_step E (Finish ma 0) s s'" using node_step.finish [OF children(2) assms(2) e] by blast
    then show ?thesis by (intro exI [of _ "Finish ma 0"]) simp
  next
    case work
    obtain cs st where "handler_task_run [Received (Some req)] = (cs, st)" by (metis surj_pair)
    with node_step.spawn [OF _ work this, of E] assms(1) have "\<exists>s'. node_step E Spawn s s'" by blast
    then show ?thesis by (intro exI [of _ Spawn]) simp
  qed
qed

section \<open>A sample run\<close>

text \<open>The node of \<open>Node\<close> and its friend, which sends one message from some address and gets its answer there.\<close>

definition pair_env :: "bool node_env" where
  "pair_env = \<lparr>ev_hc = sample_hc, ev_mc = pair_mc, ev_sig = pair_sig, ev_name = node_key,
     ev_register = pair_register, ev_handle = handle_of pair_sig True\<rparr>"

definition pair_datagram :: "socket_addr \<Rightarrow> recv_answer" where
  "pair_datagram src = Datagram (from_friend EmptyPayload) src"

definition pair_labels :: "socket_addr \<Rightarrow> node_label list" where
  "pair_labels src = [Receive True (pair_datagram src), Spawn, Finish (to_node EmptyPayload, src) 7, Sign, Deliver (Some 101)]"

definition pair_packet :: "socket_addr \<Rightarrow> bytes \<times> socket_addr" where
  "pair_packet src = (packet pair_sig True (pair_enc (to_friend EmptyPayload)), src)"

definition pair_final :: "socket_addr \<Rightarrow> node_sys" where
  "pair_final src = node_start\<lparr>sy_sent := [pair_packet src], sy_heard := [(from_friend EmptyPayload, src)],
     sy_accepted := [(to_node EmptyPayload, src)],
     sy_done := [((to_node EmptyPayload, src), 7, True)]\<rparr>"

lemma receive_ok:
  assumes "sy_status s RecvTask = Running" and "sy_status s HandlerTask = Running"
    and "length (sy_work s) < CHANNEL_CAPACITY"
    and "message_decode (ev_hc E) (ev_mc E) (ev_sig E) (ev_name E) (take MAX_UDP_MSG_SIZE bs) = Ok msg"
  shows "node_step E (Receive True (Datagram bs addr)) s
    (s\<lparr>sy_work := sy_work s @ [\<lparr>rq_sender = chan, rq_data = (msg, addr)\<rparr>], sy_heard := sy_heard s @ [(bs, addr)],
       sy_accepted := sy_accepted s @ [(msg, addr)]\<rparr>)"
proof -
  have "udp_recv_from (ev_hc E) (ev_mc E) (ev_sig E) (ev_name E) True (Datagram bs addr) = Ok (msg, addr)"
    using assms(4) by (simp add: udp_recv_from_def)
  then have "recv_net_run (ev_hc E) (ev_mc E) (ev_sig E) (ev_name E)
      [Received (True, Datagram bs addr, chan, sy_status s HandlerTask = Running)] =
      ([\<lparr>rq_sender = chan, rq_data = (msg, addr)\<rparr>], Running)"
    using assms(2) by (simp add: send_defs)
  from node_step.receive [OF assms(1) this] assms(3) show ?thesis
    by (simp add: task_ends.simps heard_from_def)
qed

lemma spawn_ok:
  "sy_status s HandlerTask = Running \<Longrightarrow> sy_work s = req # rest \<Longrightarrow>
     node_step E Spawn s (s\<lparr>sy_work := rest, sy_children := sy_children s + {#rq_data req#}\<rparr>)"
  using node_step.spawn [of s req rest "[rq_data req]" Running E] by (simp add: recv_data_def)

lemma pair_answer: "spawn_handle pair_register 7 1 True (to_node EmptyPayload, src) =
    (Ok (), [\<lparr>rq_sender = 1, rq_data = (to_friend EmptyPayload, src)\<rparr>])"
  using pair_register_empty by (simp add: spawn_handle_def send_defs to_node_def to_friend_def)

lemma pair_signed: "encode_and_sign_run sample_hc pair_mc pair_sig (handle_of pair_sig True)
    [Received (Some \<lparr>rq_sender = 1, rq_data = (to_friend EmptyPayload, src)\<rparr>, 2, True)] =
    ([\<lparr>rq_sender = 2, rq_data = pair_packet src\<rparr>], Running)"
proof -
  have "codec_ok_on (\<lambda>m. m = to_friend EmptyPayload) pair_mc pair_enc"
    using pair_codes [of "to_friend EmptyPayload"] by (simp add: codec_ok_on_def pair_messages_def)
  from message_encode_packet [OF sample_hc_ok this refl pair_sig_ok pair_small, of "replicate MAX_UDP_MSG_SIZE 0" True]
  show ?thesis by (auto simp: recv_data_def send_defs pair_packet_def)
qed

lemma pair_run: "node_run pair_env (pair_labels src) (pair_final src)"
proof -
  let ?req = "\<lparr>rq_sender = 0, rq_data = (to_node EmptyPayload, src)\<rparr>"
    and ?reply = "\<lparr>rq_sender = 1, rq_data = (to_friend EmptyPayload, src)\<rparr>"
  let ?h = "node_start\<lparr>sy_heard := [(from_friend EmptyPayload, src)],
    sy_accepted := [(to_node EmptyPayload, src)]\<rparr>"
  let ?d = "[((to_node EmptyPayload, src), 7, True)]"
  have cap: "0 < CHANNEL_CAPACITY" by (simp add: CHANNEL_CAPACITY_def)
  have "message_decode (ev_hc pair_env) (ev_mc pair_env) (ev_sig pair_env) (ev_name pair_env)
      (take MAX_UDP_MSG_SIZE (from_friend EmptyPayload)) = Ok (to_node EmptyPayload)"
    using from_friend_decodes [of EmptyPayload] by (simp add: pair_env_def pair_messages_def)
  from receive_ok [OF _ _ _ this, of node_start src 0] cap
  have 1: "node_step pair_env (Receive True (pair_datagram src)) node_start (?h\<lparr>sy_work := [?req]\<rparr>)"
    by (simp add: node_start_def pair_datagram_def)
  from spawn_ok [of "?h\<lparr>sy_work := [?req]\<rparr>" ?req "[]" pair_env]
  have 2: "node_step pair_env Spawn (?h\<lparr>sy_work := [?req]\<rparr>) (?h\<lparr>sy_children := {#(to_node EmptyPayload, src)#}\<rparr>)"
    by (simp add: node_start_def)
  from node_step.finish [of "(to_node EmptyPayload, src)"
      "?h\<lparr>sy_children := {#(to_node EmptyPayload, src)#}\<rparr>" pair_env 7 1 "Ok ()" "[?reply]"] pair_answer cap
  have 3: "node_step pair_env (Finish (to_node EmptyPayload, src) 7)
      (?h\<lparr>sy_children := {#(to_node EmptyPayload, src)#}\<rparr>) (?h\<lparr>sy_answers := [?reply], sy_done := ?d\<rparr>)"
    by (simp add: node_start_def pair_env_def)
  from node_step.sign [of "?h\<lparr>sy_answers := [?reply], sy_done := ?d\<rparr>" ?reply "[]" pair_env 2
      "[\<lparr>rq_sender = 2, rq_data = pair_packet src\<rparr>]" Running] pair_signed cap
  have 4: "node_step pair_env Sign (?h\<lparr>sy_answers := [?reply], sy_done := ?d\<rparr>)
      (?h\<lparr>sy_packets := [\<lparr>rq_sender = 2, rq_data = pair_packet src\<rparr>], sy_done := ?d\<rparr>)"
    by (simp add: node_start_def pair_env_def task_ends.simps del: encode_and_sign_run.simps)
  have "udp_send_run [Received (Some \<lparr>rq_sender = 2, rq_data = pair_packet src\<rparr>, Some 101)] = ([pair_packet src], Running)"
    using length_packet [OF pair_sig_ok] by (simp add: recv_data_def wrapper_udp_send_to_def pair_packet_def MAX_UDP_MSG_SIZE_def)
  with node_step.deliver [of "?h\<lparr>sy_packets := [\<lparr>rq_sender = 2, rq_data = pair_packet src\<rparr>], sy_done := ?d\<rparr>"
      "\<lparr>rq_sender = 2, rq_data = pair_packet src\<rparr>" "[]" "Some 101" "[pair_packet src]" Running pair_env]
  have 5: "node_step pair_env (Deliver (Some 101))
      (?h\<lparr>sy_packets := [\<lparr>rq_sender = 2, rq_data = pair_packet src\<rparr>], sy_done := ?d\<rparr>) (pair_final src)"
    by (simp add: node_start_def pair_final_def del: udp_send_run.simps)
  from node_run_step [OF node_run_step [OF node_run_step [OF node_run_step [OF node_run_step
      [OF node_run_start 1] 2] 3] 4] 5]
  show ?thesis by (simp add: pair_labels_def)
qed

lemma pair_env_fields [simp]:
  "ev_hc pair_env = sample_hc" "ev_mc pair_env = pair_mc" "ev_sig pair_env = pair_sig" "ev_name pair_env = node_key"
  "ev_register pair_env = pair_register" "ev_handle pair_env = handle_of pair_sig True"
  by (simp_all add: pair_env_def)

lemma pair_final_answers: "answers_of pair_env (pair_final src) = [(to_friend EmptyPayload, src)]"
  using pair_register_empty by (simp add: answers_of_def pair_final_def pair_env_def to_node_def to_friend_def)

lemma pair_final_coded: "\<forall>(reply, a) \<in> set (answers_of pair_env (pair_final src)). codes (ev_mc pair_env) pair_enc reply"
  using pair_codes [of "to_friend EmptyPayload"] by (simp add: pair_final_answers pair_messages_def)

section \<open>A deaf node\<close>

lemma bad_answer:
  assumes "answer = TimedOut \<or> (\<exists>bs addr. answer = Datagram bs addr \<and>
      is_err (message_decode hc mc S my_name (take MAX_UDP_MSG_SIZE bs)))"
  shows "recv_net_run hc mc S my_name [Received (True, answer, chan, taken)] = ([], Stopped)"
proof -
  have "is_err (udp_recv_from hc mc S my_name True answer)" using assms by (auto simp: udp_recv_from_def)
  then show ?thesis by (auto simp only: is_err_iff recv_net_run.simps outcome.case)
qed

lemma deaf_step:
  "node_step E l s s' \<Longrightarrow> sy_status s RecvTask \<noteq> Running \<Longrightarrow>
     sy_status s' RecvTask \<noteq> Running \<and> sy_accepted s' = sy_accepted s \<and> sy_heard s' = sy_heard s"
proof (induction rule: node_step.induct)
  case (sign s req rest chan ps st)
  then show ?case by (cases st) (simp_all add: task_ends.simps Let_def)
next
  case (cancel s t)
  then show ?case by (cases t) (simp_all add: task_ends.simps Let_def)
qed simp_all

lemma deaf_run:
  "metered.run (node_step E) s ls s' \<Longrightarrow> sy_status s RecvTask \<noteq> Running \<Longrightarrow>
     sy_status s' RecvTask \<noteq> Running \<and> sy_accepted s' = sy_accepted s \<and> sy_heard s' = sy_heard s"
proof (induction rule: node.run.induct)
  case (run_step ls s' l s'')
  then show ?case using deaf_step by metis
qed simp

text \<open>A node that has nothing left to do and does not listen.\<close>

lemma idle_steps:
  assumes "node_weight s = 0" and "sy_status s RecvTask \<noteq> Running" and "node_step E l s s'"
  shows "s' = s \<or> (\<exists>t. l = Cancel t)"
  using assms(3)
proof cases
  case (hang msg addr)
  with assms(1) show ?thesis by (simp add: node_weight_def)
qed (use assms(1,2) node.at_rest [OF assms(1,3)] in simp_all)

section \<open>A handler that hangs\<close>

text \<open>The lock of the register is held while a handler runs: once one of them does not return, no child
  ends any more.\<close>

lemma hanging_handler_blocks:
  "node_step E l s s' \<Longrightarrow> sy_locked s \<Longrightarrow> sy_locked s' \<and> sy_done s' = sy_done s"
  by (induction rule: node_step.induct) simp_all

lemma hanging_handler_blocks_run:
  "metered.run (node_step E) s ls s' \<Longrightarrow> sy_locked s \<Longrightarrow> sy_locked s' \<and> sy_done s' = sy_done s"
  by (induction rule: node.run.induct) (auto dest: hanging_handler_blocks)

section \<open>Properties\<close>

text \<open>C5: The node answers nobody who did not ask: however the turns of its four tasks and its children
  interleave, whatever datagrams arrive, tasks are cancelled or sockets fail, every datagram it sends
  goes to the address of a datagram it received that carries a message signed by its sender and
  addressed to the node, and the sender of that message decodes it as a message from the node whose
  payload is the registered handler's answer; no address is sent more datagrams than came from it; and
  no channel ever holds more than its capacity.\<close>

theorem node_answers_authenticated:
  assumes "header_codec_ok (ev_hc E)" and "sig_ok (ev_sig E)" and "ev_name E = sg_public (ev_sig E) sk"
    and "ev_handle E = handle_of (ev_sig E) sk" and "node_run E ls s"
    and "\<forall>(reply, a) \<in> set (answers_of E s). codes (ev_mc E) enc reply"
  shows "(\<forall>(bs, addr) \<in> set (sy_sent s). \<exists>d msg p now. (d, addr) \<in> set (sy_heard s) \<and>
      message_decode (ev_hc E) (ev_mc E) (ev_sig E) (ev_name E) (take MAX_UDP_MSG_SIZE d) = Ok msg \<and>
      async_handle (ev_register E) (ms_payload msg) = Ok p \<and>
      message_decode (ev_hc E) (ev_mc E) (ev_sig E) (ms_sender msg) bs = Ok (message_new now (ev_name E) (ms_sender msg) p)) \<and>
    image_mset snd (mset (sy_sent s)) \<subseteq># image_mset snd (mset (sy_heard s)) \<and> node_bounded s"
proof (intro conjI ballI)
  note basic = node_run_basic [OF assms(5)]
  fix x assume "x \<in> set (sy_sent s)"
  moreover obtain bs addr where x: "x = (bs, addr)" by (cases x)
  ultimately obtain reply a where r: "(reply, a) \<in> set (answers_of E s)"
    and pk: "(bs, addr) \<in> set (packet_of (ev_sig E) sk enc (reply, a))"
    using node_run_packed [OF assms(5,1,2,4,6)] unfolding node_packed_def by (auto simp del: packet_of.simps)
  from pk have bs: "addr = a" "bs = packet (ev_sig E) sk (enc reply)" "100 + length (enc reply) \<le> MAX_UDP_MSG_SIZE"
    by (auto split: if_splits)
  from r obtain msg now p where m: "(msg, a) \<in> fst ` set (sy_done s)" "async_handle (ev_register E) (ms_payload msg) = Ok p"
    "reply = message_new now (ms_receiver msg) (ms_sender msg) p"
    by (force simp: answers_of_def split: outcome.splits if_splits)
  from m(1) basic have "authentic E (sy_heard s) (msg, a)" by (simp add: node_origin_def)
  then obtain d where d: "(d, a) \<in> set (sy_heard s)"
    "message_decode (ev_hc E) (ev_mc E) (ev_sig E) (ev_name E) (take MAX_UDP_MSG_SIZE d) = Ok msg"
    by (auto simp: authentic_def)
  have "ms_receiver msg = ev_name E" by (rule message_decode_receiver [OF d(2)])
  with m(3) have reply: "reply = message_new now (ev_name E) (ms_sender msg) p" by simp
  then have "ms_sender reply = sg_public (ev_sig E) sk" "ms_receiver reply = ms_sender msg"
    using assms(3) by (simp_all add: message_new_def)
  moreover have "codes (ev_mc E) enc reply" using r assms(6) by blast
  ultimately have "message_decode (ev_hc E) (ev_mc E) (ev_sig E) (ms_sender msg) bs = Ok reply"
    using decode_reply [where msg = reply and enc = enc, OF assms(1) _ assms(2) bs(3)] bs(2) by metis
  with d m(2) reply bs(1) show "case x of (bs, addr) \<Rightarrow> \<exists>d msg p now. (d, addr) \<in> set (sy_heard s) \<and>
      message_decode (ev_hc E) (ev_mc E) (ev_sig E) (ev_name E) (take MAX_UDP_MSG_SIZE d) = Ok msg \<and>
      async_handle (ev_register E) (ms_payload msg) = Ok p \<and>
      message_decode (ev_hc E) (ev_mc E) (ev_sig E) (ms_sender msg) bs = Ok (message_new now (ev_name E) (ms_sender msg) p)"
    unfolding x prod.case by blast
next
  have "image_mset snd (mset (sy_sent s)) \<subseteq># addresses s" by (simp add: addresses_def)
  with node_run_basic [OF assms(5)] show "image_mset snd (mset (sy_sent s)) \<subseteq># image_mset snd (mset (sy_heard s))"
    using subset_mset.order_trans by blast
  from node_run_basic [OF assms(5)] show "node_bounded s" by blast
qed

theorem node_answers_authenticated_witness:
  "\<exists>d msg p now. (d, friend_addr) \<in> set (sy_heard (pair_final friend_addr)) \<and>
    message_decode sample_hc pair_mc pair_sig node_key (take MAX_UDP_MSG_SIZE d) = Ok msg \<and>
    async_handle pair_register (ms_payload msg) = Ok p \<and>
    message_decode sample_hc pair_mc pair_sig (ms_sender msg) (fst (pair_packet friend_addr)) = Ok (message_new now node_key (ms_sender msg) p)"
  using node_answers_authenticated [of pair_env True, OF _ _ _ _ pair_run [of friend_addr] pair_final_coded [of friend_addr]]
  by (simp add: sample_hc_ok pair_sig_ok node_key_def [symmetric] pair_final_def pair_packet_def)

text \<open>C8: Everybody who asked is answered: as long as no task is cancelled, the socket sends and the handlers
  return, a run of the node cannot go on for ever without new datagrams (at most four steps of work
  for each one received) and only stops working when every message it accepted has been handled and the
  datagrams sent are, in the order the children ended, those of all the answers that fit: the sender
  of each accepted message that has a handler gets the answer.\<close>

theorem node_answers_everyone:
  assumes "header_codec_ok (ev_hc E)" and "sig_ok (ev_sig E)" and "ev_handle E = handle_of (ev_sig E) sk"
    and "node_run E ls s" and "list_all (Not \<circ> loses) ls" and "\<forall>p. async_handle (ev_register E) p \<noteq> Diverge"
    and "\<forall>(reply, a) \<in> set (answers_of E s). codes (ev_mc E) enc reply"
  shows "length (filter works ls) \<le> 4 * length (filter receives ls) \<and>
    ((\<exists>l s'. works l \<and> \<not> loses l \<and> node_step E l s s') \<or>
     mset (map fst (sy_done s)) = mset (sy_accepted s) \<and>
     sy_sent s = concat (map (packet_of (ev_sig E) sk enc) (answers_of E s)) \<and>
     (\<forall>(msg, addr) \<in> set (sy_accepted s). \<forall>p. async_handle (ev_register E) (ms_payload msg) = Ok p \<longrightarrow>
        (\<exists>now. let reply = message_new now (ev_name E) (ms_sender msg) p in
           100 + length (enc reply) \<le> MAX_UDP_MSG_SIZE \<longrightarrow> (packet (ev_sig E) sk (enc reply), addr) \<in> set (sy_sent s))))"
proof (intro conjI)
  from node_run_budget [OF assms(4)] show "length (filter works ls) \<le> 4 * length (filter receives ls)" by simp
  have whole: "node_whole E sk enc s" by (rule node_run_whole [OF assms(4,5,1,2,3,7)])
  note basic = node_run_basic [OF assms(4)]
  show "(\<exists>l s'. works l \<and> \<not> loses l \<and> node_step E l s s') \<or> (mset (map fst (sy_done s)) = mset (sy_accepted s) \<and>
     sy_sent s = concat (map (packet_of (ev_sig E) sk enc) (answers_of E s)) \<and>
     (\<forall>(msg, addr) \<in> set (sy_accepted s). \<forall>p. async_handle (ev_register E) (ms_payload msg) = Ok p \<longrightarrow>
        (\<exists>now. let reply = message_new now (ev_name E) (ms_sender msg) p in
           100 + length (enc reply) \<le> MAX_UDP_MSG_SIZE \<longrightarrow> (packet (ev_sig E) sk (enc reply), addr) \<in> set (sy_sent s))))"
    (is "?goes_on \<or> ?all \<and> ?sent \<and> ?each")
  proof (cases "node_weight s = 0")
    case False
    with node_progress [of s E] whole node_run_unlocked [OF assms(4,6)] assms(6) show ?thesis
      by (simp add: node_whole_def)
  next
    case True
    then have rest: "sy_work s = []" "sy_children s = {#}" "sy_answers s = []" "sy_packets s = []"
      by (simp_all add: node_weight_def)
    then have all: "?all" and sent: "?sent" and taken: "list_all (\<lambda>(ma, now, taken). taken) (sy_done s)"
      using whole by (simp_all add: node_whole_def)
    have "?each"
    proof clarify
      fix msg :: message and addr :: socket_addr and p
      assume "(msg, addr) \<in> set (sy_accepted s)" and h: "async_handle (ev_register E) (ms_payload msg) = Ok p"
      then have "(msg, addr) \<in> set (map fst (sy_done s))" using all by (metis set_mset_mset)
      then obtain now where d: "((msg, addr), now, True) \<in> set (sy_done s)" using taken by (fastforce simp: list_all_iff)
      then have "(msg, addr) \<in> fst ` set (sy_done s)" by force
      then have "authentic E (sy_heard s) (msg, addr)" using basic by (simp add: node_origin_def)
      then have "ms_receiver msg = ev_name E" by (auto simp: authentic_def dest: message_decode_receiver)
      moreover have "(message_new now (ms_receiver msg) (ms_sender msg) p, addr) \<in> set (answers_of E s)"
        using d h by (force simp: answers_of_def)
      ultimately have "set (packet_of (ev_sig E) sk enc (message_new now (ev_name E) (ms_sender msg) p, addr)) \<subseteq> set (sy_sent s)"
        unfolding sent by auto
      then show "\<exists>now. let reply = message_new now (ev_name E) (ms_sender msg) p in
          100 + length (enc reply) \<le> MAX_UDP_MSG_SIZE \<longrightarrow> (packet (ev_sig E) sk (enc reply), addr) \<in> set (sy_sent s)"
        by (intro exI [of _ now]) (auto simp: Let_def)
    qed
    with all sent show ?thesis by blast
  qed
qed

theorem node_answers_everyone_witness:
  "mset (map fst (sy_done (pair_final friend_addr))) = mset (sy_accepted (pair_final friend_addr)) \<and>
   sy_sent (pair_final friend_addr) = concat (map (packet_of pair_sig True pair_enc) (answers_of pair_env (pair_final friend_addr)))"
proof -
  have "node_weight (pair_final friend_addr) = 0" by (simp add: node_weight_def pair_final_def node_start_def)
  then have "\<not> (\<exists>l s'. works l \<and> \<not> loses l \<and> node_step pair_env l (pair_final friend_addr) s')" using node.at_rest by blast
  moreover have "\<forall>p. async_handle pair_register p \<noteq> Diverge"
    by (simp add: async_handle_def pair_register_def reg_async_def async_register_new_def)
  moreover have "list_all (Not \<circ> loses) (pair_labels friend_addr)" by (simp add: pair_labels_def)
  ultimately show ?thesis
    using node_answers_everyone [of pair_env True, OF _ _ _ pair_run [of friend_addr] _ _ pair_final_coded [of friend_addr]]
    by (auto simp: sample_hc_ok pair_sig_ok)
qed

text \<open>A run all of whose states satisfy \<open>P\<close>.\<close>

inductive node_run_within :: "(node_sys \<Rightarrow> bool) \<Rightarrow> 'sk node_env \<Rightarrow> node_label list \<Rightarrow> node_sys \<Rightarrow> bool" for P E where
  within_start: "P node_start \<Longrightarrow> node_run_within P E [] node_start"
| within_step: "node_run_within P E ls s \<Longrightarrow> node_step E l s s' \<Longrightarrow> P s' \<Longrightarrow> node_run_within P E (ls @ [l]) s'"

lemma node_run_within_run: "node_run_within P E ls s \<Longrightarrow> node_run E ls s \<and> P s"
  by (induction rule: node_run_within.induct) (auto intro: node_run.intros)

definition channels_idle :: "node_sys \<Rightarrow> bool" where
  "channels_idle s \<longleftrightarrow> length (sy_work s) \<le> 1 \<and> sy_answers s = [] \<and> sy_packets s = []"

text \<open>One more datagram, one more child: steps 1 and 2 ask for nothing but room in the channel between them.\<close>

lemma one_more_child:
  assumes "message_decode (ev_hc E) (ev_mc E) (ev_sig E) (ev_name E) (take MAX_UDP_MSG_SIZE d) = Ok msg"
    and "sy_status s RecvTask = Running" and "sy_status s HandlerTask = Running" and "sy_work s = []"
  shows "\<exists>s1 s2. node_step E (Receive True (Datagram d addr)) s s1 \<and> node_step E Spawn s1 s2 \<and>
    length (sy_work s1) = 1 \<and> sy_answers s1 = sy_answers s \<and> sy_packets s1 = sy_packets s \<and>
    sy_work s2 = [] \<and> sy_answers s2 = sy_answers s \<and> sy_packets s2 = sy_packets s \<and> sy_status s2 = sy_status s \<and>
    sy_heard s2 = sy_heard s @ [(d, addr)] \<and> sy_children s2 = sy_children s + {#(msg, addr)#}"
proof -
  let ?req = "\<lparr>rq_sender = 0, rq_data = (msg, addr)\<rparr>"
  let ?s1 = "s\<lparr>sy_work := sy_work s @ [?req], sy_heard := sy_heard s @ [(d, addr)], sy_accepted := sy_accepted s @ [(msg, addr)]\<rparr>"
  have 1: "node_step E (Receive True (Datagram d addr)) s ?s1"
    by (rule receive_ok) (simp_all add: assms CHANNEL_CAPACITY_def)
  have 2: "node_step E Spawn ?s1 (?s1\<lparr>sy_work := [], sy_children := sy_children s + {#(msg, addr)#}\<rparr>)"
    using spawn_ok [of ?s1 ?req "[]" E] assms(3,4) by simp
  show ?thesis by (intro exI [of _ ?s1] exI conjI, rule 1, rule 2) (simp_all add: assms(4))
qed

text \<open>C34: Nothing bounds the child tasks a node holds, the bounded channels between its tasks do not: for every
  \<open>n\<close> there is a run in which the node hears one message \<open>n\<close> times and then holds \<open>n\<close> children, and at every
  moment of it the channel of step 2 holds at most one request and the other channels none. And whatever
  state a node has got to, if steps 1 and 2 run and the channel between them is empty, one more copy of
  the message can be received and brings one more child, however many there are.\<close>

theorem node_children_unbounded:
  assumes "message_decode (ev_hc E) (ev_mc E) (ev_sig E) (ev_name E) (take MAX_UDP_MSG_SIZE d) = Ok msg"
  shows "(\<exists>ls s. node_run_within channels_idle E ls s \<and> sy_children s = replicate_mset n (msg, addr) \<and>
      length ls = 2 * n \<and> sy_heard s = replicate n (d, addr)) \<and>
    (\<forall>ls s. node_run E ls s \<and> sy_status s RecvTask = Running \<and> sy_status s HandlerTask = Running \<and> sy_work s = [] \<longrightarrow>
      (\<exists>s1 s2. node_step E (Receive True (Datagram d addr)) s s1 \<and> node_step E Spawn s1 s2 \<and>
        sy_work s2 = [] \<and> sy_children s2 = sy_children s + {#(msg, addr)#}))"
proof (rule conjI)
  have "\<exists>ls s. node_run_within channels_idle E ls s \<and> sy_children s = replicate_mset n (msg, addr) \<and> length ls = 2 * n \<and>
    sy_heard s = replicate n (d, addr) \<and> sy_work s = [] \<and> sy_answers s = [] \<and> sy_packets s = [] \<and>
    sy_status s = (\<lambda>_. Running)"
  proof (induction n)
    case 0
    have "node_run_within channels_idle E [] node_start" by (rule within_start) (simp add: channels_idle_def node_start_def)
    then show ?case by (intro exI [of _ "[]"] exI [of _ node_start]) (simp add: node_start_def)
  next
    case (Suc n)
    then obtain ls s where s: "node_run_within channels_idle E ls s" "sy_children s = replicate_mset n (msg, addr)"
      "length ls = 2 * n" "sy_heard s = replicate n (d, addr)" "sy_work s = []" "sy_answers s = []" "sy_packets s = []"
      "sy_status s = (\<lambda>_. Running)" by blast
    have "sy_status s RecvTask = Running" "sy_status s HandlerTask = Running" by (simp_all add: s(8))
    from one_more_child [OF assms this s(5), of addr] obtain s1 s2 where
      steps: "node_step E (Receive True (Datagram d addr)) s s1" "node_step E Spawn s1 s2"
      and s1: "length (sy_work s1) = 1" "sy_answers s1 = []" "sy_packets s1 = []"
      and s2: "sy_work s2 = []" "sy_answers s2 = []" "sy_packets s2 = []" "sy_status s2 = (\<lambda>_. Running)"
        "sy_heard s2 = replicate n (d, addr) @ [(d, addr)]" "sy_children s2 = replicate_mset n (msg, addr) + {#(msg, addr)#}"
      unfolding s by blast
    have "channels_idle s1" "channels_idle s2" by (simp_all add: channels_idle_def s1 s2)
    from within_step [OF within_step [OF s(1) steps(1) this(1)] steps(2) this(2)] show ?case
      by (intro exI [of _ "(ls @ [Receive True (Datagram d addr)]) @ [Spawn]"] exI [of _ s2] conjI, assumption)
        (simp_all add: s(3) s2 replicate_append_same)
  qed
  then show "\<exists>ls s. node_run_within channels_idle E ls s \<and> sy_children s = replicate_mset n (msg, addr) \<and>
      length ls = 2 * n \<and> sy_heard s = replicate n (d, addr)" by blast
  show "\<forall>ls s. node_run E ls s \<and> sy_status s RecvTask = Running \<and> sy_status s HandlerTask = Running \<and> sy_work s = [] \<longrightarrow>
      (\<exists>s1 s2. node_step E (Receive True (Datagram d addr)) s s1 \<and> node_step E Spawn s1 s2 \<and>
        sy_work s2 = [] \<and> sy_children s2 = sy_children s + {#(msg, addr)#})"
    using one_more_child [OF assms] by metis
qed

theorem node_children_unbounded_witness:
  "\<exists>ls s. node_run_within channels_idle pair_env ls s \<and> size (sy_children s) = 5000 \<and> length ls = 10000"
proof -
  have "message_decode (ev_hc pair_env) (ev_mc pair_env) (ev_sig pair_env) (ev_name pair_env)
      (take MAX_UDP_MSG_SIZE (from_friend EmptyPayload)) = Ok (to_node EmptyPayload)"
    using from_friend_decodes [of EmptyPayload] by (simp add: pair_messages_def)
  from node_children_unbounded [OF this, of 5000 friend_addr] obtain ls s where
    "node_run_within channels_idle pair_env ls s" "sy_children s = replicate_mset 5000 (to_node EmptyPayload, friend_addr)" "length ls = 2 * 5000"
    by blast
  then show ?thesis by (intro exI [of _ ls] exI [of _ s]) simp
qed

text \<open>C33: One datagram that is not a valid message for the node, from anyone, or a quiet spell as long as the
  timeout makes it deaf for good: nothing that arrives later is heard or accepted; and once what is
  under way is done, the task of step 2 spins on its closed channel, and nothing but the cancellation
  of a task ever changes the state again.\<close>

theorem node_deaf_after_bad_datagram:
  assumes "answer = TimedOut \<or> (\<exists>bs addr. answer = Datagram bs addr \<and>
      is_err (message_decode (ev_hc E) (ev_mc E) (ev_sig E) (ev_name E) (take MAX_UDP_MSG_SIZE bs)))"
    and "node_step E (Receive True answer) s0 s" and "metered.run (node_step E) s ls s'"
  shows "sy_accepted s' = sy_accepted s0 \<and> sy_heard s' = sy_heard s0 @ heard_from answer \<and>
    (node_weight s' = 0 \<and> sy_status s' HandlerTask = Running \<longrightarrow> node_step E (Spin HandlerTask) s' s' \<and>
      (\<forall>l s''. node_step E l s' s'' \<longrightarrow> s'' = s' \<or> (\<exists>t. l = Cancel t)))"
proof -
  from assms(2) have "sy_status s RecvTask \<noteq> Running \<and> sy_accepted s = sy_accepted s0 \<and>
      sy_heard s = sy_heard s0 @ heard_from answer"
  proof cases
    case (receive chan reqs st)
    with bad_answer [OF assms(1), of chan "sy_status s0 HandlerTask = Running"] show ?thesis
      by (simp add: task_ends_status del: recv_net_run.simps)
  qed
  moreover from this have "sy_status s' RecvTask \<noteq> Running \<and> sy_accepted s' = sy_accepted s \<and> sy_heard s' = sy_heard s"
    using deaf_run [OF assms(3)] by blast
  moreover have "sy_work s' = []" if "node_weight s' = 0" using that by (simp add: node_weight_def)
  ultimately show ?thesis using idle_steps [of s' E] node_step.spin_handler [of s' E] by auto
qed

theorem node_deaf_after_bad_datagram_witness:
  "\<exists>s. node_step pair_env (Receive True TimedOut) node_start s \<and> node_step pair_env (Spin HandlerTask) s s"
proof -
  have "recv_net_run sample_hc pair_mc pair_sig node_key [Received (True, TimedOut, 0, True)] = ([], Stopped)"
    by (rule bad_answer) simp
  with node_step.receive [of node_start pair_env True TimedOut 0 "[]" Stopped]
  have s: "node_step pair_env (Receive True TimedOut) node_start (node_start\<lparr>sy_status := (\<lambda>_. Running)(RecvTask := Stopped)\<rparr>)"
    by (simp add: node_start_def task_ends.simps Let_def heard_from_def del: recv_net_run.simps)
  from node_deaf_after_bad_datagram [OF _ s node.run_start] show ?thesis
    using s by (auto simp: node_weight_def node_start_def)
qed

end
