(* ===== verification/Join.thy ===== *)
theory Join imports NodeSystem begin

text \<open>
  The two ends of \<open>Node::make_new\<close> put together: the joining node, which asks an introducer and listens for
  its answer, and the introducer, whose four tasks answer the address every datagram came from. Which ports
  the joining node sends from and listens on is fixed by \<open>src/constants.rs\<close>.
\<close>

section \<open>The ports\<close>

definition UDP_RECV_PORT :: nat where "UDP_RECV_PORT = 8081"

text \<open>The code binds its sockets to \<open>0.0.0.0\<close>; \<open>ip\<close> is the address the machine is seen under. The socket of
  \<open>udp_send_to\<close> and those of \<open>check_addr_available\<close> are bound to one port, the socket that waits for the
  answer to another. Each socket is closed when the call that bound it returns.\<close>

definition send_source :: "bytes \<Rightarrow> socket_addr" where "send_source ip = (ip, UDP_CHECK_PORT)"

definition check_source :: "bytes \<Rightarrow> socket_addr" where "check_source ip = (ip, snd check_bind_addr)"

definition answer_addr :: "bytes \<Rightarrow> socket_addr" where "answer_addr ip = (ip, UDP_RECV_PORT)"

text \<open>A network that loses nothing: what a socket bound to \<open>here\<close> hears of the datagrams a node sent from \<open>src\<close>.\<close>

definition heard_of :: "socket_addr \<Rightarrow> (bytes \<times> socket_addr) list \<Rightarrow> socket_addr \<Rightarrow> recv_answer" where
  "heard_of src sent here =
     (case filter (\<lambda>(bs, a). a = here) sent of [] \<Rightarrow> TimedOut | (bs, a) # rest \<Rightarrow> Datagram bs src)"

lemma heard_of_nothing: "here \<notin> snd ` set sent \<Longrightarrow> heard_of src sent here = TimedOut"
  by (cases "filter (\<lambda>(bs, a). a = here) sent") (force simp: heard_of_def filter_eq_Cons_iff)+

lemma make_new_silence:
  "\<not> is_ok (fst (make_new hc mc S N now net sock_ok bound TimedOut n introducer sh))"
  by (auto simp: make_new_def Let_def udp_recv_from_def split: outcome.split)

text \<open>The answers of a node go where its questions came from.\<close>

lemma node_run_sent_heard:
  assumes "node_run E ls s" shows "snd ` set (sy_sent s) \<subseteq> snd ` set (sy_heard s)"
proof -
  from node_run_basic [OF assms] have "addresses s \<subseteq># image_mset snd (mset (sy_heard s))" by simp
  from set_mset_mono [OF this] show ?thesis by (auto simp: addresses_def)
qed

section \<open>Nobody joins\<close>

text \<open>C29: Nobody is introduced to anyone: however the introducer's tasks interleave and whatever its handlers
  answer, if all that comes to it from the joining node was sent by \<open>check_addr_available\<close> and \<open>udp_send_to\<close>,
  its answers go to the port these two sent from. \<open>make_new\<close> waits on another port, hears none of them and
  fails, also on a network that loses nothing.\<close>

theorem join_unanswered:
  assumes "node_run E ls s"
    and "\<forall>(bs, a) \<in> set (sy_heard s). fst a = ip \<longrightarrow> a \<in> {send_source ip, check_source ip}"
  shows "(\<forall>(bs, a) \<in> set (sy_sent s). fst a = ip \<longrightarrow> a = send_source ip) \<and>
    \<not> is_ok (fst (make_new hc mc S N now net sock_ok bound (heard_of src (sy_sent s) (answer_addr ip)) n introducer sh))"
proof (rule conjI)
  have from_check: "a = send_source ip" if "(bs, a) \<in> set (sy_sent s)" "fst a = ip" for bs a
    using node_run_sent_heard [OF assms(1)] that assms(2) by (fastforce simp: send_source_def check_source_def check_bind_addr_def)
  then show "\<forall>(bs, a) \<in> set (sy_sent s). fst a = ip \<longrightarrow> a = send_source ip" by auto
  from from_check have "answer_addr ip \<notin> snd ` set (sy_sent s)"
    by (force simp: answer_addr_def send_source_def UDP_RECV_PORT_def UDP_CHECK_PORT_def)
  from heard_of_nothing [OF this] make_new_silence
  show "\<not> is_ok (fst (make_new hc mc S N now net sock_ok bound
      (heard_of src (sy_sent s) (answer_addr ip)) n introducer sh))" by simp
qed

text \<open>The node of the sample run, asked from the port of the checks: it answers, and \<open>make_new\<close> hears nothing.\<close>

theorem join_unanswered_witness:
  "map snd (sy_sent (pair_final (send_source [127, 0, 0, 1]))) = [([127, 0, 0, 1], 7070)] \<and>
    \<not> is_ok (fst (make_new sample_hc pair_mc pair_sig (test_node_impl pair_node) 7
      (\<lambda>_. (True, Datagram (from_friend EmptyPayload) friend_addr)) True True
      (heard_of friend_addr (sy_sent (pair_final (send_source [127, 0, 0, 1]))) (answer_addr [127, 0, 0, 1]))
      pair_node friend_key (handle_of pair_sig True)))"
proof -
  have "\<forall>(bs, a) \<in> set (sy_heard (pair_final (send_source [127, 0, 0, 1]))).
      fst a = [127, 0, 0, 1] \<longrightarrow> a \<in> {send_source [127, 0, 0, 1], check_source [127, 0, 0, 1]}"
    by (simp add: pair_final_def)
  from join_unanswered [OF pair_run this] show ?thesis
    by (simp add: pair_final_def pair_packet_def send_source_def UDP_CHECK_PORT_def)
qed

end
