(* ===== verification/Center.thy ===== *)
theory Center imports Executor Identity begin

text \<open>
  \<open>src/nodes/center.rs\<close> and \<open>src/nodes/normal.rs\<close>: the node at the centre with its builder, and the
  normal node. A \<open>HashMap\<close> is an association list without duplicate keys; the capacity a map is
  created with has no effect on what it holds. The clock reading is an argument.
\<close>

section \<open>Normal nodes\<close>

text \<open>The friends of a normal node are normal nodes, so the struct is a datatype.\<close>

datatype ('b, 'd) normal_node = NormalNode
  (nn_name: hash)
  (nn_address: "string option")
  (nn_timestamp: u64)
  (nn_friends: "(hash \<times> ('b, 'd) normal_node) list")
  (nn_center_address: "string option")
  (nn_executor: "('b, 'd) executor option")
  (nn_reputation: reputation)
  (nn_state: node_state)

definition normal_new :: "hash \<Rightarrow> nat \<Rightarrow> ('b, 'd) normal_node" where
  "normal_new name capacity = NormalNode name None 0 [] None None reputation_new Sleepping"

section \<open>The central node\<close>

record ('b, 'd) central_node =
  cn_name :: hash
  cn_address :: string
  cn_timestamp :: u64
  cn_friends :: "(hash \<times> ('b, 'd) normal_node) list"
  cn_executor :: "('b, 'd) executor option"
  cn_reputation :: reputation
  cn_state :: node_state

definition central_new :: "u64 \<Rightarrow> hash \<Rightarrow> string \<Rightarrow> ('b, 'd) central_node" where
  "central_new now name address =
     \<lparr>cn_name = name, cn_address = address, cn_timestamp = now, cn_friends = [], cn_executor = None,
      cn_reputation = reputation_new, cn_state = Active\<rparr>"

section \<open>The builder\<close>

record ('b, 'd) node_builder =
  nb_name :: "hash option"
  nb_address :: "string option"
  nb_center_address :: "string option"
  nb_executor :: "('b, 'd) executor option"
  nb_friends :: "(hash \<times> ('b, 'd) normal_node) list option"
  nb_reputation :: "reputation option"

definition builder_new :: "('b, 'd) node_builder" where
  "builder_new =
     \<lparr>nb_name = None, nb_address = None, nb_center_address = None, nb_executor = None,
      nb_friends = None, nb_reputation = None\<rparr>"

definition builder_name :: "('b, 'd) node_builder \<Rightarrow> hash \<Rightarrow> ('b, 'd) node_builder" where
  "builder_name nb name = nb\<lparr>nb_name := Some name\<rparr>"

definition builder_address :: "('b, 'd) node_builder \<Rightarrow> string \<Rightarrow> ('b, 'd) node_builder" where
  "builder_address nb address = nb\<lparr>nb_address := Some address\<rparr>"

definition builder_center_address :: "('b, 'd) node_builder \<Rightarrow> string \<Rightarrow> ('b, 'd) node_builder" where
  "builder_center_address nb center_address = nb\<lparr>nb_center_address := Some center_address\<rparr>"

definition builder_executor :: "('b, 'd) node_builder \<Rightarrow> ('b, 'd) executor \<Rightarrow> ('b, 'd) node_builder" where
  "builder_executor nb executor = nb\<lparr>nb_executor := Some executor\<rparr>"

definition builder_reputation :: "('b, 'd) node_builder \<Rightarrow> reputation \<Rightarrow> ('b, 'd) node_builder" where
  "builder_reputation nb reputation = nb\<lparr>nb_reputation := Some reputation\<rparr>"

definition builder_friends ::
    "('b, 'd) node_builder \<Rightarrow> (hash \<times> ('b, 'd) normal_node) list option \<Rightarrow> ('b, 'd) node_builder" where
  "builder_friends nb friends = nb\<lparr>nb_friends := friends\<rparr>"

text \<open>The two messages \<open>check_fields\<close> is asked for are \<open>name is required\<close> and \<open>address is required\<close>.\<close>

definition check_fields :: "'a option \<Rightarrow> string \<Rightarrow> unit outcome" where
  "check_fields field field_name =
     (if field = None then Err (H_Nodes (field_name @ '' is required'')) else Ok ())"

definition builder_build :: "u64 \<Rightarrow> ('b, 'd) node_builder \<Rightarrow> ('b, 'd) central_node outcome" where
  "builder_build now nb =
     and_then (check_fields (nb_name nb) ''name'') (\<lambda>_.
     and_then (check_fields (nb_address nb) ''address'') (\<lambda>_.
     and_then (unwrap (nb_name nb)) (\<lambda>name.
     and_then (unwrap (nb_address nb)) (\<lambda>address.
     let center = central_new now name address;
         center = center\<lparr>cn_executor := nb_executor nb\<rparr>;
         center = center\<lparr>cn_state := Active\<rparr>;
         center = (case nb_friends nb of
                     Some friends \<Rightarrow> center\<lparr>cn_friends := friends\<rparr>
                   | None \<Rightarrow> center\<lparr>cn_friends := []\<rparr>)
     in Ok center))))"

section \<open>Properties\<close>

text \<open>The builder builds exactly when it was given a name and an address (the name is missed first), never
  panics, hands the executor and the friends on, and drops the reputation and the centre's address
  it was given: the node starts with the default reputation whatever was set.\<close>

theorem builder_build_verdict:
  "builder_build now nb =
    (if nb_name nb = None then Err (H_Nodes ''name is required'')
     else if nb_address nb = None then Err (H_Nodes ''address is required'')
     else Ok \<lparr>cn_name = the (nb_name nb), cn_address = the (nb_address nb), cn_timestamp = now,
             cn_friends = (case nb_friends nb of Some fs \<Rightarrow> fs | None \<Rightarrow> []), cn_executor = nb_executor nb,
             cn_reputation = \<lparr>rp_score = 60\<rparr>, cn_state = Active\<rparr>) \<and>
   builder_build now (builder_reputation nb rep) = builder_build now nb \<and>
   builder_build now (builder_center_address nb addr) = builder_build now nb"
  by (auto simp: builder_build_def builder_reputation_def builder_center_address_def check_fields_def
      central_new_def reputation_new_def Let_def split: option.split)

end
