(* ===== verification/TestBase.thy ===== *)
theory TestBase imports Prelude begin

text \<open>
  What the tests of the crate share. A test is a computation: \<open>Ok ()\<close> when it passes, \<open>Panic\<close> when an
  assertion or an \<open>unwrap\<close> fails, \<open>Err\<close> when it returns an error itself.
\<close>

definition assert_that :: "bool \<Rightarrow> unit outcome" where
  "assert_that b = (if b then Ok () else Panic)"

text \<open>\<open>Result::unwrap\<close>.\<close>

definition unwrap_ok :: "'a outcome \<Rightarrow> 'a outcome" where
  "unwrap_ok r = (case r of Err e \<Rightarrow> Panic | _ \<Rightarrow> r)"

text \<open>A call whose result is looked at as a value: a panic in it, or waiting for ever, goes through.\<close>

definition run_call :: "'a outcome \<Rightarrow> ('a outcome \<Rightarrow> 'b outcome) \<Rightarrow> 'b outcome" where
  "run_call r f = (case r of Panic \<Rightarrow> Panic | Undefined \<Rightarrow> Undefined | Diverge \<Rightarrow> Diverge | _ \<Rightarrow> f r)"

lemma run_call_simps [simp]:
  "run_call (Ok x) f = f (Ok x)" "run_call (Err e) f = f (Err e)" "run_call Panic f = Panic"
  "run_call Diverge f = Diverge" "run_call Undefined f = Undefined"
  by (simp_all add: run_call_def)

lemma unwrap_ok_Ok [simp]: "unwrap_ok (Ok x) = Ok x"
  by (simp add: unwrap_ok_def)

lemma unwrap_ok_Err [simp]: "unwrap_ok (Err e) = Panic"
  by (simp add: unwrap_ok_def)

lemma assert_that_True [simp]: "assert_that True = Ok ()" "assert_that b = Ok () \<longleftrightarrow> b"
  by (simp_all add: assert_that_def)

lemma assert_that_False [simp]: "assert_that False = Panic"
  by (simp add: assert_that_def)

text \<open>A byte string literal, and what writing over the start of a file leaves.\<close>

definition bytes_of :: "string \<Rightarrow> bytes" where
  "bytes_of s = map of_char s"

definition overwrite :: "bytes \<Rightarrow> bytes \<Rightarrow> bytes" where
  "overwrite out old = out @ drop (length out) old"

lemma length_bytes_of [simp]: "length (bytes_of s) = length s"
  by (simp add: bytes_of_def)

section \<open>Fresh uuids\<close>

text \<open>\<open>src/uuidbytes.rs\<close>. The crate uuid with its clock and counter is the parameter \<open>now_v7\<close>: the uuid it makes
  and its state after that. Its documentation promises that no uuid comes twice: \<open>uuids_fresh\<close>.\<close>

definition uuid_new :: "('c \<Rightarrow> uuid \<times> 'c) \<Rightarrow> 'c \<Rightarrow> uuid \<times> 'c" where
  "uuid_new now_v7 c = (case now_v7 c of (uuid, c) \<Rightarrow> let uuid_bytes = uuid in (uuid_bytes, c))"

definition test_default_uuid :: "('c \<Rightarrow> uuid \<times> 'c) \<Rightarrow> ('c \<Rightarrow> 'c) \<Rightarrow> 'c \<Rightarrow> unit outcome" where
  "test_default_uuid now_v7 sleep c =
     (case uuid_new now_v7 c of (uuid_bytes1, c) \<Rightarrow>
      case uuid_new now_v7 (sleep c) of (uuid_bytes2, c) \<Rightarrow> assert_that (uuid_bytes1 \<noteq> uuid_bytes2))"

inductive later_state :: "('c \<Rightarrow> uuid \<times> 'c) \<Rightarrow> ('c \<Rightarrow> 'c) \<Rightarrow> 'c \<Rightarrow> 'c \<Rightarrow> bool" for now_v7 sleep c where
  made: "later_state now_v7 sleep c (snd (now_v7 c))"
| again: "later_state now_v7 sleep c d \<Longrightarrow> later_state now_v7 sleep c (snd (now_v7 d))"
| slept: "later_state now_v7 sleep c d \<Longrightarrow> later_state now_v7 sleep c (sleep d)"

definition uuids_fresh :: "('c \<Rightarrow> uuid \<times> 'c) \<Rightarrow> ('c \<Rightarrow> 'c) \<Rightarrow> bool" where
  "uuids_fresh now_v7 sleep \<longleftrightarrow> (\<forall>c d. later_state now_v7 sleep c d \<longrightarrow> fst (now_v7 d) \<noteq> fst (now_v7 c))"

lemma uuid_test_passes:
  assumes "uuids_fresh now_v7 sleep"
  shows "test_default_uuid now_v7 sleep c = Ok ()"
proof -
  have "later_state now_v7 sleep c (sleep (snd (now_v7 c)))" by (rule later_state.slept [OF later_state.made])
  with assms have "fst (now_v7 c) \<noteq> fst (now_v7 (sleep (snd (now_v7 c))))" unfolding uuids_fresh_def by metis
  then show ?thesis by (simp add: test_default_uuid_def uuid_new_def case_prod_unfold)
qed

end
