(* ===== verification/MessageTests.thy ===== *)
theory MessageTests imports TestBase Node begin

text \<open>
  The tests of \<open>src/nodes/identity.rs\<close>, \<open>src/network/protocol.rs\<close> and \<open>src/network/udp.rs\<close>. The secret keys
  of the identities a test makes, the clock readings and what the sockets answer are arguments; a test
  that passes does so for every one of them. Addresses are on the loopback interface.
\<close>

section \<open>Signing\<close>

definition test_identity :: "'sk sig_scheme \<Rightarrow> 'sk \<Rightarrow> unit outcome" where
  "test_identity S sk =
     (let identity = identity_new S sk; message = bytes_of ''hello world'' in
      and_then (unwrap_ok (sign_msg S identity message)) (\<lambda>signature.
      and_then (verify_signature_bytes S message (public_key_to_bytes identity) signature) (\<lambda>_. Ok ())))"

definition sgin_v2_test :: "'sk sig_scheme \<Rightarrow> bytes \<Rightarrow> 'sk sign_handle \<Rightarrow> bytes outcome" where
  "sgin_v2_test S bs handle =
     (case sh_signer handle of
        None \<Rightarrow> Panic
      | Some idn \<Rightarrow>
          (case signer_turn S idn bs of
             Some answer \<Rightarrow> and_then (unwrap_ok answer) (\<lambda>signature. Ok signature)
           | None \<Rightarrow> Panic))"

text \<open>The closure \<open>test_signer\<close> hands to \<open>std::thread::spawn\<close> is asynchronous: the thread makes its future and
  drops it. \<open>signer_closure\<close> is what the future would do.\<close>

definition signer_closure :: "'sk sig_scheme \<Rightarrow> bytes \<Rightarrow> hash \<Rightarrow> 'sk sign_handle \<Rightarrow> unit outcome" where
  "signer_closure S msg public_key handle_clone =
     (let msg2 = bytes_of ''hello world, wow!'' in
      and_then (unwrap_ok (sgin_v2_test S msg handle_clone)) (\<lambda>signature2.
      let result = verify_signature_bytes S msg2 public_key signature2 in
      assert_that (is_ok result)))"

definition test_signer :: "'sk sig_scheme \<Rightarrow> 'sk \<Rightarrow> unit outcome" where
  "test_signer S sk =
     (let idn = identity_new S sk in
      and_then (unwrap_ok (spawn_new idn)) (\<lambda>handle.
      let public_key = sh_public_key_bytes handle; msg = bytes_of ''hello world'' in
      and_then (unwrap_ok (sgin_v2_test S msg handle)) (\<lambda>signature.
      let result = verify_signature_bytes S msg public_key signature in
      assert_that (is_ok result))))"

definition test_spawn_new :: "'sk sig_scheme \<Rightarrow> 'sk \<Rightarrow> unit outcome" where
  "test_spawn_new S sk =
     (let idn = identity_new S sk in
      and_then (unwrap_ok (spawn_new idn)) (\<lambda>handle.
      let msg = bytes_of ''hello world'' in
      and_then (unwrap_ok (handle_sign S handle msg)) (\<lambda>signature.
      let msg2 = bytes_of ''hello world, wow!'' in
      and_then (unwrap_ok (handle_sign S handle msg2)) (\<lambda>signature2.
      let public_key = sh_public_key_bytes handle;
          result = verify_signature_bytes S msg public_key signature in
      and_then (assert_that (is_ok result)) (\<lambda>_.
      let result2 = verify_signature_bytes S msg2 public_key signature2 in
      assert_that (is_ok result2))))))"

lemma identity_tests_pass:
  assumes "sig_ok S"
  shows "test_identity S sk = Ok ()" "test_signer S sk = Ok ()" "test_spawn_new S sk = Ok ()"
  using assms
  by (simp_all add: test_identity_def test_signer_def test_spawn_new_def sgin_v2_test_def signer_turn_def
      sign_msg_def identity_new_def create_keypair_def public_key_to_bytes_def spawn_new_def handle_sign_def
      sig_ok_verify Let_def)

text \<open>The second part of \<open>test_signer\<close> signs one message and checks the signature of another.\<close>

lemma signer_closure_fails:
  assumes "\<not> sg_verify S (sg_public S sk) (bytes_of ''hello world, wow!'') (sg_sign S sk msg)"
  shows "signer_closure S msg (sg_public S sk) (handle_of S sk) = Panic"
  using assms
  by (simp add: signer_closure_def sgin_v2_test_def signer_turn_def sign_msg_def identity_new_def
      create_keypair_def handle_of_def verify_signature_bytes_def Let_def)

section \<open>Headers\<close>

definition test_header_encode_and_decode :: "header_codec \<Rightarrow> 'sk sig_scheme \<Rightarrow> 'sk \<Rightarrow> unit outcome" where
  "test_header_encode_and_decode hc S sk =
     (let msg = bytes_of ''hello world''; idn = identity_new S sk in
      and_then (unwrap_ok (sign_msg S idn msg)) (\<lambda>signature.
      let public_key = public_key_to_bytes idn;
          h = header_new (word_of_nat (length msg)) signature public_key; buffer = replicate 100 0 in
      case header_encode hc h buffer of (written, buffer) \<Rightarrow>
      and_then (assert_that (is_ok written)) (\<lambda>_.
      let header_ret = header_decode hc buffer in
      and_then (assert_that (is_ok header_ret)) (\<lambda>_.
      let verify_ret = verify_header S h msg in
      assert_that (is_ok verify_ret)))))"

text \<open>\<open>old\<close> is what the file holds before the test.\<close>

definition test_header_with_stream :: "header_codec \<Rightarrow> bytes \<Rightarrow> unit outcome" where
  "test_header_with_stream hc old =
     (let h = header_new 10 (replicate 64 2) (replicate 32 1) in
      and_then (unwrap_ok (header_into_stream hc h)) (\<lambda>out.
      let stream = overwrite out old in
      and_then (unwrap_ok (header_from_stream hc stream)) (\<lambda>(ret_header, rest).
      assert_that (h = ret_header))))"

lemma header_tests_pass:
  assumes "header_codec_ok hc" and "sig_ok S"
  shows "test_header_encode_and_decode hc S sk = Ok ()" "test_header_with_stream hc old = Ok ()"
proof -
  let ?msg = "bytes_of ''hello world''"
  have wf: "header_wf (packet_header S sk ?msg)" by (rule packet_header_wf [OF assms(2)])
  from header_encode_Ok [OF assms(1) wf, of "replicate 100 0"] header_decode_bytes [OF assms(1) wf, of "[]"]
  show "test_header_encode_and_decode hc S sk = Ok ()"
    using assms(2)
    by (simp add: test_header_encode_and_decode_def sign_msg_def identity_new_def create_keypair_def
        public_key_to_bytes_def Let_def packet_header_def verify_header_def sig_ok_verify)
      (simp add: header_new_def sig_ok_verify)
  let ?h = "header_new 10 (replicate 64 2) (replicate 32 1)"
  have wf2: "header_wf ?h" by (simp add: header_wf_def header_new_def)
  from header_encode_Ok [OF assms(1) wf2, of "replicate 100 0"] header_decode_bytes [OF assms(1) wf2, of "[]"] wf2
  show "test_header_with_stream hc old = Ok ()"
    by (simp add: test_header_with_stream_def header_into_stream_def header_from_stream_def read_exact_def
        overwrite_def slice_def Let_def)
qed

section \<open>Messages\<close>

definition test_decode_with_header ::
    "header_codec \<Rightarrow> message codec \<Rightarrow> 'sk sig_scheme \<Rightarrow> 'sk \<Rightarrow> 'sk \<Rightarrow> u64 \<Rightarrow> unit outcome" where
  "test_decode_with_header hc mc S sk sk' now =
     (let encode_id = identity_new S sk; decode_id = identity_new S sk';
          decoder_name = public_key_to_bytes decode_id;
          msg = message_new now (public_key_to_bytes encode_id) decoder_name EmptyPayload;
          buffer = replicate 10240 0 in
      case encode_into_slice hc mc S encode_id msg buffer of (r, buffer) \<Rightarrow>
      and_then (unwrap_ok r) (\<lambda>msg_bytes_size.
      and_then (unwrap_ok (header_decode hc buffer)) (\<lambda>h.
      let end_index = 100 + msg_bytes_size in
      and_then (slice buffer 100 end_index) (\<lambda>body.
      and_then (unwrap_ok (decode_with_header mc S decoder_name body h)) (\<lambda>msg_ret.
      assert_that (msg = msg_ret))))))"

definition test_decode_and_encode ::
    "header_codec \<Rightarrow> message codec \<Rightarrow> 'sk sig_scheme \<Rightarrow> 'sk \<Rightarrow> 'sk \<Rightarrow> u64 \<Rightarrow> unit outcome" where
  "test_decode_and_encode hc mc S sk sk' now =
     (let encode_id = identity_new S sk; decode_id = identity_new S sk';
          decoder_name = public_key_to_bytes decode_id;
          msg = message_new now (public_key_to_bytes encode_id) decoder_name EmptyPayload;
          buffer = replicate 10240 0 in
      case encode_into_slice hc mc S encode_id msg buffer of (r, buffer) \<Rightarrow>
      and_then (unwrap_ok r) (\<lambda>_.
      let msg_ret = message_decode hc mc S decoder_name buffer in
      and_then (unwrap_ok msg_ret) (\<lambda>msg_ret. assert_that (msg = msg_ret))))"

definition test_encode ::
    "header_codec \<Rightarrow> message codec \<Rightarrow> 'sk sig_scheme \<Rightarrow> 'sk \<Rightarrow> 'sk \<Rightarrow> u64 \<Rightarrow> unit outcome" where
  "test_encode hc mc S sk sk' now =
     (let encode_id = identity_new S sk; decode_id = identity_new S sk'; handle_result = spawn_new encode_id in
      and_then (assert_that (is_ok handle_result)) (\<lambda>_.
      and_then (unwrap_ok handle_result) (\<lambda>sign_handle.
      let msg = message_new now (sh_public_key_bytes sign_handle) (public_key_to_bytes decode_id) EmptyPayload;
          buffer = replicate 10240 0 in
      case message_encode hc mc S sign_handle msg buffer of (msg_bytes_size_result, buffer) \<Rightarrow>
      and_then (assert_that (is_ok msg_bytes_size_result)) (\<lambda>_.
      let msg = message_decode hc mc S (public_key_to_bytes decode_id) buffer in
      assert_that (is_ok msg)))))"

lemma id_key_of_new: "id_public_key (identity_new S sk) = sg_public S sk"
  by (simp add: identity_new_def create_keypair_def)

lemma name_of_new [simp]: "public_key_to_bytes (identity_new S sk) = sg_public S sk"
  by (simp add: public_key_to_bytes_def identity_new_def create_keypair_def)

lemma buffer_fits: "MAX_UDP_MSG_SIZE \<le> length (replicate 10240 (0 :: u8))"
  by (simp add: MAX_UDP_MSG_SIZE_def)

text \<open>A buffer that starts with a packet: reading the whole of it reads the packet.\<close>

lemma packet_in_buffer:
  assumes "header_codec_ok hc" and "codec_ok_on W mc enc" and "W msg" and "sig_ok S"
    and "100 + length (enc msg) \<le> MAX_UDP_MSG_SIZE" and "ms_sender msg = sg_public S sk" and "ms_receiver msg = my_name"
    and "take (100 + length (enc msg)) buf = packet S sk (enc msg)" and "100 + length (enc msg) \<le> length buf"
  shows "message_decode hc mc S my_name buf = Ok msg" "header_decode hc buf = Ok (packet_header S sk (enc msg))"
    "slice buf 100 (100 + length (enc msg)) = Ok (enc msg)"
proof -
  have buf: "buf = packet S sk (enc msg) @ drop (100 + length (enc msg)) buf" using assms(8) by (metis append_take_drop_id)
  show "message_decode hc mc S my_name buf = Ok msg"
    using decode_packet [OF assms(1-4) small_body [OF assms(5)] assms(6,7)] buf by metis
  have wf: "header_wf (packet_header S sk (enc msg))" by (rule packet_header_wf [OF assms(4)])
  from header_decode_bytes [OF assms(1) wf] buf show "header_decode hc buf = Ok (packet_header S sk (enc msg))"
    by (metis append.assoc packet_def)
  have "take (length (enc msg)) (drop 100 buf) = drop 100 (take (100 + length (enc msg)) buf)" by (simp add: drop_take)
  also have "\<dots> = enc msg" unfolding assms(8) using wf by (simp add: packet_def)
  finally show "slice buf 100 (100 + length (enc msg)) = Ok (enc msg)" using assms(9) by (simp add: slice_def)
qed

lemma message_tests_pass:
  assumes "header_codec_ok hc" and "sig_ok S"
    and "codes mc enc msg" and "100 + length (enc msg) \<le> MAX_UDP_MSG_SIZE"
    and "msg = message_new now (sg_public S sk) (sg_public S sk') EmptyPayload"
  shows "test_decode_with_header hc mc S sk sk' now = Ok ()" "test_decode_and_encode hc mc S sk sk' now = Ok ()"
    "test_encode hc mc S sk sk' now = Ok ()"
proof -
  have c: "codec_ok_on (\<lambda>m. m = msg) mc enc" using assms(3) by (simp add: codec_ok_on_def)
  have ends: "ms_sender msg = sg_public S sk" "ms_receiver msg = sg_public S sk'" using assms(5) by (simp_all add: message_new_def)
  from encode_into_slice_packet [OF assms(1) c refl assms(2,4) buffer_fits, of sk] obtain buf where
    b: "encode_into_slice hc mc S (identity_new S sk) msg (replicate 10240 0) = (Ok (length (enc msg)), buf)"
      "length buf = 10240" "take (100 + length (enc msg)) buf = packet S sk (enc msg)" by auto
  have fits: "100 + length (enc msg) \<le> length buf" using b(2) assms(4) by (simp add: MAX_UDP_MSG_SIZE_def)
  note p = packet_in_buffer [OF assms(1) c refl assms(2,4) ends b(3) fits]
  show "test_decode_with_header hc mc S sk sk' now = Ok ()"
    using b p decode_body [OF c refl assms(2) ends]
    by (simp add: test_decode_with_header_def Let_def assms(5) [symmetric])
  show "test_decode_and_encode hc mc S sk sk' now = Ok ()"
    using b p by (simp add: test_decode_and_encode_def Let_def assms(5) [symmetric])
  from message_encode_packet [OF assms(1) c refl assms(2,4) buffer_fits, of sk] obtain buf' where
    b': "message_encode hc mc S (handle_of S sk) msg (replicate 10240 0) = (Ok (100 + length (enc msg)), buf')"
      "length buf' = 10240" "take (100 + length (enc msg)) buf' = packet S sk (enc msg)" by auto
  have "100 + length (enc msg) \<le> length buf'" using b'(2) assms(4) by (simp add: MAX_UDP_MSG_SIZE_def)
  from packet_in_buffer(1) [OF assms(1) c refl assms(2,4) ends b'(3) this] b'
  show "test_encode hc mc S sk sk' now = Ok ()"
    by (simp add: test_encode_def Let_def spawn_handle_of) (simp add: handle_of_def assms(5) [symmetric])
qed

section \<open>Datagrams\<close>

definition localhost :: "nat \<Rightarrow> socket_addr" where
  "localhost port = ([127, 0, 0, 1], port)"

text \<open>\<open>bound\<close> and \<open>answer\<close> are what the socket on port 8080 answers; a panic in the receiving task closes the
  channel, on which the test panics too.\<close>

definition test_network ::
    "header_codec \<Rightarrow> message codec \<Rightarrow> 'sk sig_scheme \<Rightarrow> 'sk \<Rightarrow> 'sk \<Rightarrow> u64 \<Rightarrow> bool \<Rightarrow> recv_answer \<Rightarrow> unit outcome" where
  "test_network hc mc S sk sk' now bound answer =
     (let encode_id = identity_new S sk in
      and_then (unwrap_ok (spawn_new encode_id)) (\<lambda>signal_handle.
      let decode_id = identity_new S sk';
          msg = message_new now (sh_public_key_bytes signal_handle) (id_public_key decode_id) EmptyPayload;
          save_msg = msg; bind_addr = localhost 8080; decoder_name = id_public_key decode_id in
      and_then (unwrap_ok (udp_recv_from hc mc S decoder_name bound answer)) (\<lambda>(recv_msg, src_addr).
      and_then (assert_that (save_msg = recv_msg)) (\<lambda>_.
      assert_that (src_addr = bind_addr)))))"

text \<open>What the listener of the next two tests sends back to whoever writes to it: the whole buffer.\<close>

definition listener_reply ::
    "header_codec \<Rightarrow> message codec \<Rightarrow> 'sk sig_scheme \<Rightarrow> 'sk \<Rightarrow> hash \<Rightarrow> u64 \<Rightarrow> bytes outcome" where
  "listener_reply hc mc S server_sk client_name now =
     (let server_id = identity_new S server_sk;
          msg = message_new now (id_public_key server_id) client_name EmptyPayload;
          listener_buffer = replicate MAX_UDP_MSG_SIZE 0 in
      case encode_into_slice hc mc S server_id msg listener_buffer of (r, listener_buffer) \<Rightarrow>
      and_then (unwrap_ok r) (\<lambda>_. Ok listener_buffer))"

definition check_addr_available_test ::
    "header_codec \<Rightarrow> message codec \<Rightarrow> 'sk sig_scheme \<Rightarrow> 'sk \<Rightarrow> 'sk \<Rightarrow> u64 \<Rightarrow>
     (socket_addr \<Rightarrow> bool \<times> recv_answer) \<Rightarrow> unit outcome" where
  "check_addr_available_test hc mc S server_sk client_sk now net =
     (let server_id = identity_new S server_sk; client_id = identity_new S client_sk;
          server_name = id_public_key server_id;
          valid_addr = localhost 8080; invalid_addr = ([127, 0, 0, 2], 9999);
          msg = message_new now (id_public_key client_id) server_name EmptyPayload;
          msg_bytes = replicate MAX_UDP_MSG_SIZE 0 in
      case encode_into_slice hc mc S client_id msg msg_bytes of (r, msg_bytes) \<Rightarrow>
      and_then r (\<lambda>_.
      run_call (case net valid_addr of (sent, answer) \<Rightarrow>
        check_addr_available hc mc S (id_public_key client_id) valid_addr sent answer) (\<lambda>result_valid.
      run_call (case net invalid_addr of (sent, answer) \<Rightarrow>
        check_addr_available hc mc S (id_public_key client_id) invalid_addr sent answer) (\<lambda>result_invalid.
      and_then (assert_that (\<not> is_ok result_invalid)) (\<lambda>_. Ok ())))))"

definition test_check_addresses_available ::
    "header_codec \<Rightarrow> message codec \<Rightarrow> 'sk sig_scheme \<Rightarrow> 'sk \<Rightarrow> 'sk \<Rightarrow> u64 \<Rightarrow>
     (socket_addr \<Rightarrow> bool \<times> recv_answer) \<Rightarrow> unit outcome" where
  "test_check_addresses_available hc mc S server_sk client_sk now net =
     (let client_id = identity_new S client_sk; server_id = identity_new S server_sk;
          server_name = id_public_key server_id in
      and_then (unwrap_ok (spawn_new client_id)) (\<lambda>sign_handle.
      let addresses = [localhost 8080, localhost 8081, ([127, 0, 0, 2], 8080)];
          result = check_addresses_available hc mc S now net addresses server_name sign_handle in
      and_then (assert_that (is_ok result)) (\<lambda>_.
      and_then (unwrap_ok result) (\<lambda>vec.
      and_then (assert_that (length vec = 1)) (\<lambda>_.
      and_then (vec_index vec 0) (\<lambda>first.
      assert_that (first = localhost 8080)))))))"

text \<open>\<open>test_network\<close> sends to port 8081 and listens on 8080, and wants a datagram that comes from the very
  address it listens on.\<close>

lemma test_network_fails:
  assumes "\<forall>bs. answer \<noteq> Datagram bs (localhost 8080)"
  shows "test_network hc mc S sk sk' now bound answer \<noteq> Ok ()"
proof -
  have "src \<noteq> localhost 8080" if "udp_recv_from hc mc S name bound answer = Ok (msg, src)" for name msg src
    using that assms by (auto simp: udp_recv_Ok)
  moreover have "unwrap_ok r = Ok x \<longleftrightarrow> r = Ok x" for r and x :: "message \<times> socket_addr" by (cases r) (simp_all add: unwrap_ok_def)
  ultimately show ?thesis by (auto simp: test_network_def spawn_handle_of id_key_of_new Let_def and_then_Ok)
qed

lemma listener_replies:
  assumes "header_codec_ok hc" and "sig_ok S" and "codes mc enc msg" and "100 + length (enc msg) \<le> MAX_UDP_MSG_SIZE"
    and "msg = message_new now (sg_public S server_sk) client_name EmptyPayload"
  shows "\<exists>buf. listener_reply hc mc S server_sk client_name now = Ok buf \<and> length buf = MAX_UDP_MSG_SIZE \<and>
    message_decode hc mc S client_name buf = Ok msg"
proof -
  have c: "codec_ok_on (\<lambda>m. m = msg) mc enc" using assms(3) by (simp add: codec_ok_on_def)
  have ends: "ms_sender msg = sg_public S server_sk" "ms_receiver msg = client_name" using assms(5) by (simp_all add: message_new_def)
  from encode_into_slice_packet [OF assms(1) c refl assms(2,4), of "replicate MAX_UDP_MSG_SIZE 0" server_sk] obtain buf where
    b: "encode_into_slice hc mc S (identity_new S server_sk) msg (replicate MAX_UDP_MSG_SIZE 0) = (Ok (length (enc msg)), buf)"
      "length buf = MAX_UDP_MSG_SIZE" "take (100 + length (enc msg)) buf = packet S server_sk (enc msg)" by auto
  have "100 + length (enc msg) \<le> length buf" using b(2) assms(4) by simp
  from packet_in_buffer(1) [OF assms(1) c refl assms(2,4) ends b(3) this] b show ?thesis
    by (simp add: listener_reply_def id_key_of_new Let_def assms(5) [symmetric])
qed

section \<open>One port for all checks\<close>

text \<open>What binding a socket means to the operating system: \<open>held\<close> are the local addresses other sockets are
  bound to; an address with port 0 stands for one nobody holds.\<close>

definition can_bind :: "socket_addr set \<Rightarrow> socket_addr \<Rightarrow> bool" where
  "can_bind held local \<longleftrightarrow> snd local = 0 \<or> local \<notin> held"

text \<open>\<open>check_addresses_available\<close> hands its checks to \<open>join_all\<close>, which starts one after the other, each with the
  bind of its socket, before it comes back to any of them. \<open>pending addr\<close> says that the check of \<open>addr\<close> is not
  over when the next one starts: its message is sent and the answer not there yet, so its socket stays open.
  \<open>first_binds\<close> are the addresses whose checks get their socket.\<close>

fun first_binds :: "(socket_addr \<Rightarrow> bool) \<Rightarrow> socket_addr set \<Rightarrow> socket_addr list \<Rightarrow> socket_addr list" where
  "first_binds pending held [] = []"
| "first_binds pending held (addr # addrs) =
     (if can_bind held check_bind_addr
      then addr # first_binds pending (if pending addr then insert check_bind_addr held else held) addrs
      else first_binds pending held addrs)"

text \<open>What the network does for the check of each address of a list: \<open>sends\<close> says whether a socket that is bound
  can send there, \<open>reach\<close> what whoever is there answers.\<close>

definition checks_net ::
    "(socket_addr \<Rightarrow> bool) \<Rightarrow> (socket_addr \<Rightarrow> bool) \<Rightarrow> (socket_addr \<Rightarrow> recv_answer) \<Rightarrow> socket_addr set \<Rightarrow>
     socket_addr list \<Rightarrow> socket_addr \<Rightarrow> bool \<times> recv_answer" where
  "checks_net pending sends reach held addrs addr =
     (addr \<in> set (first_binds pending held addrs) \<and> sends addr, reach addr)"

lemma check_port_taken: "check_bind_addr \<in> held \<Longrightarrow> \<not> can_bind held check_bind_addr"
  by (simp add: can_bind_def check_bind_addr_def UDP_CHECK_PORT_def)

lemma first_binds_taken: "check_bind_addr \<in> held \<Longrightarrow> first_binds pending held addrs = []"
  by (induction addrs) (simp_all add: check_port_taken)

lemma first_binds_pending:
  assumes "pending addr"
  shows "first_binds pending held (addr # addrs) = (if can_bind held check_bind_addr then [addr] else [])"
proof (cases "can_bind held check_bind_addr")
  case False
  then have "check_bind_addr \<in> held" by (simp add: can_bind_def)
  then show ?thesis using False by (simp add: first_binds_taken)
qed (simp add: assms first_binds_taken)

lemma checks_net_others:
  assumes "pending addr" and "a \<noteq> addr"
  shows "\<not> fst (checks_net pending sends reach held (addr # addrs) a)"
  unfolding checks_net_def first_binds_pending [where pending = pending and addr = addr, OF assms(1)]
  using assms(2) by simp

lemma filter_ok_refused:
  assumes "\<forall>a \<in> set addrs. \<not> fst (net a)"
  shows "filter_ok (map (\<lambda>a. case net a of (sent, answer) \<Rightarrow>
       check_addr_available hc mc S my_name a sent answer) addrs) = []"
  using assms by (induction addrs) (simp_all add: check_addr_available_def case_prod_unfold)

lemma check_addresses_first:
  assumes "\<forall>a \<in> set addrs. \<not> fst (net a)"
  shows "check_addresses_available hc mc S now net (addr # addrs) receiver sh =
    and_then (fst (message_encode hc mc S sh (message_new now (sh_public_key_bytes sh) receiver EmptyPayload)
       (replicate MAX_MSG_SIZE 0))) (\<lambda>_.
     Ok (case check_addr_available hc mc S (sh_public_key_bytes sh) addr (fst (net addr)) (snd (net addr)) of
           Ok x \<Rightarrow> [x] | _ \<Rightarrow> []))"
  using filter_ok_refused [OF assms, where hc = hc and mc = mc and S = S and my_name = "sh_public_key_bytes sh"]
  by (simp add: check_addresses_available_def Let_def case_prod_unfold split: outcome.split)

lemma check_addr_available_Ok:
  "check_addr_available hc mc S my_name addr sent answer = Ok x \<Longrightarrow> x = addr"
  by (auto simp: check_addr_available_def and_then_Ok split: if_splits recv_answer.splits)

lemma check_listener:
  assumes "message_decode hc mc S my_name reply = Ok msg" and "ms_payload msg = EmptyPayload"
    and "length reply = MAX_UDP_MSG_SIZE"
  shows "check_addr_available hc mc S my_name addr True (Datagram reply addr) = Ok addr"
  using assms by (simp add: check_addr_available_def)

lemma udp_tests_pass:
  assumes "header_codec_ok hc" and "sig_ok S"
    and "codes mc enc ask" and "100 + length (enc ask) \<le> MAX_UDP_MSG_SIZE"
    and "ask = message_new now (sg_public S client_sk) (sg_public S server_sk) EmptyPayload"
    and "codes mc enc reply" and "100 + length (enc reply) \<le> MAX_UDP_MSG_SIZE"
    and "reply = message_new now (sg_public S server_sk) (sg_public S client_sk) EmptyPayload"
    and "listener_reply hc mc S server_sk (sg_public S client_sk) now = Ok buf"
    and "reach (localhost 8080) = Datagram buf (localhost 8080)"
    and "\<forall>bs src. answer \<noteq> Datagram bs src"
    and "pending (localhost 8080)" and "sends (localhost 8080)"
  shows "test_check_addresses_available hc mc S server_sk client_sk now
      (checks_net pending sends reach {} [localhost 8080, localhost 8081, ([127, 0, 0, 2], 8080)]) = Ok ()"
    and "net (localhost 8080) = (True, reach (localhost 8080)) \<Longrightarrow> net ([127, 0, 0, 2], 9999) = (sent, answer) \<Longrightarrow>
      check_addr_available_test hc mc S server_sk client_sk now net = Ok ()"
proof -
  have big: "MAX_UDP_MSG_SIZE \<le> length (replicate MAX_MSG_SIZE (0 :: u8))" by (simp add: MAX_UDP_MSG_SIZE_def MAX_MSG_SIZE_def)
  have c: "codec_ok_on (\<lambda>m. m = ask) mc enc" using assms(3) by (simp add: codec_ok_on_def)
  from message_encode_packet [OF assms(1) c refl assms(2,4) big, of client_sk] obtain b1 where
    b1: "message_encode hc mc S (handle_of S client_sk) ask (replicate MAX_MSG_SIZE 0) = (Ok (100 + length (enc ask)), b1)"
    by blast
  have key: "sh_public_key_bytes (handle_of S client_sk) = sg_public S client_sk" by (simp add: handle_of_def)
  from listener_replies [OF assms(1,2,6,7,8)] assms(9) have
    buf: "length buf = MAX_UDP_MSG_SIZE" "message_decode hc mc S (sg_public S client_sk) buf = Ok reply" by auto
  have "ms_payload reply = EmptyPayload" using assms(8) by (simp add: message_new_def)
  note check = check_listener [OF buf(2) this buf(1), of "localhost 8080"]
  let ?net = "checks_net pending sends reach {} [localhost 8080, localhost 8081, ([127, 0, 0, 2], 8080)]"
  have first: "?net (localhost 8080) = (True, reach (localhost 8080))"
    unfolding checks_net_def first_binds_pending [where pending = pending and addr = "localhost 8080", OF assms(12)]
    using assms(13) by (simp add: can_bind_def)
  have "\<forall>a \<in> set [localhost 8081, ([127, 0, 0, 2], 8080)]. \<not> fst (?net a)"
    using checks_net_others [where pending = pending and addr = "localhost 8080", OF assms(12)] by (simp add: localhost_def)
  from check_addresses_first [OF this, where hc = hc and mc = mc and S = S and now = now
      and addr = "localhost 8080" and receiver = "sg_public S server_sk" and sh = "handle_of S client_sk"]
  have "check_addresses_available hc mc S now ?net
      [localhost 8080, localhost 8081, ([127, 0, 0, 2], 8080)] (sg_public S server_sk) (handle_of S client_sk) = Ok [localhost 8080]"
    using b1 check assms(10) unfolding first by (simp add: key assms(5) [symmetric])
  then show "test_check_addresses_available hc mc S server_sk client_sk now
      ?net = Ok ()"
    by (simp add: test_check_addresses_available_def spawn_handle_of id_key_of_new vec_index_def Let_def)
  from encode_into_slice_packet [OF assms(1) c refl assms(2,4), of "replicate MAX_UDP_MSG_SIZE 0" client_sk] obtain b2 where
    "encode_into_slice hc mc S (identity_new S client_sk) ask (replicate MAX_UDP_MSG_SIZE 0) = (Ok (length (enc ask)), b2)"
    by auto
  moreover have "is_err (check_addr_available hc mc S (sg_public S client_sk) ([127, 0, 0, 2], 9999) sent answer)"
    using assms(11) by (cases answer) (auto simp: check_addr_available_def)
  then obtain e where "check_addr_available hc mc S (sg_public S client_sk) ([127, 0, 0, 2], 9999) sent answer = Err e" by auto
  ultimately show "check_addr_available_test hc mc S server_sk client_sk now net = Ok ()"
    if "net (localhost 8080) = (True, reach (localhost 8080))" "net ([127, 0, 0, 2], 9999) = (sent, answer)"
    using that check assms(10) by (simp add: check_addr_available_test_def id_key_of_new Let_def assms(5) [symmetric])
qed

section \<open>Properties\<close>

text \<open>C30: Of several addresses only the first can be checked. The checks start together and all bind one
  port, so while the first waits for its answer none of the others gets a socket: whatever is at the other
  addresses, \<open>check_addresses_available\<close> finds at most the first. When that one is dead \<open>make_new\<close> fails and
  never sends its question to the introducer.\<close>

theorem only_first_address_checked:
  assumes "addr \<notin> set addrs" and "pending addr" and "net = checks_net pending sends reach held (addr # addrs)"
    and "nodeinfo_of N n = Ok me" and "info_name me = Ok my_name"
    and "node_get N n introducer = Some info" and "ni_address info = Some (addr # addrs)"
  shows "(\<forall>a \<in> set addrs. \<not> fst (net a)) \<and>
    (check_addresses_available hc mc S now net (addr # addrs) receiver sh = Ok found \<longrightarrow> set found \<subseteq> {addr}) \<and>
    (reach addr = TimedOut \<longrightarrow> \<not> is_ok (fst (make_new hc mc S N now net sock_ok bound answer n introducer sh)) \<and>
       snd (make_new hc mc S N now net sock_ok bound answer n introducer sh) = [])"
proof -
  have others: "\<forall>a \<in> set addrs. \<not> fst (net a)"
    unfolding assms(3) using checks_net_others [where pending = pending and addr = addr, OF assms(2)] assms(1) by metis
  note first = check_addresses_first [OF others, where hc = hc and mc = mc and S = S and now = now and addr = addr and sh = sh]
  have found: "set found \<subseteq> {addr}" if "check_addresses_available hc mc S now net (addr # addrs) receiver sh = Ok found"
    using that unfolding first by (auto simp: and_then_Ok split: outcome.splits dest: check_addr_available_Ok)
  have dead: "\<not> is_ok (fst (make_new hc mc S N now net sock_ok bound answer n introducer sh)) \<and>
      snd (make_new hc mc S N now net sock_ok bound answer n introducer sh) = []" if "reach addr = TimedOut"
  proof -
    have "snd (net addr) = TimedOut" by (simp add: assms(3) checks_net_def that)
    then have "\<exists>e. check_addr_available hc mc S (sh_public_key_bytes sh) addr (fst (net addr)) (snd (net addr)) = Err e"
      by (simp add: check_addr_available_def)
    then have c: "check_addresses_available hc mc S now net (addr # addrs) introducer sh =
        and_then (fst (message_encode hc mc S sh (message_new now (sh_public_key_bytes sh) introducer EmptyPayload)
         (replicate MAX_MSG_SIZE 0))) (\<lambda>_. Ok [])"
      unfolding first by auto
    have i: "info_address info = Ok (addr # addrs)" using assms(7) by (simp add: info_address_def required_def)
    show ?thesis
      by (cases "fst (message_encode hc mc S sh (message_new now (sh_public_key_bytes sh) introducer EmptyPayload)
         (replicate MAX_MSG_SIZE 0))"; simp add: make_new_def assms(4-6) i c)
  qed
  from others found dead show ?thesis by blast
qed

text \<open>The friend's first address is dead, and whoever listens at the second would have answered.\<close>

theorem only_first_address_checked_witness:
  "fst (checks_net (\<lambda>_. True) (\<lambda>_. True)
     (\<lambda>a. if a = friend_addr then TimedOut else Datagram (from_friend EmptyPayload) a) {} [friend_addr, localhost 9] friend_addr) \<and>
   snd (make_new sample_hc pair_mc pair_sig (test_node_impl pair_node) 7
     (checks_net (\<lambda>_. True) (\<lambda>_. True)
       (\<lambda>a. if a = friend_addr then TimedOut else Datagram (from_friend EmptyPayload) a) {} [friend_addr, localhost 9])
     True True TimedOut (pair_node\<lparr>tn_friends := [(friend_key, friend_info\<lparr>ni_address := Some [friend_addr, localhost 9]\<rparr>)]\<rparr>)
     friend_key (handle_of pair_sig True)) = []"
  by (rule conjI, simp add: checks_net_def can_bind_def)
    (rule only_first_address_checked [THEN conjunct2, THEN conjunct2, THEN mp, THEN conjunct2, of friend_addr "[localhost 9]"
        "\<lambda>_. True" _ "\<lambda>_. True" "\<lambda>a. if a = friend_addr then TimedOut else Datagram (from_friend EmptyPayload) a" "{}" _ _
        "node_info_new\<lparr>ni_name := Some node_key\<rparr>" node_key _ "friend_info\<lparr>ni_address := Some [friend_addr, localhost 9]\<rparr>"],
     simp_all add: friend_addr_def localhost_def test_node_impl_def pair_node_def info_name_def required_def node_get_def)

end
