(* ===== verification/Network.thy ===== *)
theory Network imports Identity begin

text \<open>
  \<open>src/network/signal.rs\<close> and the two types of \<open>src/network/network.rs\<close>; and what \<open>Display\<close> of the
  standard library prints for addresses, which \<open>Signal\<close> and the tests use. The octets of an address
  are four or sixteen.
\<close>

section \<open>Printing addresses\<close>

definition digit :: "nat \<Rightarrow> char" where
  "digit n = (if n < 10 then char_of (48 + n) else char_of (87 + n))"

function radix_string :: "nat \<Rightarrow> nat \<Rightarrow> string" where
  "radix_string base n =
     (if base < 2 \<or> n < base then [digit n] else radix_string base (n div base) @ [digit (n mod base)])"
  by pat_completeness auto
termination
  by (relation "measure snd") (auto intro: div_less_dividend)

declare radix_string.simps [simp del]

fun join_with :: "string \<Rightarrow> string list \<Rightarrow> string" where
  "join_with sep [] = []"
| "join_with sep [x] = x"
| "join_with sep (x # xs) = x @ sep @ join_with sep xs"

definition ipv4_string :: "bytes \<Rightarrow> string" where
  "ipv4_string octets = join_with ''.'' (map (radix_string 10 \<circ> unat) octets)"

fun segments :: "bytes \<Rightarrow> nat list" where
  "segments (a # b # bs) = (256 * unat a + unat b) # segments bs"
| "segments _ = []"

text \<open>The first longest run of zero segments: where it starts and how long it is.\<close>

fun zero_run :: "nat \<Rightarrow> nat \<times> nat \<Rightarrow> nat \<times> nat \<Rightarrow> nat list \<Rightarrow> nat \<times> nat" where
  "zero_run i current longest [] = longest"
| "zero_run i current longest (s # ss) =
     (if s = 0 then
        let current = (if snd current = 0 then i else fst current, snd current + 1)
        in zero_run (i + 1) current (if snd current > snd longest then current else longest) ss
      else zero_run (i + 1) (0, 0) longest ss)"

definition ipv6_string :: "bytes \<Rightarrow> string" where
  "ipv6_string octets =
     (let segs = segments octets; hex = (\<lambda>ss. join_with '':'' (map (radix_string 16) ss)) in
      if take 6 segs = [0, 0, 0, 0, 0, 65535] then ''::ffff:'' @ ipv4_string (drop 12 octets)
      else case zero_run 0 (0, 0) (0, 0) segs of
        (start, len) \<Rightarrow>
          if len > 1 then hex (take start segs) @ ''::'' @ hex (drop (start + len) segs) else hex segs)"

definition ip_string :: "bytes \<Rightarrow> string" where
  "ip_string octets = (if length octets = 4 then ipv4_string octets else ipv6_string octets)"

definition addr_string :: "socket_addr \<Rightarrow> string" where
  "addr_string addr =
     (case addr of (ip, port) \<Rightarrow>
        if length ip = 4 then ip_string ip @ '':'' @ radix_string 10 port
        else ''['' @ ip_string ip @ '']:'' @ radix_string 10 port)"

section \<open>Signals\<close>

text \<open>\<open>'st\<close> is a TCP stream.\<close>

datatype 'st signal = CloseSignal | ListenResult 'st string

definition from_accept_result :: "'st \<times> socket_addr \<Rightarrow> 'st signal" where
  "from_accept_result listen_result =
     (let sockaddr_str = ip_string (fst (snd listen_result)) @ '':'' @ radix_string 10 (snd (snd listen_result))
      in ListenResult (fst listen_result) sockaddr_str)"

datatype network_state = BusyNetwork | IdleNetwork | ErrorNetwork

record network_handler =
  nh_state :: network_state

section \<open>A number can be read back\<close>

definition digit_value :: "char \<Rightarrow> nat" where
  "digit_value c = (if of_char c < (58 :: nat) then of_char c - 48 else of_char c - 87)"

lemma digit_value_digit: "n < 16 \<Longrightarrow> digit_value (digit n) = n"
  by (simp add: digit_def digit_value_def)

lemma radix_string_read:
  assumes "2 \<le> base" and "base \<le> 16"
  shows "foldl (\<lambda>acc c. base * acc + digit_value c) 0 (radix_string base n) = n"
proof (induction n rule: less_induct)
  case (less n)
  show ?case
  proof (cases "n < base")
    case True
    with assms show ?thesis by (subst radix_string.simps) (simp add: digit_value_digit)
  next
    case False
    then have "n div base < n" using assms by (simp add: div_less_dividend)
    from less [OF this] have "foldl (\<lambda>acc c. base * acc + digit_value c) 0 (radix_string base n) =
        base * (n div base) + digit_value (digit (n mod base))"
      using False assms by (subst radix_string.simps) simp
    also have "n mod base < 16" using assms by (simp add: order_less_le_trans [OF mod_less_divisor])
    then have "digit_value (digit (n mod base)) = n mod base" by (rule digit_value_digit)
    finally show ?thesis by simp
  qed
qed

lemma radix_string_inject: "2 \<le> base \<Longrightarrow> base \<le> 16 \<Longrightarrow> radix_string base m = radix_string base n \<longleftrightarrow> m = n"
  by (metis radix_string_read)

lemmas print_defs = addr_string_def ip_string_def ipv4_string_def ipv6_string_def radix_string.simps digit_def char_of_def bit_0

lemma sample_addresses:
  "addr_string ([127, 0, 0, 1], 8081) = ''127.0.0.1:8081''"
  "ip_string [0, 0, 0, 0, 0, 0, 0, 0, 0, 0, 0, 0, 0, 0, 0, 1] = ''::1''"
  "from_accept_result (s, ([254, 254, 0, 0, 0, 0, 0, 0, 0, 0, 0, 0, 0, 0, 1, 171], 80)) = ListenResult s ''fefe::1ab:80''"
  by (simp_all add: print_defs from_accept_result_def Let_def)

end
