(* ===== verification/Logger.thy ===== *)
theory Logger imports Prelude begin

text \<open>
  The logger functions of \<open>src/herrors.rs\<close>. The crates log and env_logger are a parameter \<open>L\<close>: what
  initialising the global logger does (with a level, or with that of the environment), what a logged
  line does, and how an error prints. \<open>log_ok\<close> is the documented behaviour: \<open>init\<close> sets the
  global logger, and panics when it is set already.
\<close>

text \<open>How the errors of a pipe are printed.\<close>

definition pipe_error_display :: "pipe_error \<Rightarrow> string" where
  "pipe_error_display e =
     (case e of Close \<Rightarrow> ''Pipe closed'' | Full \<Rightarrow> ''Pipe full'' | Empty \<Rightarrow> ''Pipe empty'')"

datatype log_level = LevelTrace | LevelDebug | LevelInfo | LevelWarn | LevelError

record 's log_crate =
  lg_set :: "'s \<Rightarrow> bool"
  lg_init :: "log_level option \<Rightarrow> 's \<Rightarrow> unit outcome \<times> 's"
  lg_log :: "log_level \<Rightarrow> string \<Rightarrow> 's \<Rightarrow> 's"
  lg_debug :: "herror \<Rightarrow> string"

definition logger_init :: "'s log_crate \<Rightarrow> 's \<Rightarrow> unit outcome \<times> 's" where
  "logger_init L = lg_init L None"

definition logger_init_with_level :: "'s log_crate \<Rightarrow> log_level \<Rightarrow> 's \<Rightarrow> unit outcome \<times> 's" where
  "logger_init_with_level L level = lg_init L (Some level)"

definition logger_init_above_info :: "'s log_crate \<Rightarrow> 's \<Rightarrow> unit outcome \<times> 's" where
  "logger_init_above_info L = logger_init_with_level L LevelInfo"

definition logger_init_above_debug :: "'s log_crate \<Rightarrow> 's \<Rightarrow> unit outcome \<times> 's" where
  "logger_init_above_debug L = logger_init_with_level L LevelDebug"

definition logger_init_above_trace :: "'s log_crate \<Rightarrow> 's \<Rightarrow> unit outcome \<times> 's" where
  "logger_init_above_trace L = logger_init_with_level L LevelTrace"

definition logger_init_above_error :: "'s log_crate \<Rightarrow> 's \<Rightarrow> unit outcome \<times> 's" where
  "logger_init_above_error L = logger_init_with_level L LevelWarn"

definition logger_info :: "'s log_crate \<Rightarrow> string \<Rightarrow> 's \<Rightarrow> 's" where
  "logger_info L msg = lg_log L LevelInfo msg"

definition logger_error :: "'s log_crate \<Rightarrow> string \<Rightarrow> 's \<Rightarrow> 's" where
  "logger_error L msg = lg_log L LevelError msg"

definition logger_error_with_error :: "'s log_crate \<Rightarrow> herror \<Rightarrow> 's \<Rightarrow> 's" where
  "logger_error_with_error L e = lg_log L LevelError (lg_debug L e)"

definition logger_debug :: "'s log_crate \<Rightarrow> string \<Rightarrow> 's \<Rightarrow> 's" where
  "logger_debug L msg = lg_log L LevelDebug msg"

definition logger_debug_with_error :: "'s log_crate \<Rightarrow> herror \<Rightarrow> 's \<Rightarrow> 's" where
  "logger_debug_with_error L e = lg_log L LevelDebug (lg_debug L e)"

text \<open>The spawned task logs its lines while the test sleeps.\<close>

definition test_logger :: "'s log_crate \<Rightarrow> 's \<Rightarrow> unit outcome \<times> 's" where
  "test_logger L s =
     (case logger_init_above_info L s of
        (Ok _, s) \<Rightarrow> (Ok (), logger_debug L ''test logger debug''
          (logger_error L ''test logger error'' (logger_info L ''test logger info'' s)))
      | (r, s) \<Rightarrow> (r, s))"

definition log_ok :: "'s log_crate \<Rightarrow> bool" where
  "log_ok L \<longleftrightarrow>
     (\<forall>level s. fst (lg_init L level s) = (if lg_set L s then Panic else Ok ()) \<and> lg_set L (snd (lg_init L level s))) \<and>
     (\<forall>level msg s. lg_set L (lg_log L level msg s) = lg_set L s)"

lemma logger_init_verdict:
  assumes "log_ok L"
  shows "fst (logger_init L s) = (if lg_set L s then Panic else Ok ())"
    "fst (logger_init_above_info L s) = (if lg_set L s then Panic else Ok ())"
    "lg_set L (snd (logger_init L s))" "lg_set L (snd (logger_init_above_info L s))"
  using assms by (simp_all add: log_ok_def logger_init_def logger_init_above_info_def logger_init_with_level_def)

lemma logger_test_once:
  assumes "log_ok L"
  shows "fst (test_logger L s) = (if lg_set L s then Panic else Ok ())" "lg_set L (snd (test_logger L s))"
proof -
  obtain r s' where i: "logger_init_above_info L s = (r, s')" by (metis prod.collapse)
  from logger_init_verdict(2,4) [OF assms, of s] i
  have "r = (if lg_set L s then Panic else Ok ())" "lg_set L s'" by simp_all
  with i assms show "fst (test_logger L s) = (if lg_set L s then Panic else Ok ())" "lg_set L (snd (test_logger L s))"
    by (simp_all add: test_logger_def log_ok_def logger_info_def logger_error_def logger_debug_def)
qed

text \<open>A sample of the crates: whether a logger is set, the level it prints from, and what it printed.\<close>

fun level_rank :: "log_level \<Rightarrow> nat" where
  "level_rank LevelTrace = 0"
| "level_rank LevelDebug = 1"
| "level_rank LevelInfo = 2"
| "level_rank LevelWarn = 3"
| "level_rank LevelError = 4"

definition sample_log :: "(nat option \<times> string list) log_crate" where
  "sample_log =
     \<lparr>lg_set = (\<lambda>s. fst s \<noteq> None),
      lg_init = (\<lambda>level s. if fst s = None then (Ok (), (Some (case level of Some l \<Rightarrow> level_rank l | None \<Rightarrow> 4), snd s)) else (Panic, s)),
      lg_log = (\<lambda>level msg s. case fst s of Some n \<Rightarrow> if n \<le> level_rank level then (Some n, snd s @ [msg]) else s | None \<Rightarrow> s),
      lg_debug = (\<lambda>e. ''error'')\<rparr>"

lemma sample_log_ok: "log_ok sample_log"
  by (auto simp: log_ok_def sample_log_def split: option.split)

lemma sample_logged:
  "snd (test_logger sample_log (None, [])) = (Some 2, [''test logger info'', ''test logger error''])"
  by (simp add: test_logger_def sample_log_def logger_init_above_info_def logger_init_with_level_def logger_info_def
      logger_error_def logger_debug_def)

end
