(* ===== verification/TaskTests.thy ===== *)
theory TaskTests imports MessageTests NodeSystem Network Logger begin

text \<open>
  The tests of \<open>src/req_resp.rs\<close>, \<open>src/network/register.rs\<close> and \<open>src/nodes/node.rs\<close>: tasks behind channels.
  What a task makes of its turns comes from the definitions of the task; a test that waits for
  something that never comes is \<open>Diverge\<close>.
\<close>

section \<open>Waiting\<close>

text \<open>What the next receiver of a task's results gets first: the result, an error when the task is gone, and
  nothing at all while it runs.\<close>

definition recv_from_task :: "'t request list \<times> task_status \<Rightarrow> 't outcome" where
  "recv_from_task run =
     (case run of
        (req # reqs, st) \<Rightarrow> recv_data (Some req)
      | ([], st) \<Rightarrow> (if st = Running then Diverge else recv_data None))"

section \<open>Workers\<close>

definition test_request_worker :: "nat \<Rightarrow> nat \<Rightarrow> nat \<Rightarrow> nat \<Rightarrow> unit outcome" where
  "test_request_worker chan c1 c2 c3 =
     (let task = (\<lambda>x :: 32 word. Ok (x + 1)) in
      and_then (worker_new chan 10 task) (\<lambda>worker.
      let turns = (\<lambda>reqs. map (\<lambda>r. Received (Some r)) reqs); run = worker_run (wk_task worker) (\<lambda>_. True) in
      case request_send c1 True 1 of (r, sent) \<Rightarrow>
      and_then (unwrap_ok r) (\<lambda>response.
      and_then (unwrap_ok (response_wait (reply_for (rs_receiver response) (fst (run (turns sent)))))) (\<lambda>result.
      and_then (assert_that (result = 2)) (\<lambda>_.
      case request_send c2 True 3 of (r2, sent2) \<Rightarrow>
      and_then (unwrap_ok r2) (\<lambda>response2.
      and_then (unwrap_ok (response_wait (reply_for (rs_receiver response2) (fst (run (turns (sent @ sent2))))))) (\<lambda>result2.
      and_then (assert_that (result2 = 4)) (\<lambda>_.
      let status = snd (run (turns (sent @ sent2) @ [Cancelled]));
          response3 = fst (request_send c3 (status = Running) (5 :: 32 word)) in
      assert_that (\<not> is_ok response3)))))))))"

lemma request_worker_test_passes: "c1 \<noteq> c2 \<Longrightarrow> test_request_worker chan c1 c2 c3 = Ok ()"
  by (simp add: test_request_worker_def worker_new_def send_defs response_wait_def send_back_def Let_def)

section \<open>Payload tasks\<close>

definition test_payload_handler :: "nat \<Rightarrow> nat \<Rightarrow> unit outcome" where
  "test_payload_handler chan c =
     (let handle = (\<lambda>payload. Ok payload);
          handler = snd (handler_reg payload_handler_new EmptyType handle);
          woker_result = create_channel chan 1 in
      and_then (assert_that (is_ok woker_result)) (\<lambda>_.
      and_then (unwrap_ok woker_result) (\<lambda>(request_worker, work_receiver).
      case request_send c True EmptyPayload of (response_result, sent) \<Rightarrow>
      and_then (assert_that (is_ok response_result)) (\<lambda>_.
      and_then (unwrap_ok response_result) (\<lambda>response.
      let payload_result = response_wait (reply_for (rs_receiver response)
            (fst (handler_run handler (\<lambda>_. True) (map (\<lambda>r. Received (Some r)) sent)))) in
      and_then (assert_that (is_ok payload_result)) (\<lambda>_.
      and_then (unwrap_ok payload_result) (\<lambda>payload.
      assert_that (payload = EmptyPayload))))))))"

definition test_async_payload_handler :: "nat \<Rightarrow> nat \<Rightarrow> unit outcome" where
  "test_async_payload_handler chan c =
     (let async_handle = (\<lambda>payload. Ok payload);
          handler = snd (reg_async async_register_new EmptyType async_handle);
          request_worker_result = create_channel chan 1 in
      and_then (assert_that (is_ok request_worker_result)) (\<lambda>_.
      and_then (unwrap_ok request_worker_result) (\<lambda>(request_worker, request_reciver).
      case request_send c True EmptyPayload of (result, sent) \<Rightarrow>
      and_then (assert_that (is_ok result)) (\<lambda>_.
      and_then (unwrap_ok result) (\<lambda>response.
      let payload_result = response_wait (reply_for (rs_receiver response)
            (fst (async_run handler (\<lambda>_. True) (map (\<lambda>r. Received (Some r)) sent)))) in
      and_then (assert_that (is_ok payload_result)) (\<lambda>_.
      and_then (unwrap_ok payload_result) (\<lambda>payload.
      assert_that (payload = EmptyPayload))))))))"

lemma payload_handler_tests_pass:
  "test_payload_handler chan c = Ok ()" "test_async_payload_handler chan c = Ok ()"
  using sync.hdl_reg_same [of EmptyPayload EmptyType payload_handler_new "\<lambda>payload. Ok payload"]
    async.hdl_reg_same [of EmptyPayload EmptyType async_register_new "\<lambda>payload. Ok payload"]
  by (simp_all add: test_payload_handler_def test_async_payload_handler_def create_channel_def send_defs
      response_wait_def send_back_def Let_def)

section \<open>The tasks of a node\<close>

definition test_start_sign_handle :: "'sk sig_scheme \<Rightarrow> 'sk \<Rightarrow> 'sk \<Rightarrow> 'sk \<Rightarrow> unit outcome" where
  "test_start_sign_handle S sk sk' sk'' =
     and_then (test_node_new S sk) (\<lambda>new.
     let N = test_node_impl new in
     and_then (unwrap_ok (init_new N S sk')) (\<lambda>node.
     let idn = identity_new S sk'' in
     case start_sign_handle N node idn of (result, node) \<Rightarrow>
     and_then (assert_that (is_ok result)) (\<lambda>_.
     let msg = bytes_of ''hello world'' in
     and_then (unwrap_ok (node_sign N S node msg)) (\<lambda>signature.
     and_then (unwrap_ok (sign_handle_of N node)) (\<lambda>handle.
     let result = handle_verify S handle msg signature in
     assert_that (is_ok result))))))"

text \<open>The datagram of \<open>send_empty_payload_to_port_8080\<close>, and the name it is signed under; \<open>bound\<close> and \<open>sent\<close>
  say whether the socket on port 8081 could be bound and took the datagram.\<close>

definition send_empty_payload ::
    "header_codec \<Rightarrow> message codec \<Rightarrow> 'sk sig_scheme \<Rightarrow> 'sk \<Rightarrow> u64 \<Rightarrow> bool \<Rightarrow> bool \<Rightarrow> hash \<Rightarrow> (bytes \<times> hash) outcome" where
  "send_empty_payload hc mc S sk now bound sent name =
     (let idn = identity_new S sk; new_name = public_key_to_bytes idn in
      and_then (spawn_new idn) (\<lambda>sender_sign_handle.
      let msg = message_new now new_name name EmptyPayload; buffer = replicate MAX_UDP_MSG_SIZE 0 in
      case message_encode hc mc S sender_sign_handle msg buffer of (r, buffer) \<Rightarrow>
      and_then (unwrap_ok r) (\<lambda>bytes_size.
      let buffer = take bytes_size buffer in
      and_then (assert_that bound) (\<lambda>_.
      if sent then Ok (buffer, new_name) else Err H_IO))))"

text \<open>The environment of the step tests: the keys of the node and of the sender, clock readings of the
  sender and of the node's answer, whether port 8081 can be bound and written to, and whether the
  node's socket was bound before the datagram came (otherwise it hears nothing).\<close>

record 'sk step_env =
  se_node :: 'sk
  se_sender :: 'sk
  se_now :: u64
  se_answer_now :: u64
  se_bound :: bool
  se_sent :: bool
  se_in_time :: bool

definition arrival :: "'sk step_env \<Rightarrow> bytes \<Rightarrow> recv_answer" where
  "arrival env datagram = (if se_in_time env then Datagram datagram (localhost 8081) else TimedOut)"

definition test_spawn_step1_task ::
    "'l log_crate \<Rightarrow> 'l \<Rightarrow> header_codec \<Rightarrow> message codec \<Rightarrow> 'sk sig_scheme \<Rightarrow> 'sk step_env \<Rightarrow> unit outcome" where
  "test_spawn_step1_task L l hc mc S env =
     and_then (fst (logger_init L l)) (\<lambda>_.
     and_then (test_node_new S (se_node env)) (\<lambda>node.
     let N = test_node_impl node in
     and_then (unwrap_ok (nodeinfo_of N node)) (\<lambda>info.
     and_then (unwrap_ok (info_name info)) (\<lambda>name.
     and_then (create_channel 0 100) (\<lambda>(requester, receiver).
     let result = spawn_recv_net_task N node in
     and_then (assert_that (is_ok result)) (\<lambda>_.
     and_then (unwrap_ok (send_empty_payload hc mc S (se_sender env) (se_now env) (se_bound env) (se_sent env) name))
       (\<lambda>(datagram, new_name).
     run_call (recv_from_task (recv_net_run hc mc S name [Received (True, arrival env datagram, 1, True)])) (\<lambda>result.
     and_then (assert_that (is_ok result)) (\<lambda>_.
     and_then (unwrap_ok result) (\<lambda>(msg, src_addr).
     and_then (assert_that (ms_payload msg = EmptyPayload)) (\<lambda>_.
     assert_that (addr_string src_addr = ''127.0.0.1:8081''))))))))))))"

text \<open>Step 2 and step 3 hold the test's channel open, so a test that gets nothing waits for ever.\<close>

definition test_spawn_step2_task ::
    "'l log_crate \<Rightarrow> 'l \<Rightarrow> header_codec \<Rightarrow> message codec \<Rightarrow> 'sk sig_scheme \<Rightarrow> 'sk step_env \<Rightarrow> unit outcome" where
  "test_spawn_step2_task L l hc mc S env =
     and_then (fst (logger_init_above_info L l)) (\<lambda>_.
     and_then (test_node_new S (se_node env)) (\<lambda>node.
     let N = test_node_impl node in
     and_then (unwrap_ok (nodeinfo_of N node)) (\<lambda>info.
     and_then (unwrap_ok (info_name info)) (\<lambda>name.
     and_then (create_channel 0 100) (\<lambda>(requester, receiver).
     let result = spawn_handler_task N 1 node in
     and_then (assert_that (is_ok result)) (\<lambda>_.
     and_then (unwrap_ok result) (\<lambda>(register, step_2_worker).
     let result = spawn_recv_net_task N node in
     and_then (assert_that (is_ok result)) (\<lambda>_.
     let result = send_empty_payload hc mc S (se_sender env) (se_now env) (se_bound env) (se_sent env) name in
     and_then (assert_that (is_ok result)) (\<lambda>_.
     and_then (unwrap_ok result) (\<lambda>(datagram, new_name).
     let received = fst (recv_net_run hc mc S name [Received (True, arrival env datagram, 1, True)]);
         children = fst (handler_task_run (map (\<lambda>r. Received (Some r)) received));
         answers = concat (map (child_task register (se_answer_now env) 2 True) children)
     in run_call (recv_from_task (answers, Running)) (\<lambda>result.
     and_then (assert_that (is_ok result)) (\<lambda>_.
     and_then (unwrap_ok result) (\<lambda>(msg, src_addr).
     and_then (assert_that (ms_payload msg = EmptyPayload)) (\<lambda>_.
     assert_that (addr_string src_addr = ''127.0.0.1:8081'')))))))))))))))"

definition test_spawn_step3_task ::
    "'l log_crate \<Rightarrow> 'l \<Rightarrow> header_codec \<Rightarrow> message codec \<Rightarrow> 'sk sig_scheme \<Rightarrow> 'sk step_env \<Rightarrow> unit outcome" where
  "test_spawn_step3_task L l hc mc S env =
     and_then (fst (logger_init_above_info L l)) (\<lambda>_.
     and_then (test_node_new S (se_node env)) (\<lambda>node.
     let N = test_node_impl node in
     and_then (unwrap_ok (nodeinfo_of N node)) (\<lambda>info.
     and_then (unwrap_ok (info_name info)) (\<lambda>name.
     and_then (create_channel 0 100) (\<lambda>(requester, receiver).
     let result = spawn_encode_and_sign_task N 1 node in
     and_then (assert_that (is_ok result)) (\<lambda>_.
     and_then (unwrap_ok result) (\<lambda>(sign_handle, step_3_worker).
     let result = spawn_handler_task N 2 node in
     and_then (assert_that (is_ok result)) (\<lambda>_.
     and_then (unwrap_ok result) (\<lambda>(register, step_2_worker).
     let result = spawn_recv_net_task N node in
     and_then (assert_that (is_ok result)) (\<lambda>_.
     let result = send_empty_payload hc mc S (se_sender env) (se_now env) (se_bound env) (se_sent env) name in
     and_then (assert_that (is_ok result)) (\<lambda>_.
     and_then (unwrap_ok result) (\<lambda>(datagram, new_name).
     let received = fst (recv_net_run hc mc S name [Received (True, arrival env datagram, 1, True)]);
         children = fst (handler_task_run (map (\<lambda>r. Received (Some r)) received));
         answers = concat (map (child_task register (se_answer_now env) 2 True) children);
         packets = fst (encode_and_sign_run hc mc S sign_handle (map (\<lambda>r. Received (Some r, 3, True)) answers))
     in run_call (recv_from_task (packets, Running)) (\<lambda>result.
     and_then (assert_that (is_ok result)) (\<lambda>_.
     and_then (unwrap_ok result) (\<lambda>(vec_bytes, src_addr).
     and_then (unwrap_ok (message_decode hc mc S new_name vec_bytes)) (\<lambda>msg.
     and_then (assert_that (ms_payload msg = EmptyPayload)) (\<lambda>_.
     assert_that (addr_string src_addr = ''127.0.0.1:8081''))))))))))))))))))"

text \<open>The loop of step 4 runs until the timeout of ten seconds: for ever-answered rounds \<open>envs\<close> is what fits
  into it, and a round that gets no datagram waits for the timeout.\<close>

fun step4_loop ::
    "header_codec \<Rightarrow> message codec \<Rightarrow> 'sk sig_scheme \<Rightarrow> hash \<Rightarrow> async_register \<Rightarrow> 'sk sign_handle \<Rightarrow>
     'sk step_env list \<Rightarrow> nat \<Rightarrow> nat outcome" where
  "step4_loop hc mc S name register sign_handle [] cnt = Ok cnt"
| "step4_loop hc mc S name register sign_handle (env # envs) cnt =
     (let result = send_empty_payload hc mc S (se_sender env) (se_now env) (se_bound env) (se_sent env) name in
      and_then (assert_that (is_ok result)) (\<lambda>_.
      and_then (unwrap_ok result) (\<lambda>(datagram, new_name).
      let received = fst (recv_net_run hc mc S name [Received (True, arrival env datagram, 1, True)]);
          children = fst (handler_task_run (map (\<lambda>r. Received (Some r)) received));
          answers = concat (map (child_task register (se_answer_now env) 2 True) children);
          packets = fst (encode_and_sign_run hc mc S sign_handle (map (\<lambda>r. Received (Some r, 3, True)) answers));
          datagrams = fst (udp_send_run (map (\<lambda>r. Received (Some r, Some (length (fst (rq_data r))))) packets)) in
      case datagrams of
        [] \<Rightarrow> Ok cnt
      | (answer, dst_addr) # _ \<Rightarrow>
          and_then (unwrap_ok (message_decode hc mc S new_name (take MAX_UDP_MSG_SIZE answer))) (\<lambda>msg.
          and_then (assert_that (ms_payload msg = EmptyPayload)) (\<lambda>_.
          step4_loop hc mc S name register sign_handle envs (cnt + 1))))))"

definition test_spawn_step4_task ::
    "'l log_crate \<Rightarrow> 'l \<Rightarrow> header_codec \<Rightarrow> message codec \<Rightarrow> 'sk sig_scheme \<Rightarrow> 'sk \<Rightarrow> 'sk step_env list \<Rightarrow> unit outcome" where
  "test_spawn_step4_task L l hc mc S sk envs =
     and_then (fst (logger_init_above_info L l)) (\<lambda>_.
     and_then (test_node_new S sk) (\<lambda>node.
     let N = test_node_impl node in
     and_then (unwrap_ok (nodeinfo_of N node)) (\<lambda>info.
     and_then (unwrap_ok (info_address info)) (\<lambda>addrs.
     and_then (vec_index addrs 0) (\<lambda>first.
     let bind_addr = (fst first, 8888 :: nat); result = spawn_udp_send_to_task 0 in
     and_then (assert_that (is_ok result)) (\<lambda>_.
     let result = spawn_encode_and_sign_task N 1 node in
     and_then (assert_that (is_ok result)) (\<lambda>_.
     and_then (unwrap_ok result) (\<lambda>(sign_handle, step_3_worker).
     let result = spawn_handler_task N 2 node in
     and_then (assert_that (is_ok result)) (\<lambda>_.
     and_then (unwrap_ok result) (\<lambda>(register, step_2_worker).
     let result = spawn_recv_net_task N node in
     and_then (assert_that (is_ok result)) (\<lambda>_.
     and_then (unwrap_ok (info_name info)) (\<lambda>name.
     and_then (step4_loop hc mc S name register sign_handle envs 0) (\<lambda>cnt. Ok ())))))))))))))"

section \<open>Their verdicts\<close>

text \<open>An environment in which the messages fit a datagram and the sender's socket works.\<close>

definition step_ask :: "'sk sig_scheme \<Rightarrow> 'sk step_env \<Rightarrow> message" where
  "step_ask S env = message_new (se_now env) (sg_public S (se_sender env)) (sg_public S (se_node env)) EmptyPayload"

definition step_answer :: "'sk sig_scheme \<Rightarrow> 'sk step_env \<Rightarrow> message" where
  "step_answer S env = message_new (se_answer_now env) (sg_public S (se_node env)) (sg_public S (se_sender env)) EmptyPayload"

definition step_ok :: "message codec \<Rightarrow> (message \<Rightarrow> bytes) \<Rightarrow> 'sk sig_scheme \<Rightarrow> 'sk step_env \<Rightarrow> bool" where
  "step_ok mc enc S env \<longleftrightarrow> se_bound env \<and> se_sent env \<and>
     codes mc enc (step_ask S env) \<and> 100 + length (enc (step_ask S env)) \<le> MAX_UDP_MSG_SIZE \<and>
     codes mc enc (step_answer S env) \<and> 100 + length (enc (step_answer S env)) \<le> MAX_UDP_MSG_SIZE"

definition the_test_node :: "'sk sig_scheme \<Rightarrow> 'sk \<Rightarrow> 'sk test_node" where
  "the_test_node S sk =
     \<lparr>tn_this_node_info = node_info_new\<lparr>ni_address := Some [localhost 8080, localhost 8888], ni_name := Some (sg_public S sk)\<rparr>,
      tn_sign_handle = Some (handle_of S sk), tn_friends = [], tn_async_payload_handler = pair_register\<rparr>"

lemma test_node_new_Ok: "test_node_new S sk = Ok (the_test_node S sk)"
  by (simp add: test_node_new_def the_test_node_def spawn_handle_of localhost_def pair_register_def Let_def)
    (simp add: handle_of_def)

lemma the_test_node_simps [simp]:
  "nodeinfo_of (test_node_impl n) (the_test_node S sk) =
     Ok (node_info_new\<lparr>ni_address := Some [localhost 8080, localhost 8888], ni_name := Some (sg_public S sk)\<rparr>)"
  "sign_handle_of (test_node_impl n) (the_test_node S sk) = Ok (handle_of S sk)"
  "async_payload_handler_of (test_node_impl n) (the_test_node S sk) = Ok pair_register"
  "info_name (node_info_new\<lparr>ni_address := a, ni_name := Some name\<rparr>) = Ok name"
  "info_address (node_info_new\<lparr>ni_address := Some addrs, ni_name := m\<rparr>) = Ok addrs"
  "spawn_recv_net_task (test_node_impl n) (the_test_node S sk) = Ok (sg_public S sk, localhost 8080)"
  "spawn_handler_task (test_node_impl n) c (the_test_node S sk) = Ok (pair_register, \<lparr>rw_sender = c\<rparr>)"
  "spawn_encode_and_sign_task (test_node_impl n) c (the_test_node S sk) = Ok (handle_of S sk, \<lparr>rw_sender = c\<rparr>)"
  by (simp_all add: test_node_impl_def the_test_node_def test_sign_handle_def info_name_def info_address_def required_def
      spawn_recv_net_task_def spawn_handler_task_def spawn_encode_and_sign_task_def capacity_pos vec_index_def)

lemma send_empty_payload_Ok:
  assumes "header_codec_ok hc" and "sig_ok S" and "step_ok mc enc S env"
  shows "send_empty_payload hc mc S (se_sender env) (se_now env) (se_bound env) (se_sent env) (sg_public S (se_node env)) =
    Ok (packet S (se_sender env) (enc (step_ask S env)), sg_public S (se_sender env))"
proof -
  let ?ask = "step_ask S env"
  have c: "codec_ok_on (\<lambda>m. m = ?ask) mc enc" using assms(3) by (simp add: step_ok_def codec_ok_on_def)
  have l: "100 + length (enc ?ask) \<le> MAX_UDP_MSG_SIZE" using assms(3) by (simp add: step_ok_def)
  from message_encode_packet [OF assms(1) c refl assms(2) l, of "replicate MAX_UDP_MSG_SIZE 0" "se_sender env"] assms(3)
  show ?thesis by (auto simp: send_empty_payload_def spawn_handle_of Let_def step_ask_def [symmetric] step_ok_def)
qed

lemma step_received:
  assumes "header_codec_ok hc" and "sig_ok S" and "step_ok mc enc S env"
  shows "recv_net_run hc mc S (sg_public S (se_node env))
      [Received (True, arrival env (packet S (se_sender env) (enc (step_ask S env))), 1, True)] =
    (if se_in_time env then ([\<lparr>rq_sender = 1, rq_data = (step_ask S env, localhost 8081)\<rparr>], Running) else ([], Stopped))"
proof -
  let ?ask = "step_ask S env" and ?d = "packet S (se_sender env) (enc (step_ask S env))"
  have c: "codes mc enc ?ask" and l: "100 + length (enc ?ask) \<le> MAX_UDP_MSG_SIZE" using assms(3) by (simp_all add: step_ok_def)
  have "length ?d \<le> MAX_UDP_MSG_SIZE" using l assms(2) by simp
  moreover have "ms_sender ?ask = sg_public S (se_sender env)" "ms_receiver ?ask = sg_public S (se_node env)"
    by (simp_all add: step_ask_def message_new_def)
  ultimately have "message_decode hc mc S (sg_public S (se_node env)) (take MAX_UDP_MSG_SIZE ?d) = Ok ?ask"
    using decode_reply [OF assms(1) c assms(2) l, of "se_sender env"] by simp
  then show ?thesis by (simp add: arrival_def udp_recv_from_def send_defs)
qed

lemma step_answers:
  "concat (map (child_task pair_register (se_answer_now env) 2 True)
     (fst (handler_task_run (map (\<lambda>r. Received (Some r)) [\<lparr>rq_sender = 1, rq_data = (step_ask S env, localhost 8081)\<rparr>])))) =
   [\<lparr>rq_sender = 2, rq_data = (step_answer S env, localhost 8081)\<rparr>]"
  using pair_register_empty
  by (simp add: recv_data_def child_task_def spawn_handle_def send_defs step_ask_def step_answer_def message_new_def)

lemma step_packets:
  assumes "header_codec_ok hc" and "sig_ok S" and "step_ok mc enc S env"
  shows "encode_and_sign_run hc mc S (handle_of S (se_node env))
      [Received (Some \<lparr>rq_sender = 2, rq_data = (step_answer S env, localhost 8081)\<rparr>, 3, True)] =
    ([\<lparr>rq_sender = 3, rq_data = (packet S (se_node env) (enc (step_answer S env)), localhost 8081)\<rparr>], Running)"
proof -
  let ?m = "step_answer S env"
  have c: "codec_ok_on (\<lambda>m. m = ?m) mc enc" using assms(3) by (simp add: step_ok_def codec_ok_on_def)
  have l: "100 + length (enc ?m) \<le> MAX_UDP_MSG_SIZE" using assms(3) by (simp add: step_ok_def)
  from message_encode_packet [OF assms(1) c refl assms(2) l, of "replicate MAX_UDP_MSG_SIZE 0" "se_node env"]
  show ?thesis by (auto simp: recv_data_def send_defs)
qed

lemma step_packets_map:
  assumes "header_codec_ok hc" and "sig_ok S" and "step_ok mc enc S env"
  shows "encode_and_sign_run hc mc S (handle_of S (se_node env)) (map (\<lambda>r. Received (Some r, 3, True))
      [\<lparr>rq_sender = 2, rq_data = (step_answer S env, localhost 8081)\<rparr>]) =
    ([\<lparr>rq_sender = 3, rq_data = (packet S (se_node env) (enc (step_answer S env)), localhost 8081)\<rparr>], Running)"
  using step_packets [OF assms] by (simp del: encode_and_sign_run.simps)

lemma step_decodes:
  assumes "header_codec_ok hc" and "sig_ok S" and "step_ok mc enc S env"
  shows "message_decode hc mc S (sg_public S (se_sender env)) (packet S (se_node env) (enc (step_answer S env))) =
      Ok (step_answer S env)"
    "length (packet S (se_node env) (enc (step_answer S env))) \<le> MAX_UDP_MSG_SIZE"
    "ms_payload (step_answer S env) = EmptyPayload" "ms_payload (step_ask S env) = EmptyPayload"
proof -
  let ?m = "step_answer S env"
  have c: "codes mc enc ?m" and l: "100 + length (enc ?m) \<le> MAX_UDP_MSG_SIZE" using assms(3) by (simp_all add: step_ok_def)
  have "ms_sender ?m = sg_public S (se_node env)" "ms_receiver ?m = sg_public S (se_sender env)"
    by (simp_all add: step_answer_def message_new_def)
  with decode_reply [OF assms(1) c assms(2) l, of "se_node env"]
  show "message_decode hc mc S (sg_public S (se_sender env)) (packet S (se_node env) (enc ?m)) = Ok ?m" by simp
  show "length (packet S (se_node env) (enc ?m)) \<le> MAX_UDP_MSG_SIZE" using l assms(2) by simp
  show "ms_payload ?m = EmptyPayload" "ms_payload (step_ask S env) = EmptyPayload"
    by (simp_all add: step_answer_def step_ask_def message_new_def)
qed

lemma start_sign_handle_test_passes:
  assumes "sig_ok S"
  shows "test_start_sign_handle S sk sk' sk'' = Ok ()"
proof -
  obtain n where n: "init_new (test_node_impl (the_test_node S sk)) S sk' = Ok n"
    using test.init_new_Ok [of "the_test_node S sk" S sk'] by blast
  let ?n = "set_sign_handle_of (test_node_impl (the_test_node S sk)) n (handle_of S sk'')"
  have h: "sign_handle_of (test_node_impl (the_test_node S sk)) ?n = Ok (handle_of S sk'')"
    by (rule test.handle_set)
  have "sh_public_key_bytes (handle_of S sk'') = sg_public S sk''" by (simp add: handle_of_def)
  with n h test.start_sign_handle_Ok [of "the_test_node S sk" n S sk''] test.sign_under [OF h, of "bytes_of ''hello world''"]
    sig_ok_verify [OF assms]
  show ?thesis by (simp add: test_start_sign_handle_def test_node_new_Ok handle_verify_def Let_def)
qed

lemma addr_8081: "addr_string (localhost 8081) = ''127.0.0.1:8081''"
  unfolding localhost_def by (rule sample_addresses)

lemma step_tests_verdict:
  assumes "header_codec_ok hc" and "sig_ok S" and "step_ok mc enc S env" and "log_ok L"
  shows "test_spawn_step1_task L l hc mc S env = (if lg_set L l then Panic else if se_in_time env then Ok () else Panic)"
    and "test_spawn_step2_task L l hc mc S env = (if lg_set L l then Panic else if se_in_time env then Ok () else Diverge)"
    and "test_spawn_step3_task L l hc mc S env = (if lg_set L l then Panic else if se_in_time env then Ok () else Diverge)"
proof -
  have none: "fst (handler_task_run []) = []" "fst (encode_and_sign_run hc mc S (handle_of S (se_node env)) []) = []"
    by simp_all
  note runs = send_empty_payload_Ok [OF assms(1-3)] step_received [OF assms(1-3)] step_packets_map [OF assms(1-3)] step_decodes [OF assms(1-3)]
    step_answers [of env S] logger_init_verdict(1,2) [OF assms(4), of l]
  show "test_spawn_step1_task L l hc mc S env = (if lg_set L l then Panic else if se_in_time env then Ok () else Panic)"
    and "test_spawn_step2_task L l hc mc S env = (if lg_set L l then Panic else if se_in_time env then Ok () else Diverge)"
    and "test_spawn_step3_task L l hc mc S env = (if lg_set L l then Panic else if se_in_time env then Ok () else Diverge)"
  using runs none
  by (simp_all add: test_spawn_step1_task_def test_spawn_step2_task_def test_spawn_step3_task_def test_node_new_Ok
      create_channel_def recv_from_task_def recv_data_def addr_8081 Let_def
      del: recv_net_run.simps encode_and_sign_run.simps handler_task_run.simps list.map(2))
qed

lemma step4_loop_Ok:
  assumes "header_codec_ok hc" and "sig_ok S" and "\<forall>env \<in> set envs. step_ok mc enc S env \<and> se_node env = sk"
  shows "step4_loop hc mc S (sg_public S sk) pair_register (handle_of S sk) envs n =
    Ok (n + length (takeWhile se_in_time envs))"
  using assms(3)
proof (induction envs arbitrary: n)
  case (Cons env envs)
  then have ok: "step_ok mc enc S env" and sk: "sk = se_node env" by auto
  note runs = send_empty_payload_Ok [OF assms(1,2) ok] step_received [OF assms(1,2) ok]
    step_packets_map [OF assms(1,2) ok] step_decodes [OF assms(1,2) ok] step_answers [of env S]
  have none: "fst (handler_task_run []) = []" "fst (encode_and_sign_run hc mc S (handle_of S (se_node env)) []) = []"
    "fst (udp_send_run []) = []" by simp_all
  let ?p = "packet S (se_node env) (enc (step_answer S env))"
  have sent: "fst (udp_send_run (map (\<lambda>r. Received (Some r, Some (length (fst (rq_data r)))))
      [\<lparr>rq_sender = 3, rq_data = (?p, localhost 8081)\<rparr>])) = [(?p, localhost 8081)]"
    using runs(5) by (simp add: recv_data_def wrapper_udp_send_to_def)
  show ?case
  proof (cases "se_in_time env")
    case True
    from Cons.IH [of "n + 1"] Cons.prems have "step4_loop hc mc S (sg_public S sk) pair_register (handle_of S sk) envs (n + 1) =
        Ok (n + 1 + length (takeWhile se_in_time envs))" by simp
    with True runs sent show ?thesis
      by (simp add: sk Let_def del: recv_net_run.simps encode_and_sign_run.simps handler_task_run.simps
          udp_send_run.simps list.map(2))
  next
    case False
    with runs none show ?thesis
      by (simp add: sk Let_def del: recv_net_run.simps encode_and_sign_run.simps handler_task_run.simps
          udp_send_run.simps)
  qed
qed simp

lemma step4_test_passes:
  assumes "header_codec_ok hc" and "sig_ok S" and "\<forall>env \<in> set envs. step_ok mc enc S env \<and> se_node env = sk" and "log_ok L"
  shows "test_spawn_step4_task L l hc mc S sk envs = (if lg_set L l then Panic else Ok ())"
  using step4_loop_Ok [OF assms(1-3), of 0] logger_init_verdict(2) [OF assms(4), of l]
  by (simp add: test_spawn_step4_task_def test_node_new_Ok spawn_udp_send_to_task_def create_channel_def
      CHANNEL_CAPACITY_def vec_index_def Let_def)

section \<open>Properties\<close>

definition sample_step_env :: "bool \<Rightarrow> bool step_env" where
  "sample_step_env in_time = \<lparr>se_node = True, se_sender = False, se_now = 5, se_answer_now = 7, se_bound = True,
     se_sent = True, se_in_time = in_time\<rparr>"

lemma sample_step_ok: "step_ok pair_mc pair_enc pair_sig (sample_step_env in_time)"
proof -
  have "step_ask pair_sig (sample_step_env in_time) = to_node EmptyPayload"
    "step_answer pair_sig (sample_step_env in_time) = to_friend EmptyPayload"
    by (simp_all add: step_ask_def step_answer_def sample_step_env_def to_node_def to_friend_def message_new_def
        node_key_def friend_key_def)
  moreover have "codes pair_mc pair_enc (to_node EmptyPayload)" "codes pair_mc pair_enc (to_friend EmptyPayload)"
    by (rule pair_codes; simp add: pair_messages_def)+
  ultimately show ?thesis using pair_small by (simp add: step_ok_def sample_step_env_def)
qed

text \<open>The tests of the node's tasks, on any faithful codec and signature scheme with messages that fit a
  datagram: the handles of \<open>start_sign_handle\<close> sign verifiably, and every round of step 4 that is answered in
  time keeps its test passing. But all four step tests initialise the global logger and panic when that is done
  already, so at most one of them can pass in a process; and steps 1 to 3 need the node's socket bound before the
  datagram is sent: otherwise step 1 fails and steps 2 and 3 wait for ever.\<close>

theorem node_tests_verdict:
  assumes "header_codec_ok hc" and "sig_ok S" and "step_ok mc enc S env" and "log_ok L"
  shows "test_start_sign_handle S sk sk' sk'' = Ok () \<and>
    test_spawn_step1_task L l hc mc S env = (if lg_set L l then Panic else if se_in_time env then Ok () else Panic) \<and>
    test_spawn_step2_task L l hc mc S env = (if lg_set L l then Panic else if se_in_time env then Ok () else Diverge) \<and>
    test_spawn_step3_task L l hc mc S env = (if lg_set L l then Panic else if se_in_time env then Ok () else Diverge) \<and>
    test_spawn_step4_task L l hc mc S (se_node env) (replicate rounds env) = (if lg_set L l then Panic else Ok ()) \<and>
    lg_set L (snd (logger_init L l)) \<and> lg_set L (snd (logger_init_above_info L l))"
  using start_sign_handle_test_passes [OF assms(2)] step_tests_verdict [OF assms] logger_init_verdict [OF assms(4)]
    step4_test_passes [OF assms(1,2) _ assms(4), of "replicate rounds env" mc enc "se_node env"] assms(3) by simp

theorem node_tests_verdict_instance:
  "test_spawn_step1_task sample_log (None, []) sample_hc pair_mc pair_sig (sample_step_env True) = Ok () \<and>
    test_spawn_step2_task sample_log (snd (logger_init sample_log (None, []))) sample_hc pair_mc pair_sig (sample_step_env True) = Panic \<and>
    test_spawn_step3_task sample_log (None, []) sample_hc pair_mc pair_sig (sample_step_env False) = Diverge \<and>
    test_spawn_step4_task sample_log (None, []) sample_hc pair_mc pair_sig True [sample_step_env True, sample_step_env True] = Ok ()"
proof -
  note verdict = node_tests_verdict [OF sample_hc_ok pair_sig_ok sample_step_ok sample_log_ok]
  have fresh: "\<not> lg_set sample_log (None, [])" by (simp add: sample_log_def)
  have env: "se_in_time (sample_step_env b) = b" "se_node (sample_step_env b) = True" for b
    by (simp_all add: sample_step_env_def)
  from fresh verdict [of True True True "(None, [])" True "Suc (Suc 0)"] verdict [of True True True "(None, [])" False 0]
    verdict [of True True True "snd (logger_init sample_log (None, []))" True 0]
  show ?thesis by (simp add: env del: sample_log_ok)
qed

end
