(* ===== verification/DbDefs.thy ===== *)
theory DbDefs imports ChainDefs SerializerDefs begin

text \<open>
  \<open>src/db.rs\<close>, the definitions: \<open>MetaData\<close> and the file they are kept in, \<open>MetaDataIterator\<close>,
  \<open>FileDataBase\<close> and \<open>Bundle\<close>. The disk is a map from path strings to file contents; two strings
  that name one file through links or \<open>..\<close> are not identified. What the operating system answers
  beyond that (a failing open, copy or write) is an argument of the operation. bincode is the
  parameter \<open>mc\<close> for metadata and \<open>cd\<close> for chains. Writes are idealised: the code never flushes a
  \<open>tokio::fs::File\<close> before it drops it, so bytes may still be under way to the file when \<open>save_to_file\<close> or
  \<open>save_meta_to_file\<close> returns (and an error of that last write is never seen); in the model they are in
  the file at once and in order. A \<open>String\<close> is its UTF-8 bytes, as characters.
\<close>

type_synonym disk = "string \<Rightarrow> bytes option"

section \<open>Paths\<close>

text \<open>\<open>PathBuf::push\<close> and \<open>Path::file_name\<close> of the standard library, on Unix.\<close>

definition path_push :: "string \<Rightarrow> string \<Rightarrow> string" where
  "path_push dir name =
     (if name \<noteq> [] \<and> hd name = CHR ''/'' then name
      else if dir = [] \<or> last dir = CHR ''/'' then dir @ name
      else dir @ ''/'' @ name)"

fun path_split :: "string \<Rightarrow> string \<Rightarrow> string list" where
  "path_split [] acc = [acc]"
| "path_split (c # cs) acc =
     (if c = CHR ''/'' then acc # path_split cs [] else path_split cs (acc @ [c]))"

definition path_file_name :: "string \<Rightarrow> string option" where
  "path_file_name p =
     (let cs = filter (\<lambda>c. c \<noteq> [] \<and> c \<noteq> ''.'') (path_split p [])
      in if cs = [] \<or> last cs = ''..'' then None else Some (last cs))"

section \<open>Metadata\<close>

record meta_data =
  md_name :: string
  md_uuid :: uuid

definition meta_new :: "string \<Rightarrow> uuid \<Rightarrow> meta_data" where
  "meta_new name uuid = \<lparr>md_name = name, md_uuid = uuid\<rparr>"

definition meta_encode_into :: "meta_data codec \<Rightarrow> meta_data \<Rightarrow> bytes \<Rightarrow> nat outcome \<times> bytes" where
  "meta_encode_into mc meta buffer =
     (case into_slice_of mc meta buffer of
        (Encoded n, buffer) \<Rightarrow> (Ok n, buffer)
      | (_, buffer) \<Rightarrow> (Err (H_Message ''error in encode_into of MetaData: {}''), buffer))"

definition meta_decode_from :: "meta_data codec \<Rightarrow> bytes \<Rightarrow> meta_data outcome" where
  "meta_decode_from mc buffer =
     (case from_slice_of mc buffer of
        Some (meta, _) \<Rightarrow> Ok meta
      | None \<Rightarrow> Err (H_Message ''error in decode_from of MetaData: {}''))"

text \<open>\<open>save_meta_to_file\<close>: the file is opened, and created when it is missing, after the encoding. What
  \<open>write_all\<close> took is appended at once (the code does not wait for it with a flush).\<close>

definition save_meta_to_file ::
    "meta_data codec \<Rightarrow> bool \<Rightarrow> bool \<Rightarrow> disk \<Rightarrow> meta_data \<Rightarrow> string \<Rightarrow> unit outcome \<times> disk" where
  "save_meta_to_file mc open_ok write_ok disk meta path =
     (let buffer = replicate (MAX_FILE_NAME_LEN * 2) 0 in
      case meta_encode_into mc meta (drop 4 buffer) of
        (Ok n, tail) \<Rightarrow>
          if \<not> open_ok then (Err H_IO, disk)
          else let content = (case disk path of Some bs \<Rightarrow> bs | None \<Rightarrow> []);
                   size = (word_of_nat n :: u32);
                   buffer = write_at (take 4 buffer @ tail) 0 (u32_be size)
               in (case slice buffer 0 (unat size + 4) of
                     Ok out \<Rightarrow>
                       if write_ok then (Ok (), disk(path \<mapsto> content @ out))
                       else (Err H_IO, disk(path \<mapsto> content))
                   | _ \<Rightarrow> (Panic, disk(path \<mapsto> content)))
      | (Err e, _) \<Rightarrow> (Err e, disk)
      | (_, _) \<Rightarrow> (Panic, disk))"

text \<open>\<open>read_exact\<close> on an open file, given by the bytes that are left: a short file is read to its end.\<close>

definition file_read_exact :: "nat \<Rightarrow> bytes \<Rightarrow> bytes outcome \<times> bytes" where
  "file_read_exact n rest =
     (if n \<le> length rest then (Ok (take n rest), drop n rest) else (Err H_IO, []))"

definition get_one_meta_from_file ::
    "meta_data codec \<Rightarrow> bytes \<Rightarrow> (meta_data \<times> nat) outcome \<times> bytes" where
  "get_one_meta_from_file mc rest =
     (case file_read_exact 4 rest of
        (Ok size_bytes, rest) \<Rightarrow>
          (let size = unat (u32_from_be size_bytes) in
           case file_read_exact size rest of
             (Ok meta_bytes, rest) \<Rightarrow>
               (and_then (meta_decode_from mc meta_bytes) (\<lambda>meta. Ok (meta, size)), rest)
           | (_, rest) \<Rightarrow> (Err H_IO, rest))
      | (_, rest) \<Rightarrow> (Err H_IO, rest))"

definition set_name :: "meta_data \<Rightarrow> string \<Rightarrow> meta_data outcome" where
  "set_name meta name =
     (if length name > MAX_FILE_NAME_LEN then Err (H_Message ''the file's name is too long'')
      else Ok (meta\<lparr>md_name := name\<rparr>))"

definition set_uuid :: "meta_data \<Rightarrow> uuid \<Rightarrow> meta_data" where
  "set_uuid meta uuid = meta\<lparr>md_uuid := uuid\<rparr>"

section \<open>The iterator over the metadata file\<close>

record meta_iterator =
  it_rest :: bytes            \<comment> \<open>\<open>file_stream\<close>: what is left to read\<close>
  it_current_pos :: nat
  it_end_pos :: nat

definition iterator_new :: "disk \<Rightarrow> string \<Rightarrow> meta_iterator outcome" where
  "iterator_new disk path =
     (case disk path of
        Some content \<Rightarrow>
          Ok \<lparr>it_rest = content, it_current_pos = 0, it_end_pos = length content\<rparr>
      | None \<Rightarrow> Err H_IO)"

text \<open>\<open>reset\<close> moves the counter and leaves the file where it is.\<close>

definition iterator_reset :: "meta_iterator \<Rightarrow> meta_iterator" where
  "iterator_reset it = it\<lparr>it_current_pos := 0\<rparr>"

definition iterator_next ::
    "meta_data codec \<Rightarrow> meta_iterator \<Rightarrow> meta_data outcome option \<times> meta_iterator" where
  "iterator_next mc it =
     (if it_current_pos it = it_end_pos it then (None, it)
      else case get_one_meta_from_file mc (it_rest it) of
             (Ok (meta, sz), rest) \<Rightarrow>
               (Some (Ok meta),
                it\<lparr>it_rest := rest, it_current_pos := it_current_pos it + (sz + 4)\<rparr>)
           | (r, rest) \<Rightarrow>
               (Some (and_then r (\<lambda>(meta, _). Ok meta)), iterator_reset (it\<lparr>it_rest := rest\<rparr>)))"

lemma iterator_next_shrinks:
  "iterator_next mc it = (Some (Ok meta), it') \<Longrightarrow> length (it_rest it') < length (it_rest it)"
  by (auto simp: iterator_next_def get_one_meta_from_file_def file_read_exact_def Let_def
      iterator_reset_def and_then_Ok split: if_splits prod.splits outcome.splits)

section \<open>The file database\<close>

text \<open>The \<open>HashMap\<close> behind the lock is an association list without duplicate keys.\<close>

record file_database =
  fd_uuid_list :: "(uuid \<times> meta_data) list"
  fd_data_dir :: string
  fd_bundle_file :: string

text \<open>\<open>FileDataBase::new\<close>; \<open>current\<close> is what \<open>current_dir\<close> answers, if it can.\<close>

definition file_database_new :: "string option \<Rightarrow> string option \<Rightarrow> file_database outcome" where
  "file_database_new current dir_opt =
     and_then (case dir_opt of
                 Some dir \<Rightarrow> Ok dir
               | None \<Rightarrow> (case current of Some dir \<Rightarrow> Ok dir | None \<Rightarrow> Err H_IO))
       (\<lambda>data_dir. Ok \<lparr>fd_uuid_list = [], fd_data_dir = data_dir,
                       fd_bundle_file = path_push data_dir ''bundle''\<rparr>)"

text \<open>\<open>tokio::fs::copy\<close>: the target is truncated first, so a file copied onto itself is emptied.\<close>

definition fs_copy :: "bool \<Rightarrow> disk \<Rightarrow> string \<Rightarrow> string \<Rightarrow> unit outcome \<times> disk" where
  "fs_copy copy_ok disk src dst =
     (case disk src of
        Some content \<Rightarrow>
          if copy_ok then (Ok (), disk(dst \<mapsto> (if src = dst then [] else content)))
          else (Err H_IO, disk)
      | None \<Rightarrow> (Err H_IO, disk))"

definition save_file ::
    "meta_data codec \<Rightarrow> bool \<Rightarrow> bool \<Rightarrow> bool \<Rightarrow> file_database \<Rightarrow> disk \<Rightarrow> string \<Rightarrow> meta_data \<Rightarrow>
     unit outcome \<times> disk" where
  "save_file mc copy_ok open_ok write_ok fd disk file_path meta =
     (case path_file_name file_path of
        Some name \<Rightarrow>
          (case fs_copy copy_ok disk file_path (path_push (fd_data_dir fd) name) of
             (Ok _, disk) \<Rightarrow>
               save_meta_to_file mc open_ok write_ok disk meta (path_push (fd_data_dir fd) ''meta'')
           | (r, disk) \<Rightarrow> (r, disk))
      | None \<Rightarrow> (Err (H_Message ''bad file_path, cab't get the the file''), disk))"

text \<open>The loop of \<open>find_meta\<close> over the iterator, with the list it fills and the result so far.\<close>

function find_meta_loop ::
    "meta_data codec \<Rightarrow> uuid \<Rightarrow> meta_iterator \<Rightarrow> meta_data option \<Rightarrow> (uuid \<times> meta_data) list \<Rightarrow>
     meta_data option \<times> (uuid \<times> meta_data) list" where
  "find_meta_loop mc uuid it result_meta uuid_list =
     (case iterator_next mc it of
        (Some (Ok meta), it') \<Rightarrow>
          find_meta_loop mc uuid it'
            (if md_uuid meta = uuid then Some meta else result_meta)
            (AList.update (md_uuid meta) meta uuid_list)
      | (Some _, _) \<Rightarrow> (result_meta, uuid_list)
      | (None, _) \<Rightarrow> (result_meta, uuid_list))"
  by pat_completeness auto
termination
  by (relation "measure (\<lambda>(mc, uuid, it, r, l). length (it_rest it))")
    (auto intro: iterator_next_shrinks [OF sym])

declare find_meta_loop.simps [simp del]

definition find_meta ::
    "meta_data codec \<Rightarrow> disk \<Rightarrow> uuid \<Rightarrow> file_database \<Rightarrow> meta_data option \<times> file_database" where
  "find_meta mc disk uuid fd =
     (let size = length (fd_uuid_list fd) in
      if size \<noteq> 0 then
        (case map_of (fd_uuid_list fd) uuid of
           Some meta \<Rightarrow> (Some meta, fd)
         | None \<Rightarrow> (None, fd))
      else case iterator_new disk (path_push (fd_data_dir fd) ''meta'') of
             Ok it \<Rightarrow>
               (case find_meta_loop mc uuid it None (fd_uuid_list fd) of
                  (r, l) \<Rightarrow> (r, fd\<lparr>fd_uuid_list := l\<rparr>))
           | _ \<Rightarrow> (None, fd))"

text \<open>\<open>save_chain\<close> and \<open>find_chain\<close> are stubs in the source.\<close>

definition save_chain :: "file_database \<Rightarrow> 'b block_chain \<Rightarrow> unit outcome" where
  "save_chain fd chain = Ok ()"

definition find_chain :: "file_database \<Rightarrow> uuid \<Rightarrow> 'b block_chain option" where
  "find_chain fd uuid = None"

section \<open>Bundles of chains\<close>

definition DEFAULT_BUNDLE_FILE :: string where "DEFAULT_BUNDLE_FILE = ''chains.bundle''"

record 'b chain_bundle =
  bd_serializer :: "'b block_chain serializer"
  bd_counter :: u32
  bd_origin :: u64
  bd_time_gap :: u64
  bd_path :: string

definition bundle_default_new :: "'b chain_bundle" where
  "bundle_default_new =
     \<lparr>bd_serializer = serializer_new None, bd_counter = 0, bd_origin = 0, bd_time_gap = 0,
      bd_path = DEFAULT_BUNDLE_FILE\<rparr>"

definition update_description_with_chain ::
    "('b, 'z) block_impl_scheme \<Rightarrow> 'b chain_bundle \<Rightarrow> 'b block_chain \<Rightarrow> unit outcome \<times> 'b chain_bundle" where
  "update_description_with_chain I b chain =
     (let time_gap = gap_of block_chain_impl chain in
      case chain_origin block_chain_impl I chain of
        Ok (Some origin) \<Rightarrow>
          if bd_counter b = 0
          then (Ok (), b\<lparr>bd_origin := origin, bd_time_gap := gap_of block_chain_impl chain,
                         bd_counter := 1\<rparr>)
          else (case and_then (add_u64 (bd_origin b) (bd_time_gap b)) (\<lambda>m.
                     and_then (add_u64 origin time_gap) (\<lambda>m'. Ok (max m m'))) of
                  Ok time_max \<Rightarrow>
                    (let b = b\<lparr>bd_origin := min (bd_origin b) origin\<rparr> in
                     case sub_u64 time_max (bd_origin b) of
                       Ok gap \<Rightarrow>
                         (let b = b\<lparr>bd_time_gap := gap\<rparr> in
                          case add_u32 (bd_counter b) 1 of
                            Ok n \<Rightarrow> (Ok (), b\<lparr>bd_counter := n\<rparr>)
                          | _ \<Rightarrow> (Panic, b))
                     | _ \<Rightarrow> (Panic, b))
                | _ \<Rightarrow> (Panic, b))
      | Ok None \<Rightarrow> (Ok (), b)
      | _ \<Rightarrow> (Panic, b))"

text \<open>\<open>encode_to_stream\<close>: the result, the bundle and what the stream was given.\<close>

definition encode_to_stream ::
    "'b block_chain codec \<Rightarrow> bool \<Rightarrow> 'b chain_bundle \<Rightarrow> 'b block_chain \<Rightarrow>
     'b block_chain outcome \<times> 'b chain_bundle \<times> bytes" where
  "encode_to_stream cd write_ok b chain =
     (case save_into_asyncwrite cd write_ok (set_data (bd_serializer b) chain) of
        (Ok _, s, out) \<Rightarrow>
          (case take_data s of
             (None, s) \<Rightarrow> (Err (H_Message ''serializer take data failed''), b\<lparr>bd_serializer := s\<rparr>, out)
           | (Some self_back, s) \<Rightarrow> (Ok self_back, b\<lparr>bd_serializer := s\<rparr>, out))
      | (Err e, s, out) \<Rightarrow> (Err e, b\<lparr>bd_serializer := s\<rparr>, out)
      | (_, s, out) \<Rightarrow> (Panic, b\<lparr>bd_serializer := s\<rparr>, out))"

text \<open>\<open>save_to_file\<close>: the file is opened for appending; the position just after that is 0. The frame is in the
  file when the call returns, though the code does not flush it.\<close>

definition save_to_file ::
    "'b block_chain codec \<Rightarrow> ('b, 'z) block_impl_scheme \<Rightarrow> bool \<Rightarrow> bool \<Rightarrow> disk \<Rightarrow> 'b chain_bundle \<Rightarrow>
     'b block_chain \<Rightarrow> 'b block_chain outcome \<times> 'b chain_bundle \<times> disk" where
  "save_to_file cd I open_ok write_ok disk b chain =
     (let path = bd_path b in
      if \<not> open_ok then (Err H_IO, b, disk)
      else let content = (case disk path of Some bs \<Rightarrow> bs | None \<Rightarrow> []); save_pos = 0 in
           case encode_to_stream cd write_ok b chain of
             (Ok chain, b, out) \<Rightarrow>
               (case update_description_with_chain I b chain of
                  (Ok _, b) \<Rightarrow> (Ok chain, b, disk(path \<mapsto> content @ out))
                | (Err e, b) \<Rightarrow> (Err e, b, disk(path \<mapsto> take save_pos (content @ out)))
                | (_, b) \<Rightarrow> (Panic, b, disk(path \<mapsto> content @ out)))
           | (r, b, out) \<Rightarrow> (r, b, disk(path \<mapsto> content @ out)))"

text \<open>\<open>save_chains_to_bundle\<close>: the file is opened without truncation and written from its start;
  \<open>accepts\<close> is how much of the one \<open>write\<close> the file takes, \<open>None\<close> for an error.\<close>

definition save_chains_to_bundle ::
    "'b block_chain codec \<Rightarrow> bool \<Rightarrow> nat option \<Rightarrow> disk \<Rightarrow> 'b chain_bundle \<Rightarrow> 'b block_chain list \<Rightarrow>
     nat outcome \<times> 'b chain_bundle \<times> disk" where
  "save_chains_to_bundle cd open_ok accepts disk b chs =
     (case encode_vec_into cd (bd_serializer b) chs of
        (r, s) \<Rightarrow>
          let b = b\<lparr>bd_serializer := s\<rparr>; path = bd_path b in
          (case r of
             Ok len \<Rightarrow>
               if \<not> open_ok then (Err H_IO, b, disk)
               else let content = (case disk path of Some bs \<Rightarrow> bs | None \<Rightarrow> []) in
                 (case accepts of
                    None \<Rightarrow> (Err H_IO, b, disk(path \<mapsto> content))
                  | Some limit \<Rightarrow>
                      (case slice (ser_buffer s) 0 len of
                         Ok out \<Rightarrow>
                           let nwrite = min limit len;
                               disk = disk(path \<mapsto> take nwrite out @ drop nwrite content)
                           in if nwrite \<noteq> len
                              then (Err (H_Message ''write error in function ssave_chains_to_bundle''), b, disk)
                              else (Ok len, b, disk)
                       | _ \<Rightarrow> (Panic, b, disk(path \<mapsto> content))))
           | r \<Rightarrow> (r, b, disk)))"

text \<open>\<open>load_chains_from_bundle\<close>: \<open>pieces_of\<close> is how the file hands out its content.\<close>

definition load_chains_from_bundle ::
    "'b block_chain codec \<Rightarrow> (bytes \<Rightarrow> bytes list) \<Rightarrow> disk \<Rightarrow> 'b chain_bundle \<Rightarrow>
     'b block_chain list outcome \<times> 'b chain_bundle" where
  "load_chains_from_bundle cd pieces_of disk b =
     (case disk (bd_path b) of
        None \<Rightarrow> (Err H_IO, b)
      | Some content \<Rightarrow>
          (case decode_from_asyncread cd (pieces_of content) (bd_serializer b) of
             (r, s) \<Rightarrow> (r, b\<lparr>bd_serializer := s\<rparr>)))"

end
