(* ===== verification/Db.thy ===== *)
theory Db imports DbDefs Serializer Chain begin

text \<open>
  What the database promises: the metadata file is the \<open>frames\<close> of the metadata saved, a search with
  an empty cache finds the last one saved under a uuid, and a bundle file is the \<open>frames\<close> of the
  chains saved. The weaknesses the properties at the end state are those of the source: the cache
  is never refreshed, a file called \<open>meta\<close> replaces the metadata file, and a vector of chains is
  written over the old content of its bundle.
\<close>

section \<open>Paths\<close>

lemma path_split_no_slash: "CHR ''/'' \<notin> set acc \<Longrightarrow> c \<in> set (path_split p acc) \<Longrightarrow> CHR ''/'' \<notin> set c"
  by (induction p acc rule: path_split.induct) (auto split: if_splits)

lemma file_name_no_slash: "path_file_name p = Some n \<Longrightarrow> CHR ''/'' \<notin> set n \<and> n \<noteq> []"
proof -
  assume p: "path_file_name p = Some n"
  let ?cs = "filter (\<lambda>c. c \<noteq> [] \<and> c \<noteq> ''.'') (path_split p [])"
  from p have "?cs \<noteq> []" "n = last ?cs"
    by (auto simp: path_file_name_def Let_def split: if_splits)
  then have "n \<in> set ?cs" using last_in_set by metis
  then show ?thesis using path_split_no_slash [of "[]" n p] by auto
qed

lemma path_push_inject:
  "CHR ''/'' \<notin> set m \<Longrightarrow> CHR ''/'' \<notin> set n \<Longrightarrow> path_push dir m = path_push dir n \<longleftrightarrow> m = n"
  by (cases m; cases n) (auto simp: path_push_def)

lemma meta_path_apart:
  assumes "path_file_name p = Some n" and "n \<noteq> ''meta''"
  shows "path_push dir n \<noteq> path_push dir ''meta''"
  using file_name_no_slash [OF assms(1)] assms(2) by (subst path_push_inject) auto

section \<open>Metadata in its file\<close>

definition meta_pairs :: "meta_data list \<Rightarrow> (uuid \<times> meta_data) list" where
  "meta_pairs ms = map (\<lambda>m. (md_uuid m, m)) ms"

text \<open>The last of the metadata saved under a uuid.\<close>

definition latest :: "meta_data list \<Rightarrow> uuid \<Rightarrow> meta_data option" where
  "latest ms = map_of (rev (meta_pairs ms))"

lemma latest_simps [simp]:
  "latest [] = Map.empty"
  "latest (m # ms) = [md_uuid m \<mapsto> m] ++ latest ms"
  by (auto simp: latest_def meta_pairs_def)

lemma latest_None_iff: "latest ms u = None \<longleftrightarrow> u \<notin> md_uuid ` set ms"
  by (induction ms) (auto simp: map_add_def split: option.splits)

text \<open>What \<open>save_meta_to_file\<close> has room for, and what bincode writes of it.\<close>

definition meta_fits :: "meta_data codec \<Rightarrow> (meta_data \<Rightarrow> bytes) \<Rightarrow> meta_data \<Rightarrow> bool" where
  "meta_fits mc enc m \<longleftrightarrow> codes mc enc m \<and> length (enc m) \<le> 252"

lemma save_meta_appends:
  assumes "meta_fits mc enc m"
  shows "save_meta_to_file mc True True disk m path =
    (Ok (), disk(path \<mapsto> (case disk path of Some bs \<Rightarrow> bs | None \<Rightarrow> []) @ frame enc m))"
proof -
  let ?b = "replicate 256 (0 :: u8)"
  have c: "codes mc enc m" and l: "length (enc m) \<le> 252" using assms by (simp_all add: meta_fits_def)
  from l codes_fits [OF c, of "drop 4 ?b"] obtain tail where
    t: "into_slice_of mc m (drop 4 ?b) = (Encoded (length (enc m)), tail)" "length tail = 252"
      "take (length (enc m)) tail = enc m" by auto
  have "take (4 + length (enc m)) (write_at (take 4 ?b @ tail) 0 (u32_be (word_of_nat (length (enc m)))))
      = frame enc m"
    using write_header [of 0 "enc m" "take 4 ?b @ tail"] l t(2,3) by (simp add: frame_def)
  moreover have "unat (word_of_nat (length (enc m)) :: u32) = length (enc m)"
    using l by (simp add: unat_of_nat)
  ultimately show ?thesis
    using t l by (simp add: save_meta_to_file_def meta_encode_into_def MAX_FILE_NAME_LEN_def Let_def
        slice_def add.commute)
qed

lemma get_one_meta_frame:
  assumes "meta_fits mc enc m"
  shows "get_one_meta_from_file mc (frame enc m @ rest) = (Ok (m, length (enc m)), rest)"
proof -
  have "codes mc enc m" and l: "length (enc m) \<le> 252" using assms by (simp_all add: meta_fits_def)
  then have "from_slice_of mc (enc m @ []) = Some (m, length (enc m))" unfolding codes_def by blast
  moreover have "unat (word_of_nat (length (enc m)) :: u32) = length (enc m)"
    using l by (simp add: unat_of_nat)
  ultimately show ?thesis
    by (simp add: get_one_meta_from_file_def file_read_exact_def frame_def meta_decode_from_def Let_def)
qed

lemma find_meta_loop_frames:
  assumes "\<forall>m \<in> set ms. meta_fits mc enc m"
  shows "\<exists>l'. find_meta_loop mc u \<lparr>it_rest = frames enc ms, it_current_pos = pos,
      it_end_pos = pos + length (frames enc ms)\<rparr> r l =
      (case latest ms u of Some m \<Rightarrow> Some m | None \<Rightarrow> r, l') \<and> map_of l' = map_of l ++ latest ms"
  using assms
proof (induction ms arbitrary: pos r l)
  case Nil
  then show ?case by (subst find_meta_loop.simps) (simp add: iterator_next_def)
next
  case (Cons m ms)
  let ?it = "\<lparr>it_rest = frames enc (m # ms), it_current_pos = pos,
      it_end_pos = pos + length (frames enc (m # ms))\<rparr>"
  let ?pos = "pos + (length (enc m) + 4)"
  have next_m: "iterator_next mc ?it = (Some (Ok m), \<lparr>it_rest = frames enc ms, it_current_pos = ?pos,
      it_end_pos = ?pos + length (frames enc ms)\<rparr>)"
    using get_one_meta_frame [of mc enc m] Cons.prems by (simp add: iterator_next_def add_ac)
  have loop_m: "find_meta_loop mc u ?it r l = find_meta_loop mc u \<lparr>it_rest = frames enc ms,
      it_current_pos = ?pos, it_end_pos = ?pos + length (frames enc ms)\<rparr>
      (if md_uuid m = u then Some m else r) (AList.update (md_uuid m) m l)"
    by (subst find_meta_loop.simps) (simp only: next_m prod.case option.case outcome.case)
  have "\<forall>m \<in> set ms. meta_fits mc enc m" using Cons.prems by simp
  from Cons.IH [OF this, of ?pos "if md_uuid m = u then Some m else r" "AList.update (md_uuid m) m l"]
  obtain l' where l': "map_of l' = map_of (AList.update (md_uuid m) m l) ++ latest ms"
    and f: "find_meta_loop mc u ?it r l = (case latest ms u of Some m \<Rightarrow> Some m
      | None \<Rightarrow> if md_uuid m = u then Some m else r, l')" unfolding loop_m by blast
  from l' have "map_of l' = map_of l ++ latest (m # ms)" by (simp add: update_conv')
  with f show ?case by (auto simp: map_add_def split: option.splits)
qed

lemma find_meta_cold:
  assumes "\<forall>m \<in> set ms. meta_fits mc enc m" and "fd_uuid_list fd = []"
    and "disk (path_push (fd_data_dir fd) ''meta'') = Some (frames enc ms)"
  shows "\<exists>l. find_meta mc disk u fd = (latest ms u, fd\<lparr>fd_uuid_list := l\<rparr>) \<and> map_of l = latest ms"
  using find_meta_loop_frames [OF assms(1), of u 0 None "[]"] assms(2,3)
  by (auto simp: find_meta_def iterator_new_def split: option.splits)

lemma find_meta_warm:
  "fd_uuid_list fd \<noteq> [] \<Longrightarrow> find_meta mc disk u fd = (map_of (fd_uuid_list fd) u, fd)"
  by (auto simp: find_meta_def split: option.splits)

section \<open>Saving files\<close>

text \<open>A file \<open>save_file\<close> can take: it is there and its name is not that of the metadata file.\<close>

definition savable :: "disk \<Rightarrow> string \<Rightarrow> bool" where
  "savable disk p \<longleftrightarrow> disk p \<noteq> None \<and> path_file_name p \<noteq> None \<and> path_file_name p \<noteq> Some ''meta''"

lemma save_file_appends:
  assumes "meta_fits mc enc m" and "savable disk p"
    and "meta_path = path_push (fd_data_dir fd) ''meta''"
    and "target = path_push (fd_data_dir fd) (the (path_file_name p))"
  shows "save_file mc True True True fd disk p m =
    (Ok (), disk(target \<mapsto> (if p = target then [] else the (disk p)),
       meta_path \<mapsto> (case disk meta_path of Some bs \<Rightarrow> bs | None \<Rightarrow> []) @ frame enc m)) \<and>
    target \<noteq> meta_path"
proof -
  from assms(2) obtain n c where p: "path_file_name p = Some n" "n \<noteq> ''meta''" "disk p = Some c"
    by (auto simp: savable_def)
  with meta_path_apart [OF p(1,2), of "fd_data_dir fd"] assms(3,4)
  show ?thesis by (simp add: save_file_def fs_copy_def save_meta_appends [OF assms(1)])
qed

fun save_files :: "meta_data codec \<Rightarrow> file_database \<Rightarrow> disk \<Rightarrow> (string \<times> meta_data) list \<Rightarrow> disk" where
  "save_files mc fd disk [] = disk"
| "save_files mc fd disk ((p, m) # pms) =
     save_files mc fd (snd (save_file mc True True True fd disk p m)) pms"

lemma save_files_meta:
  assumes "\<forall>(p, m) \<in> set pms. savable disk p \<and> meta_fits mc enc m"
    and "meta_path = path_push (fd_data_dir fd) ''meta''"
    and "disk meta_path = Some (frames enc ms)"
  shows "save_files mc fd disk pms meta_path = Some (frames enc (ms @ map snd pms))"
  using assms(1,3)
proof (induction pms arbitrary: disk ms)
  case Nil
  then show ?case by simp
next
  case (Cons pm pms)
  obtain p m where pm: "pm = (p, m)" by (cases pm)
  let ?disk = "snd (save_file mc True True True fd disk p m)"
  from Cons.prems(1) pm have "meta_fits mc enc m" "savable disk p" by auto
  from save_file_appends [OF this assms(2) refl] Cons.prems(2)
  have d: "?disk meta_path = Some (frames enc (ms @ [m]))" "dom disk \<subseteq> dom ?disk" by auto
  then have "\<forall>(p, m) \<in> set pms. savable ?disk p \<and> meta_fits mc enc m"
    using Cons.prems(1) d(2) by (fastforce simp: savable_def)
  from Cons.IH [OF this d(1)] show ?case by (simp add: pm)
qed

section \<open>Bundles\<close>

lemma encode_to_stream_frame:
  assumes "codes cd enc c" and "4 + length (enc c) \<le> length (ser_buffer (bd_serializer b))"
  shows "\<exists>s. encode_to_stream cd True b c = (Ok c, b\<lparr>bd_serializer := s\<rparr>, frame enc c) \<and>
    length (ser_buffer s) = length (ser_buffer (bd_serializer b))"
proof -
  let ?s = "set_data (bd_serializer b) c"
  have "ser_data ?s = Some c" "4 + length (enc c) \<le> length (ser_buffer ?s)"
    using assms(2) by (simp_all add: set_data_def)
  from save_writes_frame [OF assms(1) this] obtain s where
    "save_into_asyncwrite cd True ?s = (Ok (4 + length (enc c)), s, frame enc c)"
    "ser_data s = Some c" "length (ser_buffer s) = length (ser_buffer ?s)" by blast
  then show ?thesis by (auto simp: encode_to_stream_def take_data_def set_data_def)
qed

text \<open>The time window of a chain, and what the description of a bundle should say of its chains.\<close>

definition chain_start :: "('b, 'z) block_impl_scheme \<Rightarrow> 'b block_chain \<Rightarrow> nat" where
  "chain_start I c = unat (timestamp_of I (hd (bc_blocks c)))"

definition chain_stop :: "('b, 'z) block_impl_scheme \<Rightarrow> 'b block_chain \<Rightarrow> nat" where
  "chain_stop I c = chain_start I c + unat (cl_time_gap (bc_limit c))"

definition described :: "('b, 'z) block_impl_scheme \<Rightarrow> 'b chain_bundle \<Rightarrow> 'b block_chain list \<Rightarrow> bool" where
  "described I b cs \<longleftrightarrow> unat (bd_counter b) = length cs \<and>
     (cs \<noteq> [] \<longrightarrow> unat (bd_origin b) = Min (chain_start I ` set cs) \<and>
        unat (bd_origin b) + unat (bd_time_gap b) = Max (chain_stop I ` set cs))"

text \<open>A chain a bundle can take: it has a block, and its window ends within a \<open>u64\<close>.\<close>

definition windowed :: "('b, 'z) block_impl_scheme \<Rightarrow> 'b block_chain \<Rightarrow> bool" where
  "windowed I c \<longleftrightarrow> bc_blocks c \<noteq> [] \<and> chain_stop I c \<le> U64_MAX"

lemma unat_min_word: "unat (min a b :: u64) = min (unat a) (unat b)"
  by (simp add: min_def word_le_nat_alt)

lemma unat_max_word: "unat (max a b :: u64) = max (unat a) (unat b)"
  by (simp add: max_def word_le_nat_alt)

lemma unat_sub_u64: "b \<le> a \<Longrightarrow> unat (a - b :: u64) = unat a - unat b"
  by (rule unat_sub) simp

lemma update_description_first:
  assumes "described I b []" and "windowed I c"
  shows "\<exists>b'. update_description_with_chain I b c = (Ok (), b') \<and> described I b' [c] \<and>
    bd_serializer b' = bd_serializer b \<and> bd_path b' = bd_path b"
proof -
  have "bd_counter b = 0" using assms(1) by (simp add: described_def unat_eq_0)
  moreover have "chain_origin block_chain_impl I c = Ok (Some (timestamp_of I (hd (bc_blocks c))))"
    using assms(2) by (simp add: bc.origin_view windowed_def)
  ultimately show ?thesis
    by (simp add: update_description_with_chain_def described_def chain_start_def chain_stop_def
        block_chain_impl_def)
qed

lemma update_description_next:
  assumes "described I b cs" and "cs \<noteq> []" and "windowed I c" and "length cs < U32_MAX"
    and "\<forall>c \<in> set cs. windowed I c"
  shows "\<exists>b'. update_description_with_chain I b c = (Ok (), b') \<and> described I b' (cs @ [c]) \<and>
    bd_serializer b' = bd_serializer b \<and> bd_path b' = bd_path b"
proof -
  let ?o = "timestamp_of I (hd (bc_blocks c))" and ?g = "cl_time_gap (bc_limit c)"
  have o: "chain_origin block_chain_impl I c = Ok (Some ?o)"
    using assms(3) by (simp add: bc.origin_view windowed_def)
  have b: "unat (bd_origin b) = Min (chain_start I ` set cs)"
    "unat (bd_origin b) + unat (bd_time_gap b) = Max (chain_stop I ` set cs)"
    "unat (bd_counter b) = length cs"
    using assms(1,2) by (simp_all add: described_def)
  have max_le: "Max (chain_stop I ` set cs) \<le> U64_MAX"
    using assms(2,5) by (simp add: windowed_def)
  have c: "unat ?o = chain_start I c" "unat ?o + unat ?g = chain_stop I c" "chain_stop I c \<le> U64_MAX"
    using assms(3) by (simp_all add: chain_start_def chain_stop_def windowed_def)
  let ?m = "bd_origin b + bd_time_gap b" and ?m' = "?o + ?g"
  have m: "add_u64 (bd_origin b) (bd_time_gap b) = Ok ?m" "add_u64 ?o ?g = Ok ?m'"
    using b c max_le by (simp_all add: add_u64_def)
  then have um: "unat ?m = Max (chain_stop I ` set cs)" "unat ?m' = chain_stop I c"
    using unat_add_u64 b(2) c(2) by metis+
  let ?o' = "min (bd_origin b) ?o" and ?t = "max ?m ?m'"
  have uo: "unat ?o' = min (Min (chain_start I ` set cs)) (chain_start I c)"
    by (simp add: unat_min_word b c)
  have ut: "unat ?t = max (Max (chain_stop I ` set cs)) (chain_stop I c)"
    by (simp add: unat_max_word um)
  have le: "?o' \<le> ?t"
    unfolding word_le_nat_alt uo ut using c(1,2) by linarith
  then have s: "sub_u64 ?t ?o' = Ok (?t - ?o')" "unat ?o' + unat (?t - ?o') = unat ?t"
    using word_le_nat_alt [of ?o' ?t] by (simp_all add: sub_u64_def unat_sub_u64)
  have n: "add_u32 (bd_counter b) 1 = Ok (bd_counter b + 1)" "unat (bd_counter b + 1) = Suc (length cs)"
    using assms(4) b(3) unat_add_u32 [of "bd_counter b" 1 "bd_counter b + 1"]
    by (simp_all add: add_u32_def)
  have "bd_counter b \<noteq> 0" using b(3) assms(2) by auto
  with o m s n show ?thesis
    using uo ut assms(2)
    by (simp add: update_description_with_chain_def block_chain_impl_def described_def Let_def
        min.commute max.commute)
qed

lemma update_description_ok:
  assumes "described I b cs" and "windowed I c" and "length cs < U32_MAX" and "\<forall>c \<in> set cs. windowed I c"
  shows "\<exists>b'. update_description_with_chain I b c = (Ok (), b') \<and> described I b' (cs @ [c]) \<and>
    bd_serializer b' = bd_serializer b \<and> bd_path b' = bd_path b"
  using update_description_first [of I b c] update_description_next [OF assms(1) _ assms(2,3,4)] assms
  by (cases "cs = []") auto

lemma described_serializer [simp]: "described I (b\<lparr>bd_serializer := s\<rparr>) cs = described I b cs"
  unfolding described_def by simp

text \<open>Chains saved one after another; the results in order.\<close>

fun save_all ::
    "'b block_chain codec \<Rightarrow> ('b, 'z) block_impl_scheme \<Rightarrow> disk \<Rightarrow> 'b chain_bundle \<Rightarrow> 'b block_chain list \<Rightarrow>
     'b block_chain outcome list \<times> 'b chain_bundle \<times> disk" where
  "save_all cd I disk b [] = ([], b, disk)"
| "save_all cd I disk b (c # cs) =
     (case save_to_file cd I True True disk b c of
        (r, b, disk) \<Rightarrow> (case save_all cd I disk b cs of (rs, b, disk) \<Rightarrow> (r # rs, b, disk)))"

definition content_of :: "disk \<Rightarrow> string \<Rightarrow> bytes" where
  "content_of disk path = (case disk path of Some bs \<Rightarrow> bs | None \<Rightarrow> [])"

lemma save_to_file_appends:
  assumes "codes cd enc c" and "4 + length (enc c) \<le> length (ser_buffer (bd_serializer b))"
    and "described I b cs" and "windowed I c" and "length cs < U32_MAX" and "\<forall>c \<in> set cs. windowed I c"
  shows "\<exists>b'. save_to_file cd I True True disk b c =
      (Ok c, b', disk(bd_path b \<mapsto> content_of disk (bd_path b) @ frame enc c)) \<and>
    described I b' (cs @ [c]) \<and> bd_path b' = bd_path b \<and>
    length (ser_buffer (bd_serializer b')) = length (ser_buffer (bd_serializer b))"
proof -
  from encode_to_stream_frame [OF assms(1,2)] obtain s where
    s: "encode_to_stream cd True b c = (Ok c, b\<lparr>bd_serializer := s\<rparr>, frame enc c)"
    "length (ser_buffer s) = length (ser_buffer (bd_serializer b))" by blast
  have "described I (b\<lparr>bd_serializer := s\<rparr>) cs" using assms(3) by simp
  from update_description_ok [OF this assms(4-6)] s show ?thesis
    by (auto simp: save_to_file_def content_of_def Let_def)
qed

lemma save_all_frames:
  assumes "\<forall>c \<in> set cs. codes cd enc c \<and> windowed I c \<and>
      4 + length (enc c) \<le> length (ser_buffer (bd_serializer b))"
    and "described I b ds" and "\<forall>c \<in> set ds. windowed I c" and "length ds + length cs \<le> U32_MAX"
  shows "\<exists>b' disk'. save_all cd I disk b cs = (map Ok cs, b', disk') \<and>
    content_of disk' (bd_path b) = content_of disk (bd_path b) @ frames enc cs \<and>
    (cs \<noteq> [] \<longrightarrow> disk' (bd_path b) \<noteq> None) \<and> described I b' (ds @ cs) \<and> bd_path b' = bd_path b \<and>
    length (ser_buffer (bd_serializer b')) = length (ser_buffer (bd_serializer b))"
  using assms
proof (induction cs arbitrary: disk b ds)
  case Nil
  then show ?case by simp
next
  case (Cons c cs)
  then have "codes cd enc c" "4 + length (enc c) \<le> length (ser_buffer (bd_serializer b))"
    "windowed I c" "length ds < U32_MAX" by auto
  from save_to_file_appends [OF this(1,2) Cons.prems(2) this(3,4) Cons.prems(3), of disk] obtain b1 where
    b1: "save_to_file cd I True True disk b c =
        (Ok c, b1, disk(bd_path b \<mapsto> content_of disk (bd_path b) @ frame enc c))"
      "described I b1 (ds @ [c])" "bd_path b1 = bd_path b"
      "length (ser_buffer (bd_serializer b1)) = length (ser_buffer (bd_serializer b))" by blast
  let ?d = "disk(bd_path b \<mapsto> content_of disk (bd_path b) @ frame enc c)"
  have "\<exists>b' disk'. save_all cd I ?d b1 cs = (map Ok cs, b', disk') \<and>
    content_of disk' (bd_path b1) = content_of ?d (bd_path b1) @ frames enc cs \<and>
    (cs \<noteq> [] \<longrightarrow> disk' (bd_path b1) \<noteq> None) \<and> described I b' ((ds @ [c]) @ cs) \<and> bd_path b' = bd_path b1 \<and>
    length (ser_buffer (bd_serializer b')) = length (ser_buffer (bd_serializer b1))"
    by (rule Cons.IH) (use Cons.prems b1 in auto)
  then show ?case using b1(1,3,4) by (cases "cs = []") (auto simp: content_of_def)
qed

lemma load_frames:
  assumes "\<forall>c \<in> set cs. codes cd enc c" and "\<forall>c \<in> set cs. length (enc c) \<le> U32_MAX"
    and "disk (bd_path b) = Some (frames enc cs)" and "concat (pieces_of (frames enc cs)) = frames enc cs"
    and "\<forall>p \<in> set (pieces_of (frames enc cs)). p \<noteq> [] \<and> length p < length (ser_buffer (bd_serializer b))"
  shows "fst (load_chains_from_bundle cd pieces_of disk b) = Ok cs"
  using asyncread_frames [OF assms(1,2,4,5)] assms(3)
  by (simp add: load_chains_from_bundle_def case_prod_unfold)

section \<open>Samples\<close>

text \<open>Codecs of one byte for some metadata and for two chains, a disk with two files, a database.\<close>

definition sample_meta :: "u8 \<Rightarrow> meta_data" where
  "sample_meta x = \<lparr>md_name = ''f'', md_uuid = replicate 16 x\<rparr>"

definition sample_meta_codec :: "meta_data codec" where
  "sample_meta_codec = raw_codec 1 (\<lambda>m. [hd (md_uuid m)]) (\<lambda>bs. sample_meta (hd bs))"

lemma sample_meta_fits: "meta_fits sample_meta_codec (\<lambda>m. [hd (md_uuid m)]) (sample_meta x)"
  by (simp add: meta_fits_def sample_meta_codec_def raw_codec_codes sample_meta_def)

definition sample_chain_enc :: "data_block block_chain \<Rightarrow> bytes" where
  "sample_chain_enc c = (if c = sample_chain 1 then [1] else [2])"

definition sample_chain_codec :: "data_block block_chain codec" where
  "sample_chain_codec = raw_codec 1 sample_chain_enc
     (\<lambda>bs. if bs = [1] then sample_chain 1 else sample_chain 2)"

lemma sample_chain_codes:
  "codes sample_chain_codec sample_chain_enc (sample_chain 1)"
  "codes sample_chain_codec sample_chain_enc (sample_chain 2)"
  by (auto simp: sample_chain_codec_def sample_chain_enc_def intro!: raw_codec_codes)

lemma length_sample_chain_enc [simp]: "length (sample_chain_enc c) = 1"
  by (simp add: sample_chain_enc_def)

lemma sample_chain_window: "windowed (data_block_impl sample_sha) (sample_chain i)"
    "chain_start (data_block_impl sample_sha) (sample_chain i) = 10"
  by (simp_all add: windowed_def chain_stop_def chain_start_def sample_chain_def sample_data_block_def
      chain_limit_new_def U64_MAX_def)

lemma concat_singletons: "concat (map (\<lambda>b. [b]) xs) = xs"
  by (induction xs) auto

lemma singleton_pieces: "\<forall>p \<in> set (map (\<lambda>b. [b]) xs). p \<noteq> [] \<and> length p < BUFFER_SIZE"
  by (auto simp: BUFFER_SIZE_def)

definition sample_disk :: disk where
  "sample_disk = [''a'' \<mapsto> [1, 2], ''x/meta'' \<mapsto> [3]]"

definition sample_fd :: file_database where
  "sample_fd = \<lparr>fd_uuid_list = [], fd_data_dir = ''d'', fd_bundle_file = ''d/bundle''\<rparr>"

definition sample_searched :: disk where
  "sample_searched = sample_disk(''d/meta'' \<mapsto> frames (\<lambda>m. [hd (md_uuid m)]) [sample_meta 1])"

lemma sample_paths:
  "path_file_name ''a'' = Some ''a''" "path_file_name ''x/meta'' = Some ''meta''"
  "path_push (fd_data_dir sample_fd) ''meta'' = ''d/meta''" "path_push (fd_data_dir sample_fd) ''a'' = ''d/a''"
  by (simp_all add: path_file_name_def path_push_def sample_fd_def)

lemma sample_savable: "savable sample_disk ''a''"
  by (simp add: savable_def sample_disk_def sample_paths)

lemma bundle_saved_loads:
  fixes cs :: "'b block_chain list"
  assumes "\<forall>c \<in> set cs. codes cd enc c \<and> windowed I c \<and> 4 + length (enc c) \<le> BUFFER_SIZE"
    and "cs \<noteq> []" and "length cs \<le> U32_MAX" and "disk DEFAULT_BUNDLE_FILE = None"
    and "concat (pieces_of (frames enc cs)) = frames enc cs"
    and "\<forall>p \<in> set (pieces_of (frames enc cs)). p \<noteq> [] \<and> length p < BUFFER_SIZE"
  shows "\<exists>b disk'. save_all cd I disk bundle_default_new cs = (map Ok cs, b, disk') \<and>
    fst (load_chains_from_bundle cd pieces_of disk' b) = Ok cs \<and> described I b cs"
proof -
  let ?b = "bundle_default_new :: 'b chain_bundle"
  have new: "length (ser_buffer (bd_serializer ?b)) = BUFFER_SIZE" "bd_path ?b = DEFAULT_BUNDLE_FILE"
    "described I ?b []"
    by (simp_all add: bundle_default_new_def serializer_new_def described_def)
  have fits: "\<forall>c \<in> set cs. codes cd enc c \<and> windowed I c \<and>
      4 + length (enc c) \<le> length (ser_buffer (bd_serializer ?b))" using assms(1) new(1) by simp
  have "length ([] :: 'b block_chain list) + length cs \<le> U32_MAX" using assms(3) by simp
  from save_all_frames [OF fits new(3) _ this, where disk = disk] assms(2)
  obtain b disk' where b: "save_all cd I disk ?b cs = (map Ok cs, b, disk')"
    "content_of disk' DEFAULT_BUNDLE_FILE = content_of disk DEFAULT_BUNDLE_FILE @ frames enc cs"
    "disk' DEFAULT_BUNDLE_FILE \<noteq> None" "described I b cs" "bd_path b = DEFAULT_BUNDLE_FILE"
    "length (ser_buffer (bd_serializer b)) = BUFFER_SIZE" unfolding new(1,2) by auto
  then have "disk' (bd_path b) = Some (frames enc cs)" using assms(4) by (auto simp: content_of_def)
  moreover have "\<forall>c \<in> set cs. length (enc c) \<le> U32_MAX" using assms(1) frame_bound_U32 by blast
  ultimately have "fst (load_chains_from_bundle cd pieces_of disk' b) = Ok cs"
    using assms(1,5,6) b(6) by (intro load_frames [where enc = enc]) auto
  with b show ?thesis by auto
qed

section \<open>Properties\<close>

text \<open>C13: Files saved into an empty data directory are found again: after any sequence of saves (of
  present files whose names are not \<open>meta\<close>), a search with an empty cache returns, for every uuid,
  the last metadata saved under it and nothing for a uuid never saved, and leaves the cache holding
  exactly these; what a save wrote is taken to be in the file when the next call reads it.\<close>

theorem saved_meta_found:
  assumes "\<forall>(p, m) \<in> set pms. savable disk p \<and> meta_fits mc enc m"
    and "disk (path_push (fd_data_dir fd) ''meta'') = None" and "fd_uuid_list fd = []"
    and "pms \<noteq> []"
  shows "\<exists>l. find_meta mc (save_files mc fd disk pms) uuid fd =
      (latest (map snd pms) uuid, fd\<lparr>fd_uuid_list := l\<rparr>) \<and> map_of l = latest (map snd pms)"
proof -
  let ?meta = "path_push (fd_data_dir fd) ''meta''"
  obtain p m pms' where pms: "pms = (p, m) # pms'" using assms(4) by (metis neq_Nil_conv surj_pair)
  let ?disk = "snd (save_file mc True True True fd disk p m)"
  have "meta_fits mc enc m" "savable disk p" using assms(1) by (auto simp: pms)
  from save_file_appends [OF this refl refl, of fd] assms(2)
  have d: "?disk ?meta = Some (frames enc [m])" "dom disk \<subseteq> dom ?disk" by auto
  then have "\<forall>(p, m) \<in> set pms'. savable ?disk p \<and> meta_fits mc enc m"
    using assms(1) by (fastforce simp: savable_def pms)
  from save_files_meta [OF this refl d(1)]
  have "save_files mc fd disk pms ?meta = Some (frames enc (map snd pms))" by (simp add: pms)
  moreover have "\<forall>m \<in> set (map snd pms). meta_fits mc enc m" using assms(1) by auto
  ultimately show ?thesis using find_meta_cold [where fd = fd, OF _ assms(3)] by blast
qed

theorem saved_meta_found_witness:
  "fst (find_meta sample_meta_codec (save_files sample_meta_codec sample_fd sample_disk
     [(''a'', sample_meta 1), (''a'', sample_meta 2)]) (replicate 16 1) sample_fd) = Some (sample_meta 1)"
proof -
  let ?pms = "[(''a'', sample_meta 1), (''a'', sample_meta 2)]"
  have "\<forall>(p, m) \<in> set ?pms. savable sample_disk p \<and> meta_fits sample_meta_codec (\<lambda>m. [hd (md_uuid m)]) m"
    using sample_savable sample_meta_fits by auto
  moreover have "sample_disk (path_push (fd_data_dir sample_fd) ''meta'') = None"
    by (simp only: sample_paths) (simp add: sample_disk_def)
  moreover have "fd_uuid_list sample_fd = []" by (simp add: sample_fd_def)
  moreover have "latest (map snd ?pms) (replicate 16 1) = Some (sample_meta 1)"
    by (simp add: sample_meta_def)
  ultimately show ?thesis
    using saved_meta_found [of ?pms sample_disk sample_meta_codec "\<lambda>m. [hd (md_uuid m)]" sample_fd
        "replicate 16 1"] by auto
qed

text \<open>C31: The cache of the database goes stale: once a search has found anything, a file saved afterwards
  under a new uuid is in the metadata file but every later search for it returns nothing.\<close>

theorem find_meta_stale:
  assumes "find_meta mc disk u fd = (Some m, fd')" and "disk (path_push (fd_data_dir fd) ''meta'') = Some (frames enc ms)"
    and "\<forall>m \<in> set ms. meta_fits mc enc m" and "fd_uuid_list fd = []"
    and "savable disk p" and "meta_fits mc enc new" and "md_uuid new \<notin> md_uuid ` set ms"
    and "save_file mc True True True fd' disk p new = (Ok (), disk')"
  shows "disk' (path_push (fd_data_dir fd) ''meta'') = Some (frames enc (ms @ [new])) \<and>
    find_meta mc disk' (md_uuid new) fd' = (None, fd')"
proof
  from find_meta_cold [where u = u and disk = disk and fd = fd and enc = enc, OF assms(3,4,2)] assms(1) obtain l where
    l: "fd' = fd\<lparr>fd_uuid_list := l\<rparr>" "map_of l = latest ms" "latest ms u = Some m" by auto
  have "l \<noteq> []" using l(2,3) by (metis map_of.simps(1) option.distinct(1))
  with l assms(7) show "find_meta mc disk' (md_uuid new) fd' = (None, fd')"
    by (simp add: find_meta_warm latest_None_iff [symmetric])
  from save_file_appends [OF assms(6,5) refl refl, of fd'] assms(2,8) l(1)
  show "disk' (path_push (fd_data_dir fd) ''meta'') = Some (frames enc (ms @ [new]))" by auto
qed

theorem find_meta_stale_witness:
  "\<exists>fd'. find_meta sample_meta_codec sample_searched (replicate 16 1) sample_fd = (Some (sample_meta 1), fd') \<and>
    find_meta sample_meta_codec (snd (save_file sample_meta_codec True True True fd' sample_searched ''a'' (sample_meta 2)))
      (replicate 16 2) fd' = (None, fd')"
proof -
  let ?enc = "\<lambda>m. [hd (md_uuid m)]"
  have d: "sample_searched (path_push (fd_data_dir sample_fd) ''meta'') = Some (frames ?enc [sample_meta 1])"
    by (simp only: sample_paths sample_searched_def fun_upd_same)
  have fits: "\<forall>m \<in> set [sample_meta 1]. meta_fits sample_meta_codec ?enc m" using sample_meta_fits by simp
  have l: "latest [sample_meta 1] (replicate 16 1) = Some (sample_meta 1)" by (simp add: sample_meta_def)
  have fd: "fd_uuid_list sample_fd = []" by (simp add: sample_fd_def)
  obtain fd' where fd': "find_meta sample_meta_codec sample_searched (replicate 16 1) sample_fd = (Some (sample_meta 1), fd')"
    using find_meta_cold [where disk = sample_searched, OF fits fd d, of "replicate 16 1"] l by auto
  have s: "savable sample_searched ''a''" using sample_savable by (simp add: savable_def sample_searched_def)
  from save_file_appends [OF sample_meta_fits [of 2] s refl refl, of fd']
  have "fst (save_file sample_meta_codec True True True fd' sample_searched ''a'' (sample_meta 2)) = Ok ()" by simp
  then have "save_file sample_meta_codec True True True fd' sample_searched ''a'' (sample_meta 2) =
      (Ok (), snd (save_file sample_meta_codec True True True fd' sample_searched ''a'' (sample_meta 2)))"
    by (metis prod.collapse)
  from find_meta_stale [where disk = sample_searched, OF fd' d fits fd s sample_meta_fits [of 2] _ this] fd'
  show ?thesis by (auto simp: sample_meta_def)
qed

text \<open>Saving a file that is itself called \<open>meta\<close> copies it over the metadata file: everything
  recorded before is gone, and the file's content is read as metadata.\<close>

theorem file_named_meta_overwrites:
  assumes "disk p = Some content" and "path_file_name p = Some ''meta''" and "meta_fits mc enc m"
    and "meta_path = path_push (fd_data_dir fd) ''meta''" and "p \<noteq> meta_path"
  shows "save_file mc True True True fd disk p m = (Ok (), disk(meta_path \<mapsto> content @ frame enc m))"
  using assms by (simp add: save_file_def fs_copy_def save_meta_appends)

theorem file_named_meta_overwrites_instance:
  "snd (save_file sample_meta_codec True True True sample_fd (sample_disk(''d/meta'' \<mapsto> [9, 9, 9])) ''x/meta'' (sample_meta 1))
     ''d/meta'' = Some [3, 0, 0, 0, 1, 1]"
proof -
  have "frame (\<lambda>m. [hd (md_uuid m)]) (sample_meta 1) = [0, 0, 0, 1, 1]"
    by code_simp
  then show ?thesis
    using file_named_meta_overwrites [OF _ sample_paths(2) sample_meta_fits [of 1] sample_paths(3) [symmetric],
        of "sample_disk(''d/meta'' \<mapsto> [9, 9, 9])" "[3]"]
    by (simp add: sample_disk_def)
qed

text \<open>C10: Chains saved one by one into a new bundle file are returned to the caller, come back in order
  when the bundle is loaded, and the description counts them and spans exactly the union of their
  time windows, as long as the chains have blocks and their windows lie within \<open>u64\<close>, there are no more of
  them than a \<open>u32\<close> counts, each frame fits the 128 KiB buffer, what was written is in the file when it is
  read, and the file is handed out in nonempty pieces shorter than the buffer.\<close>

theorem bundle_roundtrip:
  fixes cs :: "'b block_chain list"
  assumes "\<forall>c \<in> set cs. codes cd enc c \<and> windowed I c \<and> 4 + length (enc c) \<le> BUFFER_SIZE"
    and "cs \<noteq> []" and "length cs \<le> U32_MAX" and "disk DEFAULT_BUNDLE_FILE = None"
    and "concat (pieces_of (frames enc cs)) = frames enc cs"
    and "\<forall>p \<in> set (pieces_of (frames enc cs)). p \<noteq> [] \<and> length p < BUFFER_SIZE"
  shows "\<exists>b disk'. save_all cd I disk bundle_default_new cs = (map Ok cs, b, disk') \<and>
    fst (load_chains_from_bundle cd pieces_of disk' b) = Ok cs \<and>
    unat (bd_counter b) = length cs \<and> unat (bd_origin b) = Min (chain_start I ` set cs) \<and>
    unat (bd_origin b) + unat (bd_time_gap b) = Max (chain_stop I ` set cs)"
  using bundle_saved_loads [OF assms(1-3), where disk = disk and pieces_of = pieces_of, OF assms(4-6)] assms(2)
  by (auto simp: described_def)

theorem bundle_roundtrip_witness:
  "\<exists>b disk'. save_all sample_chain_codec (data_block_impl sample_sha) Map.empty bundle_default_new
      [sample_chain 1, sample_chain 2] = (map Ok [sample_chain 1, sample_chain 2], b, disk') \<and>
    fst (load_chains_from_bundle sample_chain_codec (map (\<lambda>b. [b])) disk' b) = Ok [sample_chain 1, sample_chain 2] \<and>
    unat (bd_counter b) = 2 \<and> unat (bd_origin b) = 10"
proof -
  let ?cs = "[sample_chain 1, sample_chain 2]" and ?I = "data_block_impl sample_sha"
  have "\<forall>c \<in> set ?cs. codes sample_chain_codec sample_chain_enc c \<and> windowed ?I c \<and>
      4 + length (sample_chain_enc c) \<le> BUFFER_SIZE"
    using sample_chain_codes sample_chain_window by (simp add: BUFFER_SIZE_def)
  from bundle_roundtrip [where disk = Map.empty and pieces_of = "map (\<lambda>b. [b])", OF this _ _ _ concat_singletons singleton_pieces]
  obtain b disk' where b: "save_all sample_chain_codec ?I Map.empty bundle_default_new ?cs = (map Ok ?cs, b, disk')"
    "fst (load_chains_from_bundle sample_chain_codec (map (\<lambda>b. [b])) disk' b) = Ok ?cs"
    "unat (bd_counter b) = length ?cs" "unat (bd_origin b) = Min (chain_start ?I ` set ?cs)"
    by (auto simp: U32_MAX_def simp del: save_all.simps)
  from b(3,4) have "unat (bd_counter b) = 2" "unat (bd_origin b) = 10" by (simp_all add: sample_chain_window)
  with b(1,2) show ?thesis by blast
qed

text \<open>C38: A vector of chains is written over the start of an existing bundle file without truncating it: when
  its frames fit the serializer's buffer, the file takes them in the one write there is, and they end where
  a frame of the old content does, the call succeeds and returns their length, the old frames behind stay,
  and loading the bundle, in nonempty pieces shorter than the buffer, returns the new chains followed by
  the old ones that were left.\<close>

theorem save_chains_keeps_old_tail:
  assumes "\<forall>c \<in> set cs \<union> set olds. codes cd enc c \<and> length (enc c) \<le> U32_MAX"
    and "length (frames enc cs) \<le> length (ser_buffer (bd_serializer b))"
    and "length (frames enc cs) \<le> limit"
    and "disk (bd_path b) = Some (replaced @ frames enc olds)" and "length replaced = length (frames enc cs)"
    and "concat (pieces_of (frames enc (cs @ olds))) = frames enc (cs @ olds)"
    and "\<forall>p \<in> set (pieces_of (frames enc (cs @ olds))). p \<noteq> [] \<and> length p < length (ser_buffer (bd_serializer b))"
  shows "\<exists>b' disk'. save_chains_to_bundle cd True (Some limit) disk b cs =
      (Ok (length (frames enc cs)), b', disk') \<and>
    fst (load_chains_from_bundle cd pieces_of disk' b') = Ok (cs @ olds)"
proof -
  let ?n = "length (frames enc cs)"
  from encode_items_fits [where vs = cs and cd = cd and enc = enc and off = 0 and
      dst = "ser_buffer (bd_serializer b)"] assms(1,2)
  obtain buf where buf: "encode_items cd cs 0 (ser_buffer (bd_serializer b)) = (Ok ?n, buf)"
    "length buf = length (ser_buffer (bd_serializer b))" "take ?n buf = frames enc cs" by auto
  let ?b' = "b\<lparr>bd_serializer := (bd_serializer b)\<lparr>ser_buffer := buf\<rparr>\<rparr>"
  let ?disk' = "disk(bd_path b \<mapsto> frames enc (cs @ olds))"
  have "save_chains_to_bundle cd True (Some limit) disk b cs = (Ok ?n, ?b', ?disk')"
    using buf assms(2-5) by (simp add: save_chains_to_bundle_def encode_vec_into_def Let_def slice_def min_def)
  moreover have "fst (load_chains_from_bundle cd pieces_of ?disk' ?b') = Ok (cs @ olds)"
    using assms(1,6,7) buf(2) by (intro load_frames [where enc = enc]) auto
  ultimately show ?thesis by blast
qed

theorem save_chains_keeps_old_tail_witness:
  "\<exists>b' disk'. save_chains_to_bundle sample_chain_codec True (Some 5)
      [DEFAULT_BUNDLE_FILE \<mapsto> [8, 8, 8, 8, 8] @ frames sample_chain_enc [sample_chain 2]]
      (bundle_default_new :: data_block chain_bundle) [sample_chain 1] = (Ok 5, b', disk') \<and>
    fst (load_chains_from_bundle sample_chain_codec (map (\<lambda>b. [b])) disk' b') = Ok [sample_chain 1, sample_chain 2]"
proof -
  let ?b = "bundle_default_new :: data_block chain_bundle"
  have b: "bd_path ?b = DEFAULT_BUNDLE_FILE" "length (ser_buffer (bd_serializer ?b)) = BUFFER_SIZE"
    by (simp_all add: bundle_default_new_def serializer_new_def)
  have f: "\<forall>c \<in> set [sample_chain 1] \<union> set [sample_chain 2].
      codes sample_chain_codec sample_chain_enc c \<and> length (sample_chain_enc c) \<le> U32_MAX"
    using sample_chain_codes by (simp add: U32_MAX_def)
  have n: "length (frames sample_chain_enc [sample_chain 1]) = 5" by simp
  show ?thesis
    using save_chains_keeps_old_tail [where b = ?b and limit = 5 and replaced = "[8, 8, 8, 8, 8]"
        and pieces_of = "map (\<lambda>b. [b])" and disk = "[DEFAULT_BUNDLE_FILE \<mapsto> [8, 8, 8, 8, 8] @
          frames sample_chain_enc [sample_chain 2]]", OF f _ _ _ _ concat_singletons]
    unfolding b n using singleton_pieces by (simp add: BUFFER_SIZE_def del: frames_simps)
qed

end
