(* ===== verification/Utils.thy ===== *)
theory Utils imports Executor begin

text \<open>
  \<open>src/utils/utils.rs\<close>: the builders of sample chains and executors the crate's tests share. Random
  draws and clock readings are arguments: \<open>start\<close> is the reading of a genesis block, \<open>draw i\<close> the data
  hash, the uuid and the reading of round \<open>i\<close>.
\<close>

section \<open>The builders\<close>

type_synonym block_draw = "hash \<times> uuid \<times> u64"

fun faker_loop ::
    "sha \<Rightarrow> u64 \<Rightarrow> chain_limit \<Rightarrow> u32 \<Rightarrow> (nat \<Rightarrow> block_draw) \<Rightarrow> nat list \<Rightarrow> data_block block_chain \<Rightarrow>
     data_block block_chain outcome" where
  "faker_loop sha origin limit digest_id draw [] chain = Ok chain"
| "faker_loop sha origin limit digest_id draw (i # is) chain =
     and_then (unwrap (block_ref_of block_chain_impl chain i)) (\<lambda>pre_block.
     case draw i of (data_hash, data_uuid, now) \<Rightarrow>
     let args = data_block_args_new (db_hash pre_block) data_hash data_uuid digest_id (word_of_nat i);
         block = data_create sha now args in
     and_then (time_check (data_block_impl sha) limit origin block) (\<lambda>_.
     case chain_add (data_block_impl sha) chain block of
       (r, chain) \<Rightarrow> and_then r (\<lambda>_. faker_loop sha origin limit digest_id draw is chain)))"

definition faker_data_chain ::
    "sha \<Rightarrow> u64 \<Rightarrow> (nat \<Rightarrow> block_draw) \<Rightarrow> nat \<Rightarrow> u32 \<Rightarrow> u64 \<Rightarrow> data_block block_chain outcome" where
  "faker_data_chain sha start draw len digest_id time_gap =
     (let limit = chain_limit_new len time_gap;
          chain = chain_new (data_block_impl sha) start digest_id limit in
      and_then (chain_origin block_chain_impl (data_block_impl sha) chain) (\<lambda>found.
      and_then (unwrap found) (\<lambda>origin.
      and_then (sub_usize len 1) (\<lambda>n.
      faker_loop sha origin limit digest_id draw [0..<n] chain))))"

text \<open>\<open>faker_data_chains_vector\<close>: \<open>len_rate i\<close> and \<open>gap_rate i\<close> are the percentages drawn for chain \<open>i\<close>.\<close>

fun vector_loop ::
    "sha \<Rightarrow> (nat \<Rightarrow> u64) \<Rightarrow> (nat \<Rightarrow> nat \<Rightarrow> block_draw) \<Rightarrow> (nat \<Rightarrow> nat) \<Rightarrow> (nat \<Rightarrow> nat) \<Rightarrow> nat \<Rightarrow> u64 \<Rightarrow> nat list \<Rightarrow>
     data_block block_chain list \<Rightarrow> data_block block_chain list outcome" where
  "vector_loop sha start draw len_rate gap_rate chain_max_len max_time_gap [] vec_ret = Ok vec_ret"
| "vector_loop sha start draw len_rate gap_rate chain_max_len max_time_gap (i # is) vec_ret =
     (let random_max_len = len_rate i * chain_max_len div 100 in
      if U64_MAX < gap_rate i * unat max_time_gap then Panic
      else let random_time_gap = word_of_nat (gap_rate i * unat max_time_gap div 100) in
           and_then (faker_data_chain sha (start i) (draw i) random_max_len (word_of_nat i) random_time_gap) (\<lambda>chain.
           vector_loop sha start draw len_rate gap_rate chain_max_len max_time_gap is (vec_ret @ [chain])))"

definition faker_data_chains_vector ::
    "sha \<Rightarrow> (nat \<Rightarrow> u64) \<Rightarrow> (nat \<Rightarrow> nat \<Rightarrow> block_draw) \<Rightarrow> (nat \<Rightarrow> nat) \<Rightarrow> (nat \<Rightarrow> nat) \<Rightarrow> nat \<Rightarrow> nat \<Rightarrow> u64 \<Rightarrow>
     data_block block_chain list outcome" where
  "faker_data_chains_vector sha start draw len_rate gap_rate num chain_max_len max_time_gap =
     vector_loop sha start draw len_rate gap_rate chain_max_len max_time_gap [0..<num] []"

text \<open>\<open>faker_executor\<close>: \<open>now i\<close> is the reading for the digest block of chain \<open>i\<close>.\<close>

fun executor_loop ::
    "sha \<Rightarrow> (nat \<Rightarrow> u64) \<Rightarrow> (nat \<Rightarrow> nat \<Rightarrow> block_draw) \<Rightarrow> (nat \<Rightarrow> u64) \<Rightarrow> nat \<Rightarrow> u64 \<Rightarrow> nat list \<Rightarrow>
     (data_block, digest_block) executor \<Rightarrow> (data_block, digest_block) executor outcome" where
  "executor_loop sha start draw now chain_len time_gap [] e = Ok e"
| "executor_loop sha start draw now chain_len time_gap (i # is) e =
     and_then (faker_data_chain sha (start i) (draw i) chain_len (word_of_nat (i + 1)) time_gap) (\<lambda>chain.
     case add_chain (data_block_impl sha) (digest_block_impl sha) (now i) e chain of
       (r, e) \<Rightarrow> and_then r (\<lambda>_. executor_loop sha start draw now chain_len time_gap is e))"

definition faker_executor ::
    "sha \<Rightarrow> u64 \<Rightarrow> u64 \<Rightarrow> (nat \<Rightarrow> u64) \<Rightarrow> (nat \<Rightarrow> nat \<Rightarrow> block_draw) \<Rightarrow> (nat \<Rightarrow> u64) \<Rightarrow> nat \<Rightarrow> chain_limit \<Rightarrow>
     (data_block, digest_block) executor outcome" where
  "faker_executor sha t t' start draw now main_len limit =
     (if main_len \<ge> cl_max_len limit then Err (H_Chain ''the main_len is exceeded the limitation'')
      else let e = executor_new (data_block_impl sha) (digest_block_impl sha) t t' limit;
               chain_len = cl_max_len limit; time_gap = cl_time_gap limit in
           and_then (sub_usize main_len 1) (\<lambda>n.
           executor_loop sha start draw now chain_len time_gap [0..<n] e))"

section \<open>Sample chains\<close>

text \<open>Clock readings inside the window of \<open>gap\<close> that starts at \<open>start\<close>.\<close>

definition in_window :: "u64 \<Rightarrow> u64 \<Rightarrow> u64 \<Rightarrow> bool" where
  "in_window start gap now \<longleftrightarrow>
     unat start \<le> unat now \<and> unat now \<le> unat start + unat gap \<and> unat start + unat gap \<le> U64_MAX"

definition faker_inv :: "sha \<Rightarrow> u64 \<Rightarrow> nat \<Rightarrow> u64 \<Rightarrow> u32 \<Rightarrow> nat \<Rightarrow> data_block block_chain \<Rightarrow> bool" where
  "faker_inv sha start len gap d k c \<longleftrightarrow>
     chain_inv (data_block_impl sha) c \<and> bc_limit c = chain_limit_new len gap \<and>
     db_timestamp (hd (bc_blocks c)) = start \<and> map db_index (bc_blocks c) = map word_of_nat (0 # [0..<k]) \<and>
     (\<forall>b \<in> set (bc_blocks c). db_digest_id b = d)"

lemma faker_inv_length: "faker_inv sha start len gap d k c \<Longrightarrow> length (bc_blocks c) = Suc k"
  unfolding faker_inv_def by (metis length_map length_Cons length_upt diff_zero)

lemma faker_step:
  assumes "faker_inv sha start len gap d k c" and "in_window start gap now" and "Suc k < len"
    and "b = data_create sha now (data_block_args_new (db_hash (last (bc_blocks c))) data_hash data_uuid d (word_of_nat k))"
  shows "chain_add (data_block_impl sha) c b = (Ok (), push_block b c) \<and>
    faker_inv sha start len gap d (Suc k) (push_block b c) \<and>
    time_check (data_block_impl sha) (chain_limit_new len gap) start b = Ok ()"
proof -
  have ne: "bc_blocks c \<noteq> []" using faker_inv_length [OF assms(1)] by auto
  have b: "db_timestamp b = now" "db_prev_hash b = db_hash (last (bc_blocks c))" "db_index b = word_of_nat k"
    "db_digest_id b = d"     "db_hash b = sha (data_preimage b)"
    by (simp_all add: assms(4) data_create_def data_private_new_def data_block_args_new_def Let_def
        data_hash_block_def data_preimage_def)
  have "chain_block_verify (data_block_impl sha) c b = Ok ()"
    using assms(1,2) b ne
    by (simp add: chain_block_verify_view data_sealed.verify_Ok faker_inv_def in_window_def chain_limit_new_def
        data_hash_block_def)
  moreover have "\<not> is_full c"
    using faker_inv_length [OF assms(1)] assms(1,3) by (simp add: is_full_def faker_inv_def chain_limit_new_def)
  ultimately have add: "chain_add (data_block_impl sha) c b = (Ok (), push_block b c)"
    using ne by (simp add: chain_add_nonempty)
  have "chain_inv (data_block_impl sha) (push_block b c)"
    using chain_inv_add [of "data_block_impl sha" c b] assms(1) by (simp add: add faker_inv_def)
  then have "faker_inv sha start len gap d (Suc k) (push_block b c)"
    using assms(1) b(3,4) ne by (simp add: faker_inv_def)
  moreover have "time_check (data_block_impl sha) (chain_limit_new len gap) start b = Ok ()"
    using assms(2) b(1) add_u64_cases [of start gap]
    by (auto simp: time_check_def chain_limit_new_def in_window_def data_block_impl_def word_less_nat_alt)
  ultimately show ?thesis using add by blast
qed

lemma faker_loop_Ok:
  assumes "faker_inv sha start len gap d k c" and "k \<le> n" and "n < len"
    and "\<forall>i. k \<le> i \<and> i < n \<longrightarrow> in_window start gap (snd (snd (draw i)))"
  shows "\<exists>c'. faker_loop sha start (chain_limit_new len gap) d draw [k..<n] c = Ok c' \<and> faker_inv sha start len gap d n c'"
  using assms
proof (induction "n - k" arbitrary: k c)
  case 0
  then show ?case by simp
next
  case (Suc j)
  then have k: "k < n" "[k..<n] = k # [Suc k..<n]" by (simp_all add: upt_conv_Cons)
  obtain h u now where dr: "draw k = (h, u, now)" by (cases "draw k")
  with Suc.prems(4) k(1) have w: "in_window start gap now" by (metis le_refl snd_conv)
  let ?b = "data_create sha now (data_block_args_new (db_hash (last (bc_blocks c))) h u d (word_of_nat k))"
  have "Suc k < len" using k(1) Suc.prems(3) by simp
  from faker_step [OF Suc.prems(1) w this refl] have
    s: "chain_add (data_block_impl sha) c ?b = (Ok (), push_block ?b c)"
      "faker_inv sha start len gap d (Suc k) (push_block ?b c)"
      "time_check (data_block_impl sha) (chain_limit_new len gap) start ?b = Ok ()" by auto
  have "block_ref_of block_chain_impl c k = Some (last (bc_blocks c))"
    using faker_inv_length [OF Suc.prems(1)]
    by (simp add: block_chain_impl_def bc_block_ref_def last_conv_nth flip: length_0_conv)
  then have "faker_loop sha start (chain_limit_new len gap) d draw [k..<n] c =
      faker_loop sha start (chain_limit_new len gap) d draw [Suc k..<n] (push_block ?b c)"
    using s by (simp add: k(2) dr)
  moreover have "j = n - Suc k" "Suc k \<le> n" "\<forall>i. Suc k \<le> i \<and> i < n \<longrightarrow> in_window start gap (snd (snd (draw i)))"
    using Suc.hyps(2) k(1) Suc.prems(4) by auto
  ultimately show ?case using Suc.hyps(1) [OF _ s(2)] Suc.prems(3) by simp
qed

lemma data_genesis_fields [simp]:
  "db_timestamp (data_genesis sha now d) = now" "db_index (data_genesis sha now d) = 0"
  "db_digest_id (data_genesis sha now d) = d"
  by (simp_all add: data_defs)

lemma faker_data_chain_Ok:
  assumes "1 \<le> len" and "\<forall>i < len - 1. in_window start gap (snd (snd (draw i)))"
  shows "\<exists>c. faker_data_chain sha start draw len d gap = Ok c \<and> faker_inv sha start len gap d (len - 1) c"
proof -
  let ?c = "chain_new (data_block_impl sha) start d (chain_limit_new len gap)"
  have "faker_inv sha start len gap d 0 ?c" by (simp add: faker_inv_def chain_inv_new)
  from faker_loop_Ok [OF this, of "len - 1" draw] assms show ?thesis
    by (simp add: faker_data_chain_def bc.origin_view sub_usize_def Let_def)
qed

section \<open>Sample executors\<close>

definition filled :: "sha \<Rightarrow> chain_limit \<Rightarrow> u64 \<Rightarrow> nat \<Rightarrow> (data_block, digest_block) executor \<Rightarrow> bool" where
  "filled sha limit t k e \<longleftrightarrow>
     executor_reach sha (data_block_impl sha) (digest_block_impl sha) limit e \<and>
     length (main_blocks e) = Suc k \<and> dg_timestamp (hd (main_blocks e)) = t \<and>
     (\<forall>i < k. \<exists>c start. side_ref (ex_keeper e) (word_of_nat (i + 2)) = Some c \<and>
        faker_inv sha start (cl_max_len limit) (cl_time_gap limit) (word_of_nat (i + 1)) (cl_max_len limit - 1) c)"

lemma filled_step:
  assumes "filled sha limit t k e" and "in_window t (cl_time_gap limit) now" and "Suc k < cl_max_len limit"
    and "cl_max_len limit \<le> U32_MAX"
    and "faker_inv sha start (cl_max_len limit) (cl_time_gap limit) (word_of_nat (k + 1)) (cl_max_len limit - 1) c"
  shows "\<exists>e'. add_chain (data_block_impl sha) (digest_block_impl sha) now e c = (Ok (), e') \<and> filled sha limit t (Suc k) e'"
proof -
  let ?IB = "data_block_impl sha" and ?ID = "digest_block_impl sha"
  have v: "chain_verify block_chain_impl ?IB c = Ok ()"
    using assms(3,5) faker_inv_length [OF assms(5)] by (intro chain_inv_verify) (simp_all add: faker_inv_def)
  from assms(1) have reach: "executor_reach sha ?IB ?ID limit e" and l: "length (main_blocks e) = Suc k"
    and hd: "dg_timestamp (hd (main_blocks e)) = t" by (simp_all add: filled_def)
  have "open_at limit e now" using assms(2) by (simp add: open_at_def hd in_window_def)
  from add_chain_stores [OF reach _ _ this v] assms(3,4) l obtain e' b where
    e': "add_chain ?IB ?ID now e c = (Ok (), e')" "executor_reach sha ?IB ?ID limit e'"
      "main_blocks e' = main_blocks e @ [b]" "hd (main_blocks e') = hd (main_blocks e)"
      "\<forall>d. side_ref (ex_keeper e') d = (if d = word_of_nat (k + 2) then Some c else side_ref (ex_keeper e) d)"
    by (auto simp del: of_nat_Suc)
  have "\<exists>c start. side_ref (ex_keeper e') (word_of_nat (i + 2)) = Some c \<and>
      faker_inv sha start (cl_max_len limit) (cl_time_gap limit) (word_of_nat (i + 1)) (cl_max_len limit - 1) c"
    if "i < Suc k" for i
  proof (cases "i = k")
    case True
    then show ?thesis using e'(5) assms(5) by auto
  next
    case False
    have "unat (word_of_nat (i + 2) :: u32) \<noteq> unat (word_of_nat (k + 2) :: u32)"
      using unat_u32_of_nat [of "i + 2"] unat_u32_of_nat [of "k + 2"] that False assms(3,4) by linarith
    then have "word_of_nat (i + 2) \<noteq> (word_of_nat (k + 2) :: u32)" by metis
    then show ?thesis using e'(5) assms(1) that False by (simp add: filled_def)
  qed
  then show ?thesis using e' l hd by (auto simp: filled_def)
qed

lemma executor_loop_Ok:
  assumes "filled sha limit t k e" and "k \<le> n" and "n < cl_max_len limit" and "cl_max_len limit \<le> U32_MAX"
    and "\<forall>i < n. in_window t (cl_time_gap limit) (now i)"
    and "\<forall>i < n. \<forall>j < cl_max_len limit - 1. in_window (start i) (cl_time_gap limit) (snd (snd (draw i j)))"
  shows "\<exists>e'. executor_loop sha start draw now (cl_max_len limit) (cl_time_gap limit) [k..<n] e = Ok e' \<and>
    filled sha limit t n e'"
  using assms(1,2)
proof (induction "n - k" arbitrary: k e)
  case 0
  then show ?case by simp
next
  case (Suc j)
  then have k: "k < n" "[k..<n] = k # [Suc k..<n]" by (simp_all add: upt_conv_Cons)
  with assms(3,6) obtain c where
    c: "faker_data_chain sha (start k) (draw k) (cl_max_len limit) (word_of_nat (k + 1)) (cl_time_gap limit) = Ok c"
      "faker_inv sha (start k) (cl_max_len limit) (cl_time_gap limit) (word_of_nat (k + 1)) (cl_max_len limit - 1) c"
    using faker_data_chain_Ok [of "cl_max_len limit" "start k" "cl_time_gap limit" "draw k" sha "word_of_nat (k + 1)"]
    by auto
  have "Suc k < cl_max_len limit" using k(1) assms(3) by simp
  from filled_step [OF Suc.prems(1) _ this assms(4) c(2)] assms(5) k(1) obtain e' where
    e': "add_chain (data_block_impl sha) (digest_block_impl sha) (now k) e c = (Ok (), e')"
      "filled sha limit t (Suc k) e'" by blast
  have "j = n - Suc k" "Suc k \<le> n" using Suc.hyps(2) k(1) by auto
  from Suc.hyps(1) [OF this(1) e'(2) this(2)] c(1) e'(1) show ?case by (simp add: k(2))
qed

section \<open>Properties\<close>

text \<open>\<open>faker_executor\<close> builds what its comment says while the clock stays in the windows: a main chain of
  \<open>main_len\<close> digest blocks and, under every number from 2 to \<open>main_len\<close>, a full chain that verifies.
  But the chains are not what \<open>BlockChain\<close> users would build: the first two blocks of each share the
  index 0, and every block names the digest number before the one its chain is stored under.\<close>

theorem faker_executor_builds:
  assumes "1 \<le> main_len" and "main_len < cl_max_len limit" and "cl_max_len limit \<le> U32_MAX"
    and "\<forall>i < main_len - 1. in_window t (cl_time_gap limit) (now i)"
    and "\<forall>i < main_len - 1. \<forall>j < cl_max_len limit - 1. in_window (start i) (cl_time_gap limit) (snd (snd (draw i j)))"
  shows "\<exists>e. faker_executor sha t t' start draw now main_len limit = Ok e \<and> length (main_blocks e) = main_len \<and>
    (\<forall>i < main_len - 1. \<exists>c. side_ref (ex_keeper e) (word_of_nat (i + 2)) = Some c \<and>
       length (bc_blocks c) = cl_max_len limit \<and> chain_verify block_chain_impl (data_block_impl sha) c = Ok () \<and>
       map db_index (bc_blocks c) = map word_of_nat (0 # [0..<cl_max_len limit - 1]) \<and>
       (\<forall>b \<in> set (bc_blocks c). db_digest_id b = word_of_nat (i + 1)))"
proof -
  let ?e = "executor_new (data_block_impl sha) (digest_block_impl sha) t t' limit"
  have "filled sha limit t 0 ?e"
    by (simp add: filled_def executor_reach.reach_new) (simp add: executor_new_def keeper_new_def main_new_def)
  moreover have "main_len - 1 < cl_max_len limit" using assms(2) by simp
  ultimately obtain e where
    e: "executor_loop sha start draw now (cl_max_len limit) (cl_time_gap limit) [0..<main_len - 1] ?e = Ok e"
      "filled sha limit t (main_len - 1) e"
    using executor_loop_Ok [OF _ le0 _ assms(3-5)] by blast
  have "faker_executor sha t t' start draw now main_len limit = Ok e"
    using assms(1,2) e(1) by (simp add: faker_executor_def sub_usize_def Let_def)
  moreover have "length (bc_blocks c) = cl_max_len limit \<and> chain_verify block_chain_impl (data_block_impl sha) c = Ok ()"
    if "faker_inv sha s (cl_max_len limit) (cl_time_gap limit) d (cl_max_len limit - 1) c" for s d c
  proof -
    have "length (bc_blocks c) = cl_max_len limit" using faker_inv_length [OF that] assms(1,2) by simp
    with that assms(1,2) show ?thesis by (auto simp: faker_inv_def intro: chain_inv_verify)
  qed
  ultimately show ?thesis using e(2) assms(1) unfolding filled_def faker_inv_def by fastforce
qed

theorem faker_executor_builds_instance:
  "\<exists>e. faker_executor sample_sha 10 10 (\<lambda>_. 11) (\<lambda>_ _. (ZERO_HASH, ZERO_UUID, 12)) (\<lambda>_. 12) 3 (chain_limit_new 5 100) = Ok e \<and>
     length (main_blocks e) = 3"
  using faker_executor_builds [of 3 "chain_limit_new 5 100" 10 "\<lambda>_. 12" "\<lambda>_. 11" "\<lambda>_ _. (ZERO_HASH, ZERO_UUID, 12)"
      sample_sha 10]
  by (auto simp: chain_limit_new_def in_window_def U32_MAX_def U64_MAX_def)

end
