(* ===== verification/StoreTests.thy ===== *)
theory StoreTests imports TestBase Network Db Utils begin

text \<open>
  The tests of \<open>src/serializer.rs\<close>, \<open>src/utils/utils.rs\<close> and \<open>src/db.rs\<close>. What a test measures and
  prints is left out. The operating system refuses nothing here; what it does decide (old contents of
  a file, the pieces a file is read in, how much one write takes) is an argument, as are uuids, random
  draws and clock readings.
\<close>

section \<open>The serializer\<close>

text \<open>\<open>test.file\<close> is opened for appending and reading; \<open>old\<close> is what it holds already.\<close>

definition test_serializer :: "string codec \<Rightarrow> bytes \<Rightarrow> (bytes \<Rightarrow> bytes list) \<Rightarrow> unit outcome" where
  "test_serializer sc old pieces_of =
     (let test_ser = serializer_new None; data = ''i am a test string'';
          test_ser = set_data test_ser data in
      and_then (unwrap (get_data test_ser)) (\<lambda>found.
      and_then (assert_that (found = ''i am a test string'')) (\<lambda>_.
      let dst = replicate 4 0 in
      case encode_into_vec_with_header sc test_ser dst of (result, test_ser, dst) \<Rightarrow>
      run_call result (\<lambda>result.
      and_then (assert_that (is_ok result)) (\<lambda>_.
      and_then (unwrap_ok result) (\<lambda>sz.
      and_then (slice dst 0 sz) (\<lambda>src.
      run_call (decode_from_slice_with_header sc src) (\<lambda>result.
      and_then (assert_that (is_ok result)) (\<lambda>_.
      and_then (unwrap_ok result) (\<lambda>vals.
      and_then (vec_index vals 0) (\<lambda>first.
      and_then (assert_that (first = ''i am a test string'')) (\<lambda>_.
      let test_ser = set_data test_ser data in
      case save_into_asyncwrite sc True test_ser of (result, test_ser, out) \<Rightarrow>
      run_call result (\<lambda>result.
      and_then (assert_that (is_ok result)) (\<lambda>_.
      and_then (unwrap_ok result) (\<lambda>sz.
      let content = old @ out; buffer = write_at (replicate 4 0) 0 (take 4 content);
          header_size = u32_from_be buffer in
      and_then (sub_usize sz 4) (\<lambda>body_size.
      and_then (assert_that (header_size = word_of_nat body_size)) (\<lambda>_.
      case save_into_asyncwrite sc True (set_data test_ser data) of (_, test_ser, out1) \<Rightarrow>
      case save_into_asyncwrite sc True (set_data test_ser data) of (_, test_ser, out2) \<Rightarrow>
      let content = out1 @ out2 in
      run_call (fst (decode_from_asyncread sc (pieces_of content) test_ser)) (\<lambda>result.
      and_then (assert_that (is_ok result)) (\<lambda>_.
      and_then (unwrap_ok result) (\<lambda>vec_ret.
      and_then (unwrap (if vec_ret = [] then None else Some (last vec_ret))) (\<lambda>val.
      and_then (assert_that (val = ''i am a test string'')) (\<lambda>_.
      let vec_ret = butlast vec_ret in
      and_then (unwrap (if vec_ret = [] then None else Some (last vec_ret))) (\<lambda>val.
      assert_that (val = ''i am a test string''))))))))))))))))))))))))"

section \<open>Sample chains and executors\<close>

definition test_faker_data_chain :: "sha \<Rightarrow> u64 \<Rightarrow> (nat \<Rightarrow> block_draw) \<Rightarrow> unit outcome" where
  "test_faker_data_chain sha start draw =
     and_then (unwrap_ok (faker_data_chain sha start draw 10 1 1)) (\<lambda>data_chain.
     run_call (chain_verify block_chain_impl (data_block_impl sha) data_chain) (\<lambda>validity.
     assert_that (is_ok validity)))"

fun print_origins :: "sha \<Rightarrow> data_block block_chain list \<Rightarrow> unit outcome" where
  "print_origins sha [] = Ok ()"
| "print_origins sha (chain # chs) =
     and_then (chain_origin block_chain_impl (data_block_impl sha) chain) (\<lambda>found.
     and_then (unwrap found) (\<lambda>origin. print_origins sha chs))"

definition test_faker_data_chains_vector ::
    "sha \<Rightarrow> (nat \<Rightarrow> u64) \<Rightarrow> (nat \<Rightarrow> nat \<Rightarrow> block_draw) \<Rightarrow> (nat \<Rightarrow> nat) \<Rightarrow> (nat \<Rightarrow> nat) \<Rightarrow> unit outcome" where
  "test_faker_data_chains_vector sha start draw len_rate gap_rate =
     run_call (faker_data_chains_vector sha start draw len_rate gap_rate 1000 100 10000) (\<lambda>result.
     and_then (assert_that (is_ok result)) (\<lambda>_.
     and_then (unwrap_ok result) (print_origins sha)))"

definition test_faker_executor ::
    "sha \<Rightarrow> u64 \<Rightarrow> u64 \<Rightarrow> (nat \<Rightarrow> u64) \<Rightarrow> (nat \<Rightarrow> nat \<Rightarrow> block_draw) \<Rightarrow> (nat \<Rightarrow> u64) \<Rightarrow> unit outcome" where
  "test_faker_executor sha t t' start draw now =
     and_then (unwrap_ok (faker_executor sha t t' start draw now 7 (chain_limit_new 10 1))) (\<lambda>executor.
     assert_that (length (main_blocks executor) = 7))"

section \<open>Bundles\<close>

fun build_chains ::
    "sha \<Rightarrow> (nat \<Rightarrow> u64) \<Rightarrow> (nat \<Rightarrow> nat \<Rightarrow> block_draw) \<Rightarrow> nat list \<Rightarrow> data_block block_chain list \<Rightarrow>
     data_block block_chain list outcome" where
  "build_chains sha start draw [] vec = Ok vec"
| "build_chains sha start draw (i # is) vec =
     run_call (faker_data_chain sha (start i) (draw i) 10 (word_of_nat i) 500) (\<lambda>result.
     and_then (assert_that (is_ok result)) (\<lambda>_.
     and_then (unwrap_ok result) (\<lambda>chain. build_chains sha start draw is (vec @ [chain]))))"

fun save_chains ::
    "sha \<Rightarrow> data_block block_chain codec \<Rightarrow> disk \<Rightarrow> data_block chain_bundle \<Rightarrow> data_block block_chain list \<Rightarrow>
     data_block block_chain list \<Rightarrow> data_block block_chain list outcome \<times> data_block chain_bundle \<times> disk" where
  "save_chains sha cd disk bundle [] vec_ret = (Ok vec_ret, bundle, disk)"
| "save_chains sha cd disk bundle (chain # chs) vec_ret =
     (case save_to_file cd (data_block_impl sha) True True disk bundle chain of
        (Ok chain_ret, bundle, disk) \<Rightarrow> save_chains sha cd disk bundle chs (vec_ret @ [chain_ret])
      | (r, bundle, disk) \<Rightarrow> (Panic, bundle, disk))"

text \<open>What both tests do in the end: load, compare, remove the file.\<close>

definition load_and_compare ::
    "data_block block_chain codec \<Rightarrow> (bytes \<Rightarrow> bytes list) \<Rightarrow> disk \<Rightarrow> data_block chain_bundle \<Rightarrow>
     data_block block_chain list \<Rightarrow> unit outcome \<times> disk" where
  "load_and_compare cd pieces_of disk bundle expected =
     (case run_call (fst (load_chains_from_bundle cd pieces_of disk bundle)) (\<lambda>result.
           and_then (assert_that (is_ok result)) (\<lambda>_.
           and_then (unwrap_ok result) (\<lambda>chs.
           and_then (assert_that (length chs = length expected)) (\<lambda>_.
           assert_that (chs = expected))))) of
        Ok _ \<Rightarrow> (Ok (), disk(bd_path bundle := None))
      | r \<Rightarrow> (r, disk))"

definition test_bundle_save_and_load ::
    "sha \<Rightarrow> (nat \<Rightarrow> u64) \<Rightarrow> (nat \<Rightarrow> nat \<Rightarrow> block_draw) \<Rightarrow> data_block block_chain codec \<Rightarrow> (bytes \<Rightarrow> bytes list) \<Rightarrow>
     disk \<Rightarrow> unit outcome \<times> disk" where
  "test_bundle_save_and_load sha start draw cd pieces_of disk =
     (case build_chains sha start draw [0..<10] [] of
        Ok vec \<Rightarrow>
          (case save_chains sha cd disk bundle_default_new vec [] of
             (Ok vec_ret, bundle, disk) \<Rightarrow> load_and_compare cd pieces_of disk bundle vec_ret
           | (_, bundle, disk) \<Rightarrow> (Panic, disk))
      | r \<Rightarrow> (and_then r (\<lambda>_. Ok ()), disk))"

definition test_save_chains_to_bundle ::
    "sha \<Rightarrow> (nat \<Rightarrow> u64) \<Rightarrow> (nat \<Rightarrow> nat \<Rightarrow> block_draw) \<Rightarrow> (nat \<Rightarrow> nat) \<Rightarrow> (nat \<Rightarrow> nat) \<Rightarrow> data_block block_chain codec \<Rightarrow>
     nat option \<Rightarrow> (bytes \<Rightarrow> bytes list) \<Rightarrow> disk \<Rightarrow> unit outcome \<times> disk" where
  "test_save_chains_to_bundle sha start draw len_rate gap_rate cd accepts pieces_of disk =
     (let bundle = bundle_default_new in
      case run_call (faker_data_chains_vector sha start draw len_rate gap_rate 10 100 1000000) (\<lambda>result.
           and_then (assert_that (is_ok result)) (\<lambda>_. unwrap_ok result)) of
        Ok chs \<Rightarrow>
          (case save_chains_to_bundle cd True accepts disk bundle chs of
             (result, bundle, disk) \<Rightarrow>
               (case run_call result (\<lambda>result. and_then (assert_that (is_ok result)) (\<lambda>_. unwrap_ok result)) of
                  Ok sz \<Rightarrow> load_and_compare cd pieces_of disk bundle chs
                | r \<Rightarrow> (and_then r (\<lambda>_. Ok ()), disk)))
      | r \<Rightarrow> (and_then r (\<lambda>_. Ok ()), disk))"

section \<open>The file database\<close>

definition TEST_COUNT :: nat where "TEST_COUNT = 1000"
definition TEST_FILE_MSG_REPEAT_TIMES :: nat where "TEST_FILE_MSG_REPEAT_TIMES = 100"

definition test_file_name :: "nat \<Rightarrow> string" where
  "test_file_name i = ''test_file_'' @ radix_string 10 i @ ''.txt''"

fun create_files :: "string \<Rightarrow> (nat \<Rightarrow> uuid) \<Rightarrow> nat list \<Rightarrow> disk \<Rightarrow> meta_data list \<Rightarrow> meta_data list \<times> disk" where
  "create_files src new_uuid [] disk test_meta_vec = (test_meta_vec, disk)"
| "create_files src new_uuid (i # is) disk test_meta_vec =
     (let file_name = test_file_name i; file_path = path_push src file_name;
          content = bytes_of (''hello world '' @ radix_string 10 i);
          disk = disk(file_path \<mapsto> concat (replicate TEST_FILE_MSG_REPEAT_TIMES content));
          meta = meta_new file_name (new_uuid i)
      in create_files src new_uuid is disk (test_meta_vec @ [meta]))"

fun save_test_files ::
    "meta_data codec \<Rightarrow> file_database \<Rightarrow> string \<Rightarrow> meta_data list \<Rightarrow> nat list \<Rightarrow> disk \<Rightarrow> unit outcome \<times> disk" where
  "save_test_files mc file_db src test_meta_vec [] disk = (Ok (), disk)"
| "save_test_files mc file_db src test_meta_vec (i # is) disk =
     (case vec_index test_meta_vec i of
        Ok meta \<Rightarrow>
          (case save_file mc True True True file_db disk (path_push src (test_file_name i)) meta of
             (Ok _, disk) \<Rightarrow> save_test_files mc file_db src test_meta_vec is disk
           | (_, disk) \<Rightarrow> (Panic, disk))
      | _ \<Rightarrow> (Panic, disk))"

text \<open>The loop that prints what the iterator yields, errors included: it goes on after an error.\<close>

partial_function (option) print_metas :: "meta_data codec \<Rightarrow> meta_iterator \<Rightarrow> unit option" where
  "print_metas mc it =
     (case iterator_next mc it of (None, it) \<Rightarrow> Some () | (Some _, it) \<Rightarrow> print_metas mc it)"

fun find_test_files ::
    "meta_data codec \<Rightarrow> disk \<Rightarrow> (nat \<Rightarrow> nat) \<Rightarrow> meta_data list \<Rightarrow> nat list \<Rightarrow> file_database \<Rightarrow>
     file_database outcome" where
  "find_test_files mc disk index test_meta_vec [] file_db = Ok file_db"
| "find_test_files mc disk index test_meta_vec (i # is) file_db =
     and_then (vec_index test_meta_vec (index i)) (\<lambda>meta.
     case find_meta mc disk (md_uuid meta) file_db of (result, file_db) \<Rightarrow>
     and_then (assert_that (result \<noteq> None)) (\<lambda>_.
     find_test_files mc disk index test_meta_vec is file_db))"

fun check_cache :: "(uuid \<times> meta_data) list \<Rightarrow> nat list \<Rightarrow> meta_data list \<Rightarrow> unit outcome" where
  "check_cache meta_list [] test_meta_vec = Ok ()"
| "check_cache meta_list (i # is) test_meta_vec =
     and_then (assert_that (test_meta_vec \<noteq> [])) (\<lambda>_.
     let meta = last test_meta_vec; test_meta_vec = butlast test_meta_vec in
     and_then (unwrap (map_of meta_list (md_uuid meta))) (\<lambda>from_list.
     and_then (assert_that (md_name meta = md_name from_list)) (\<lambda>_.
     check_cache meta_list is test_meta_vec)))"

text \<open>\<open>remove_dir_all\<close> takes away everything below the directory.\<close>

definition clear_test_dir :: "string \<Rightarrow> disk \<Rightarrow> unit outcome \<times> disk" where
  "clear_test_dir current_dir disk =
     (let dir = path_push current_dir ''test_dir''
      in (Ok (), \<lambda>p. if take (length dir + 1) p = dir @ ''/'' then None else disk p))"

text \<open>\<open>new_uuid i\<close> is the uuid of file \<open>i\<close>, \<open>index i\<close> the draw of search \<open>i\<close>.\<close>

definition test_file_database ::
    "meta_data codec \<Rightarrow> string \<Rightarrow> (nat \<Rightarrow> uuid) \<Rightarrow> (nat \<Rightarrow> nat) \<Rightarrow> disk \<Rightarrow> unit outcome \<times> disk" where
  "test_file_database mc current_dir new_uuid index disk =
     (let test_dir = path_push current_dir ''test_dir''; src = path_push test_dir ''src'' in
      case create_files src new_uuid [0..<TEST_COUNT] disk [] of
        (test_meta_vec, disk) \<Rightarrow>
          (case file_database_new (Some current_dir) (Some test_dir) of
             Ok file_db \<Rightarrow>
               (case save_test_files mc file_db src test_meta_vec [0..<TEST_COUNT] disk of
                  (Ok _, disk) \<Rightarrow>
                    (case iterator_new disk (path_push (fd_data_dir file_db) ''meta'') of
                       Ok it \<Rightarrow>
                         (case print_metas mc it of
                            Some _ \<Rightarrow>
                              (case and_then (find_test_files mc disk index test_meta_vec [0..<TEST_COUNT] file_db)
                                   (\<lambda>file_db. check_cache (fd_uuid_list file_db) [0..<TEST_COUNT] test_meta_vec) of
                                 Ok _ \<Rightarrow>
                                   (case clear_test_dir current_dir disk of
                                      (result, disk) \<Rightarrow> (assert_that (is_ok result), disk))
                               | r \<Rightarrow> (r, disk))
                          | None \<Rightarrow> (Diverge, disk))
                     | _ \<Rightarrow> (Panic, disk))
                | (r, disk) \<Rightarrow> (r, disk))
           | _ \<Rightarrow> (Panic, disk)))"

section \<open>Verdicts: the serializer, chains and executors\<close>

lemma header_of_frame:
  assumes "length (enc v) \<le> U32_MAX"
  shows "u32_from_be (write_at (replicate 4 0) 0 (take 4 (frame enc v))) = word_of_nat (length (enc v))"
  using assms by (simp add: frame_def write_at_def)

lemma serializer_test_passes:
  assumes "codes sc enc ''i am a test string''" and "4 + length (enc ''i am a test string'') \<le> BUFFER_SIZE"
    and "take 4 (old @ frame enc ''i am a test string'') = take 4 (frame enc ''i am a test string'')"
    and "\<And>bs. concat (pieces_of bs) = bs \<and> (\<forall>p \<in> set (pieces_of bs). p \<noteq> [] \<and> length p < BUFFER_SIZE)"
  shows "test_serializer sc old pieces_of = Ok ()"
proof -
  let ?v = "''i am a test string''" and ?n = "length (enc ''i am a test string'')"
  let ?s = "set_data (serializer_new None) ?v"
  have n: "?n \<le> U32_MAX" using assms(2) by (rule frame_bound_U32)
  have "doubling_fits 4 (4 + ?n)"
    unfolding doubling_fits_def using assms(2) by (intro disjI2 exI [of _ 15]) (simp add: BUFFER_SIZE_def BIG_pos)
  with header_loop_result [OF assms(1), of "replicate 4 0"] obtain dst where
    d: "header_loop sc ?v 4 (replicate 4 0) = Some (Ok (4 + ?n), dst)" "take (4 + ?n) dst = frame enc ?v"
      "4 + ?n \<le> length dst" by auto
  then have sl: "slice dst 0 (4 + ?n) = Ok (frame enc ?v)" using d(2) by (simp add: slice_def)
  have e: "encode_into_vec_with_header sc ?s (replicate 4 0) = (Ok (4 + ?n), ?s, dst)"
    using d(1) by (simp add: encode_into_vec_with_header_def take_data_def set_data_def)
  have dec: "decode_from_slice_with_header sc (frame enc ?v) = Ok [?v]"
    using decode_all [of "[?v]" sc enc] assms(1) n by simp
  have len: "length (ser_buffer (serializer_new None :: string serializer)) = BUFFER_SIZE"
    by (simp add: serializer_new_def)
  have save: "\<exists>s'. save_into_asyncwrite sc True (set_data s ?v) = (Ok (4 + ?n), s', frame enc ?v) \<and>
      length (ser_buffer s') = BUFFER_SIZE" if "length (ser_buffer s) = BUFFER_SIZE" for s
    using save_writes_frame [OF assms(1), of "set_data s ?v"] that assms(2) by (auto simp: set_data_def)
  obtain s1 where s1: "save_into_asyncwrite sc True ?s = (Ok (4 + ?n), s1, frame enc ?v)" "length (ser_buffer s1) = BUFFER_SIZE"
    using save [OF len] by blast
  obtain s2 where s2: "save_into_asyncwrite sc True (set_data s1 ?v) = (Ok (4 + ?n), s2, frame enc ?v)" "length (ser_buffer s2) = BUFFER_SIZE"
    using save [OF s1(2)] by blast
  obtain s3 where s3: "save_into_asyncwrite sc True (set_data s2 ?v) = (Ok (4 + ?n), s3, frame enc ?v)" "length (ser_buffer s3) = BUFFER_SIZE"
    using save [OF s2(2)] by blast
  have both: "fst (decode_from_asyncread sc (pieces_of (frame enc ?v @ frame enc ?v)) s3) = Ok [?v, ?v]"
    using asyncread_frames [of "[?v, ?v]" sc enc "pieces_of (frame enc ?v @ frame enc ?v)" s3] assms(1,4) n s3(2) by simp
  have set_again: "set_data ?s ?v = ?s" by (simp add: set_data_def)
  have hdr: "u32_from_be (write_at (replicate 4 0) 0 (take 4 (old @ frame enc ?v))) = word_of_nat ?n"
    unfolding assms(3) using n by (rule header_of_frame)
  have get: "unwrap (get_data ?s) = Ok ?v" by (simp add: get_data_def set_data_def)
  show ?thesis
    unfolding test_serializer_def Let_def get and_then.simps e set_again s1(1) s2(1) s3(1) prod.case run_call_simps
    by (simp add: sl dec hdr both vec_index_def sub_usize_def del: take_append)
qed

lemma faker_chain_test_passes:
  assumes "\<forall>i < 9. in_window start 1 (snd (snd (draw i)))"
  shows "test_faker_data_chain sha start draw = Ok ()"
proof -
  from faker_data_chain_Ok [of 10 start 1 draw sha 1] assms obtain c where
    c: "faker_data_chain sha start draw 10 1 1 = Ok c" "faker_inv sha start 10 1 1 9 c" by auto
  have "length (bc_blocks c) = 10" using faker_inv_length [OF c(2)] by simp
  with c have "chain_verify block_chain_impl (data_block_impl sha) c = Ok ()"
    by (auto simp: faker_inv_def intro: chain_inv_verify)
  with c(1) show ?thesis by (simp add: test_faker_data_chain_def)
qed

text \<open>The draws of \<open>faker_data_chains_vector\<close>: percentages of 50 to 99 and clock readings in the windows.\<close>

definition vector_draws :: "(nat \<Rightarrow> u64) \<Rightarrow> (nat \<Rightarrow> nat \<Rightarrow> block_draw) \<Rightarrow> (nat \<Rightarrow> nat) \<Rightarrow> (nat \<Rightarrow> nat) \<Rightarrow> nat \<Rightarrow> u64 \<Rightarrow> nat \<Rightarrow> bool" where
  "vector_draws start draw len_rate gap_rate chain_max_len max_time_gap i \<longleftrightarrow>
     50 \<le> len_rate i \<and> len_rate i < 100 \<and> 50 \<le> gap_rate i \<and> gap_rate i < 100 \<and>
     (\<forall>j < chain_max_len. in_window (start i) (word_of_nat (gap_rate i * unat max_time_gap div 100)) (snd (snd (draw i j))))"

lemma vector_loop_Ok:
  assumes "2 \<le> chain_max_len" and "100 * unat max_time_gap \<le> U64_MAX"
    and "\<forall>i \<in> set is. vector_draws start draw len_rate gap_rate chain_max_len max_time_gap i"
  shows "\<exists>cs. vector_loop sha start draw len_rate gap_rate chain_max_len max_time_gap is vec = Ok (vec @ cs) \<and>
    length cs = length is \<and> (\<forall>c \<in> set cs. bc_blocks c \<noteq> [])"
  using assms(3)
proof (induction "is" arbitrary: vec)
  case Nil
  then show ?case by simp
next
  case (Cons i "is")
  let ?len = "len_rate i * chain_max_len div 100" and ?gap = "word_of_nat (gap_rate i * unat max_time_gap div 100) :: u64"
  from Cons.prems have d: "vector_draws start draw len_rate gap_rate chain_max_len max_time_gap i" by simp
  have "100 \<le> 50 * chain_max_len" "50 * chain_max_len \<le> len_rate i * chain_max_len"
    using assms(1) d by (simp_all add: vector_draws_def)
  then have len: "1 \<le> ?len" by linarith
  have "len_rate i * chain_max_len \<le> 100 * chain_max_len" using d by (simp add: vector_draws_def)
  then have "?len \<le> chain_max_len" by linarith
  then have "\<forall>j < ?len - 1. in_window (start i) ?gap (snd (snd (draw i j)))"
    using d by (simp add: vector_draws_def)
  from faker_data_chain_Ok [OF len this, of sha "word_of_nat i"] obtain c where
    c: "faker_data_chain sha (start i) (draw i) ?len (word_of_nat i) ?gap = Ok c"
      "faker_inv sha (start i) ?len ?gap (word_of_nat i) (?len - 1) c" by blast
  have ne: "bc_blocks c \<noteq> []" using faker_inv_length [OF c(2)] by auto
  have "gap_rate i * unat max_time_gap \<le> 100 * unat max_time_gap" using d by (simp add: vector_draws_def)
  then have "\<not> U64_MAX < gap_rate i * unat max_time_gap" using assms(2) by linarith
  moreover from Cons.IH [of "vec @ [c]"] Cons.prems obtain cs where
    "vector_loop sha start draw len_rate gap_rate chain_max_len max_time_gap is (vec @ [c]) = Ok ((vec @ [c]) @ cs)"
    "length cs = length is" "\<forall>c \<in> set cs. bc_blocks c \<noteq> []" by auto
  ultimately show ?case using c(1) ne
    by (intro exI [of _ "c # cs"]) (simp add: Let_def)
qed

lemma print_origins_Ok: "\<forall>c \<in> set cs. bc_blocks c \<noteq> [] \<Longrightarrow> print_origins sha cs = Ok ()"
  by (induction cs) (simp_all add: bc.origin_view)

lemma faker_vector_test_passes:
  assumes "\<forall>i < 1000. vector_draws start draw len_rate gap_rate 100 10000 i"
  shows "test_faker_data_chains_vector sha start draw len_rate gap_rate = Ok ()"
proof -
  have "100 * unat (10000 :: u64) \<le> U64_MAX" by (simp add: U64_MAX_def)
  from vector_loop_Ok [OF _ this, of 100 "[0..<1000]" start draw len_rate gap_rate sha "[]"] assms
  obtain cs where "vector_loop sha start draw len_rate gap_rate 100 10000 [0..<1000] [] = Ok cs"
    "\<forall>c \<in> set cs. bc_blocks c \<noteq> []" by auto
  then show ?thesis
    by (simp add: test_faker_data_chains_vector_def faker_data_chains_vector_def print_origins_Ok)
qed

lemma faker_executor_test_passes:
  assumes "\<forall>i < 6. in_window t 1 (now i)"
    and "\<forall>i < 6. \<forall>j < 9. in_window (start i) 1 (snd (snd (draw i j)))"
  shows "test_faker_executor sha t t' start draw now = Ok ()"
  using faker_executor_builds [of 7 "chain_limit_new 10 1" t now start draw sha t'] assms
  by (auto simp: test_faker_executor_def chain_limit_new_def U32_MAX_def)

section \<open>Verdicts: bundles\<close>

lemma build_chains_Ok:
  assumes "\<forall>i \<in> set is. \<forall>j < 9. in_window (start i) 500 (snd (snd (draw i j)))"
  shows "\<exists>cs. build_chains sha start draw is vec = Ok (vec @ cs) \<and> length cs = length is \<and>
    (\<forall>c \<in> set cs. windowed (data_block_impl sha) c)"
  using assms
proof (induction "is" arbitrary: vec)
  case Nil
  then show ?case by simp
next
  case (Cons i "is")
  then have d: "\<forall>j < 10 - 1. in_window (start i) 500 (snd (snd (draw i j)))" by simp
  from faker_data_chain_Ok [OF _ this, of sha "word_of_nat i"] obtain c where
    c: "faker_data_chain sha (start i) (draw i) 10 (word_of_nat i) 500 = Ok c"
      "faker_inv sha (start i) 10 500 (word_of_nat i) 9 c" by auto
  have "bc_blocks c \<noteq> []" using faker_inv_length [OF c(2)] by auto
  moreover have "in_window (start i) 500 (snd (snd (draw i 0)))" using d by simp
  ultimately have "windowed (data_block_impl sha) c"
    using c(2) by (simp add: windowed_def chain_stop_def chain_start_def faker_inv_def in_window_def chain_limit_new_def)
  moreover from Cons.IH [of "vec @ [c]"] Cons.prems obtain cs where
    "build_chains sha start draw is (vec @ [c]) = Ok ((vec @ [c]) @ cs)" "length cs = length is"
    "\<forall>c \<in> set cs. windowed (data_block_impl sha) c" by auto
  ultimately show ?case using c(1) by (intro exI [of _ "c # cs"]) simp
qed

lemma save_chains_frames:
  assumes "\<forall>c \<in> set cs. codes cd enc c \<and> windowed (data_block_impl sha) c \<and>
      4 + length (enc c) \<le> length (ser_buffer (bd_serializer b))"
    and "described (data_block_impl sha) b ds" and "\<forall>c \<in> set ds. windowed (data_block_impl sha) c"
    and "length ds + length cs \<le> U32_MAX"
  shows "\<exists>b'. save_chains sha cd disk b cs vec_ret = (Ok (vec_ret @ cs), b', if cs = [] then disk
        else disk(bd_path b \<mapsto> content_of disk (bd_path b) @ frames enc cs)) \<and>
    bd_path b' = bd_path b \<and> length (ser_buffer (bd_serializer b')) = length (ser_buffer (bd_serializer b))"
  using assms
proof (induction cs arbitrary: disk b ds vec_ret)
  case Nil
  then show ?case by simp
next
  case (Cons c cs)
  let ?I = "data_block_impl sha"
  from Cons.prems have "codes cd enc c" "4 + length (enc c) \<le> length (ser_buffer (bd_serializer b))"
    "windowed ?I c" "length ds < U32_MAX" by auto
  from save_to_file_appends [OF this(1,2) Cons.prems(2) this(3,4) Cons.prems(3), of disk] obtain b1 where
    b1: "save_to_file cd ?I True True disk b c =
        (Ok c, b1, disk(bd_path b \<mapsto> content_of disk (bd_path b) @ frame enc c))"
      "described ?I b1 (ds @ [c])" "bd_path b1 = bd_path b"
      "length (ser_buffer (bd_serializer b1)) = length (ser_buffer (bd_serializer b))" by blast
  let ?d = "disk(bd_path b \<mapsto> content_of disk (bd_path b) @ frame enc c)"
  have "\<exists>b'. save_chains sha cd ?d b1 cs (vec_ret @ [c]) = (Ok ((vec_ret @ [c]) @ cs), b', if cs = [] then ?d
        else ?d(bd_path b1 \<mapsto> content_of ?d (bd_path b1) @ frames enc cs)) \<and>
      bd_path b' = bd_path b1 \<and> length (ser_buffer (bd_serializer b')) = length (ser_buffer (bd_serializer b1))"
    by (rule Cons.IH [of b1 "ds @ [c]"]) (use Cons.prems b1 in auto)
  then show ?case using b1(1,3,4) by (cases "cs = []") (auto simp: content_of_def intro!: ext)
qed

text \<open>What a stream hands out: any non-empty pieces shorter than the buffer of the serializer.\<close>

definition in_pieces :: "(bytes \<Rightarrow> bytes list) \<Rightarrow> bool" where
  "in_pieces pieces_of \<longleftrightarrow>
     (\<forall>bs. concat (pieces_of bs) = bs \<and> (\<forall>p \<in> set (pieces_of bs). p \<noteq> [] \<and> length p < BUFFER_SIZE))"

lemma in_pieces_singletons: "in_pieces (map (\<lambda>b. [b]))"
  unfolding in_pieces_def using concat_singletons singleton_pieces by blast

lemma load_and_compare_verdict:
  assumes "\<forall>c \<in> set cs. codes cd enc c \<and> 4 + length (enc c) \<le> BUFFER_SIZE" and "in_pieces pieces_of"
    and "disk (bd_path b) = Some (frames enc cs)" and "length (ser_buffer (bd_serializer b)) = BUFFER_SIZE"
  shows "load_and_compare cd pieces_of disk b expected =
    (if cs = expected then (Ok (), disk(bd_path b := None)) else (Panic, disk))"
proof -
  have "concat (pieces_of (frames enc cs)) = frames enc cs"
    "\<forall>p \<in> set (pieces_of (frames enc cs)). p \<noteq> [] \<and> length p < length (ser_buffer (bd_serializer b))"
    using assms(2,4) by (auto simp: in_pieces_def)
  moreover have "\<forall>c \<in> set cs. codes cd enc c" "\<forall>c \<in> set cs. length (enc c) \<le> U32_MAX"
    using assms(1) frame_bound_U32 by auto
  ultimately have "fst (load_chains_from_bundle cd pieces_of disk b) = Ok cs" using assms(3) by (intro load_frames)
  then show ?thesis by (simp add: load_and_compare_def assert_that_def)
qed

lemma bundle_new_simps:
  "bd_path bundle_default_new = DEFAULT_BUNDLE_FILE" "length (ser_buffer (bd_serializer bundle_default_new)) = BUFFER_SIZE"
  "described I bundle_default_new []"
  by (simp_all add: bundle_default_new_def serializer_new_def described_def)

lemma bundle_test_verdict:
  assumes "\<forall>i < 10. \<forall>j < 9. in_window (start i) 500 (snd (snd (draw i j)))"
    and "build_chains sha start draw [0..<10] [] = Ok cs" and "in_pieces pieces_of"
    and "\<forall>c \<in> set olds \<union> set cs. codes cd enc c \<and> 4 + length (enc c) \<le> BUFFER_SIZE"
    and "content_of disk DEFAULT_BUNDLE_FILE = frames enc olds"
  shows "test_bundle_save_and_load sha start draw cd pieces_of disk =
    (if olds = [] then (Ok (), disk(DEFAULT_BUNDLE_FILE := None))
     else (Panic, disk(DEFAULT_BUNDLE_FILE \<mapsto> frames enc (olds @ cs))))"
proof -
  let ?b = "bundle_default_new :: data_block chain_bundle" and ?I = "data_block_impl sha"
  from build_chains_Ok [of "[0..<10]" start draw sha "[]"] assms(1,2) have
    cs: "length cs = 10" "\<forall>c \<in> set cs. windowed ?I c" by auto
  have fits: "\<forall>c \<in> set cs. codes cd enc c \<and> windowed ?I c \<and> 4 + length (enc c) \<le> length (ser_buffer (bd_serializer ?b))"
    using assms(4) cs(2) by (simp add: bundle_new_simps)
  have n: "length ([] :: data_block block_chain list) + length cs \<le> U32_MAX" using cs(1) by (simp add: U32_MAX_def)
  let ?disk' = "disk(DEFAULT_BUNDLE_FILE \<mapsto> frames enc (olds @ cs))"
  have "cs \<noteq> []" using cs(1) by auto
  with save_chains_frames [OF fits bundle_new_simps(3) _ n, of disk "[]"] assms(5) obtain b' where
    b: "save_chains sha cd disk ?b cs [] = (Ok cs, b', ?disk')" "bd_path b' = DEFAULT_BUNDLE_FILE"
      "length (ser_buffer (bd_serializer b')) = BUFFER_SIZE"
    by (auto simp: bundle_new_simps)
  have "?disk' (bd_path b') = Some (frames enc (olds @ cs))" using b(2) by simp
  from load_and_compare_verdict [where enc = enc and cd = cd and pieces_of = pieces_of and disk = ?disk' and b = b' and
      cs = "olds @ cs" and expected = cs, OF _ assms(3) this b(3)] assms(4)
  have "load_and_compare cd pieces_of ?disk' b' cs =
      (if olds = [] then (Ok (), ?disk'(DEFAULT_BUNDLE_FILE := None)) else (Panic, ?disk'))"
    using b(2) by auto
  then show ?thesis by (simp add: test_bundle_save_and_load_def assms(2) b(1) del: fun_upd_apply)
qed

lemma save_vector_test_verdict:
  assumes "faker_data_chains_vector sha start draw len_rate gap_rate 10 100 1000000 = Ok cs" and "in_pieces pieces_of"
    and "\<forall>c \<in> set (cs @ olds). codes cd enc c \<and> 4 + length (enc c) \<le> BUFFER_SIZE"
    and "length (frames enc cs) \<le> BUFFER_SIZE" and "length (frames enc cs) \<le> limit"
    and "drop (length (frames enc cs)) (content_of disk DEFAULT_BUNDLE_FILE) = frames enc olds"
  shows "test_save_chains_to_bundle sha start draw len_rate gap_rate cd (Some limit) pieces_of disk =
    (if olds = [] then (Ok (), disk(DEFAULT_BUNDLE_FILE := None))
     else (Panic, disk(DEFAULT_BUNDLE_FILE \<mapsto> frames enc (cs @ olds))))"
proof -
  let ?b = "bundle_default_new :: data_block chain_bundle" and ?n = "length (frames enc cs)"
  have len: "length (ser_buffer (bd_serializer ?b)) = BUFFER_SIZE" by (rule bundle_new_simps)
  from encode_items_fits [where vs = cs and cd = cd and enc = enc and off = 0 and dst = "ser_buffer (bd_serializer ?b)"]
    assms(3,4) len
  obtain buf where buf: "encode_items cd cs 0 (ser_buffer (bd_serializer ?b)) = (Ok ?n, buf)"
    "length buf = BUFFER_SIZE" "take ?n buf = frames enc cs" by auto
  let ?b' = "?b\<lparr>bd_serializer := (bd_serializer ?b)\<lparr>ser_buffer := buf\<rparr>\<rparr>"
  let ?disk' = "disk(DEFAULT_BUNDLE_FILE \<mapsto> frames enc (cs @ olds))"
  have s: "save_chains_to_bundle cd True (Some limit) disk ?b cs = (Ok ?n, ?b', ?disk')"
    using buf assms(4-6)
    by (simp add: save_chains_to_bundle_def encode_vec_into_def Let_def slice_def min_def bundle_new_simps content_of_def
        split: option.splits)
  have "?disk' (bd_path ?b') = Some (frames enc (cs @ olds))" by (simp add: bundle_new_simps)
  from load_and_compare_verdict [where enc = enc and cd = cd and pieces_of = pieces_of and disk = ?disk' and b = ?b' and
      cs = "cs @ olds" and expected = cs, OF assms(3,2) this] buf(2)
  have "load_and_compare cd pieces_of ?disk' ?b' cs =
      (if olds = [] then (Ok (), ?disk'(DEFAULT_BUNDLE_FILE := None)) else (Panic, ?disk'))"
    by (auto simp: bundle_new_simps)
  then show ?thesis
    by (simp add: test_save_chains_to_bundle_def Let_def assms(1) s del: fun_upd_apply)
qed

section \<open>Verdicts: the file database\<close>

lemma path_split_append: "path_split (a @ CHR ''/'' # b) acc = path_split a acc @ path_split b []"
  by (induction a acc rule: path_split.induct) auto

lemma path_split_name: "CHR ''/'' \<notin> set n \<Longrightarrow> path_split n acc = [acc @ n]"
  by (induction n acc rule: path_split.induct) auto

lemma file_name_of_path:
  assumes "CHR ''/'' \<notin> set n" and "n \<notin> {'''', ''.'', ''..''}"
  shows "path_file_name (dir @ CHR ''/'' # n) = Some n"
  using assms by (simp add: path_file_name_def path_split_append path_split_name Let_def)

lemma path_push_under:
  assumes "n \<noteq> []" and "hd n \<noteq> CHR ''/''" and "dir \<noteq> []" and "last dir \<noteq> CHR ''/''"
  shows "path_push dir n = dir @ CHR ''/'' # n"
  using assms by (simp add: path_push_def)

lemma digits_no_slash: "CHR ''/'' \<notin> set (radix_string 10 n)"
proof (induction n rule: less_induct)
  case (less n)
  have d: "digit k \<noteq> CHR ''/''" if "k < 10" for k
  proof -
    have "of_char (digit k) = 48 + k" using that by (simp add: digit_def)
    moreover have "of_char (CHR ''/'') = (47 :: nat)" by simp
    ultimately show ?thesis by auto
  qed
  show ?case
  proof (cases "n < 10")
    case True
    then show ?thesis using d [of n] by (subst radix_string.simps) simp
  next
    case False
    then have "CHR ''/'' \<notin> set (radix_string 10 (n div 10))" by (intro less) simp
    then show ?thesis using False d [of "n mod 10"] by (subst radix_string.simps) auto
  qed
qed

lemma test_file_name_simps:
  "CHR ''/'' \<notin> set (test_file_name i)" "test_file_name i \<notin> {'''', ''.'', ''..'', ''meta''}"
  "test_file_name i \<noteq> []" "hd (test_file_name i) \<noteq> CHR ''/''" "test_file_name i = test_file_name j \<longleftrightarrow> i = j"
  using digits_no_slash [of i] by (auto simp: test_file_name_def radix_string_inject)

text \<open>The directories of the test: \<open>test_dir\<close> does not end in a slash, and no test file is the metadata file.\<close>

lemma test_dirs:
  fixes current_dir :: string
  defines "test_dir \<equiv> path_push current_dir ''test_dir''"
  shows "path_push test_dir ''src'' = test_dir @ ''/src''" "path_push test_dir ''meta'' = test_dir @ ''/meta''"
    "path_push (test_dir @ ''/src'') (test_file_name i) = test_dir @ ''/src/'' @ test_file_name i"
    "path_file_name (test_dir @ ''/src/'' @ test_file_name i) = Some (test_file_name i)"
proof -
  have t: "test_dir \<noteq> []" "last test_dir = CHR ''r''" by (auto simp: test_dir_def path_push_def)
  then show "path_push test_dir ''src'' = test_dir @ ''/src''" "path_push test_dir ''meta'' = test_dir @ ''/meta''"
    by (simp_all add: path_push_under)
  show "path_push (test_dir @ ''/src'') (test_file_name i) = test_dir @ ''/src/'' @ test_file_name i"
    using test_file_name_simps [of i] by (simp add: path_push_under)
  show "path_file_name (test_dir @ ''/src/'' @ test_file_name i) = Some (test_file_name i)"
    using file_name_of_path [of "test_file_name i" "test_dir @ ''/src''"] test_file_name_simps [of i] by simp
qed

definition test_meta :: "(nat \<Rightarrow> uuid) \<Rightarrow> nat \<Rightarrow> meta_data" where
  "test_meta new_uuid i = meta_new (test_file_name i) (new_uuid i)"

lemma create_files_spec:
  "\<exists>disk'. create_files src new_uuid is disk vec = (vec @ map (test_meta new_uuid) is, disk') \<and>
    (\<forall>i \<in> set is. disk' (path_push src (test_file_name i)) \<noteq> None) \<and> dom disk \<subseteq> dom disk' \<and>
    (\<forall>p. p \<notin> (\<lambda>i. path_push src (test_file_name i)) ` set is \<longrightarrow> disk' p = disk p)"
proof (induction "is" arbitrary: disk vec)
  case (Cons i "is")
  let ?d = "disk(path_push src (test_file_name i) \<mapsto>
      concat (replicate TEST_FILE_MSG_REPEAT_TIMES (bytes_of (''hello world '' @ radix_string 10 i))))"
  from Cons.IH [of ?d "vec @ [test_meta new_uuid i]"] obtain disk' where d:
    "create_files src new_uuid is ?d (vec @ [test_meta new_uuid i]) =
       ((vec @ [test_meta new_uuid i]) @ map (test_meta new_uuid) is, disk')"
    "\<forall>i \<in> set is. disk' (path_push src (test_file_name i)) \<noteq> None" "dom ?d \<subseteq> dom disk'"
    "\<forall>p. p \<notin> (\<lambda>i. path_push src (test_file_name i)) ` set is \<longrightarrow> disk' p = ?d p" by blast
  then show ?case by (intro exI [of _ disk']) (auto simp: Let_def test_meta_def)
qed simp

lemma save_test_files_spec:
  assumes "\<forall>i \<in> set is. i < length metas \<and> savable disk (path_push src (test_file_name i)) \<and> meta_fits mc enc (metas ! i)"
  shows "save_test_files mc fd src metas is disk =
    (Ok (), save_files mc fd disk (map (\<lambda>i. (path_push src (test_file_name i), metas ! i)) is))"
  using assms
proof (induction "is" arbitrary: disk)
  case (Cons i "is")
  let ?p = "path_push src (test_file_name i)"
  from Cons.prems have i: "i < length metas" "savable disk ?p" "meta_fits mc enc (metas ! i)" by auto
  from save_file_appends [OF i(3,2) refl refl, of fd] obtain disk' where
    s: "save_file mc True True True fd disk ?p (metas ! i) = (Ok (), disk')" "dom disk \<subseteq> dom disk'" by auto
  then have "\<forall>j \<in> set is. j < length metas \<and> savable disk' (path_push src (test_file_name j)) \<and> meta_fits mc enc (metas ! j)"
    using Cons.prems by (fastforce simp: savable_def)
  from Cons.IH [OF this] s(1) i(1) show ?case by (simp add: vec_index_def)
qed simp

lemma save_files_content:
  assumes "\<forall>(p, m) \<in> set pms. savable disk p \<and> meta_fits mc enc m"
    and "meta_path = path_push (fd_data_dir fd) ''meta''"
  shows "content_of (save_files mc fd disk pms) meta_path = content_of disk meta_path @ frames enc (map snd pms) \<and>
    (pms \<noteq> [] \<longrightarrow> save_files mc fd disk pms meta_path \<noteq> None)"
  using assms(1)
proof (induction pms arbitrary: disk)
  case Nil
  then show ?case by simp
next
  case (Cons pm pms)
  obtain p m where pm: "pm = (p, m)" by (cases pm)
  let ?disk = "snd (save_file mc True True True fd disk p m)"
  from Cons.prems pm have "meta_fits mc enc m" "savable disk p" by auto
  from save_file_appends [OF this assms(2) refl]
  have d: "content_of ?disk meta_path = content_of disk meta_path @ frame enc m" "?disk meta_path \<noteq> None"
    "dom disk \<subseteq> dom ?disk" by (auto simp: content_of_def)
  then have "\<forall>(p, m) \<in> set pms. savable ?disk p \<and> meta_fits mc enc m"
    using Cons.prems by (fastforce simp: savable_def)
  from Cons.IH [OF this] d show ?case by (cases pms) (auto simp: pm)
qed

lemma print_metas_frames:
  assumes "\<forall>m \<in> set ms. meta_fits mc enc m"
  shows "print_metas mc \<lparr>it_rest = frames enc ms, it_current_pos = pos,
      it_end_pos = pos + length (frames enc ms)\<rparr> = Some ()"
  using assms
proof (induction ms arbitrary: pos)
  case Nil
  then show ?case by (subst print_metas.simps) (simp add: iterator_next_def)
next
  case (Cons m ms)
  have "iterator_next mc \<lparr>it_rest = frames enc (m # ms), it_current_pos = pos,
      it_end_pos = pos + length (frames enc (m # ms))\<rparr> =
    (Some (Ok m), \<lparr>it_rest = frames enc ms, it_current_pos = pos + (length (enc m) + 4),
      it_end_pos = pos + (length (enc m) + 4) + length (frames enc ms)\<rparr>)"
    using get_one_meta_frame [of mc enc m] Cons.prems by (simp add: iterator_next_def add_ac)
  moreover have "\<forall>m \<in> set ms. meta_fits mc enc m" using Cons.prems by simp
  ultimately show ?case using Cons.IH by (subst print_metas.simps) (simp only: prod.case option.case)
qed

lemma find_test_files_warm:
  assumes "\<forall>i \<in> set is. index i < length metas" and "\<forall>m \<in> set metas. map_of (fd_uuid_list fd) (md_uuid m) \<noteq> None"
    and "fd_uuid_list fd \<noteq> []"
  shows "find_test_files mc disk index metas is fd = Ok fd"
  using assms by (induction "is") (auto simp: vec_index_def find_meta_warm)

lemma latest_map_of: "distinct (map md_uuid ms) \<Longrightarrow> m \<in> set ms \<Longrightarrow> latest (olds @ ms) (md_uuid m) = Some m"
proof (induction olds)
  case Nil
  then have "distinct (map fst (rev (meta_pairs ms)))" "(md_uuid m, m) \<in> set (rev (meta_pairs ms))"
    by (auto simp: meta_pairs_def comp_def simp flip: rev_map)
  then show ?case by (simp add: latest_def map_of_eq_Some_iff)
qed (auto simp: map_add_def)

lemma check_cache_Ok:
  assumes "length metas = length is" and "\<forall>m \<in> set metas. map_of l (md_uuid m) = Some m"
  shows "check_cache l is metas = Ok ()"
  using assms
proof (induction "is" arbitrary: metas)
  case (Cons i "is")
  then have "metas \<noteq> []" by auto
  moreover from this Cons.prems have "map_of l (md_uuid (last metas)) = Some (last metas)" by simp
  moreover have "check_cache l is (butlast metas) = Ok ()"
    using Cons.prems by (intro Cons.IH) (auto dest: in_set_butlastD)
  ultimately show ?case by (simp add: Let_def)
qed simp

lemma file_database_test_passes:
  assumes "\<forall>i < TEST_COUNT. meta_fits mc enc (test_meta new_uuid i)" and "inj_on new_uuid {..<TEST_COUNT}"
    and "\<forall>i < TEST_COUNT. index i < TEST_COUNT"
    and "content_of disk (path_push (path_push current_dir ''test_dir'') ''meta'') = frames enc ms"
    and "\<forall>m \<in> set ms. meta_fits mc enc m"
  shows "\<exists>disk'. test_file_database mc current_dir new_uuid index disk = (Ok (), disk') \<and>
    (\<forall>p. disk' (path_push current_dir ''test_dir'' @ ''/'' @ p) = None)"
proof -
  let ?dir = "path_push current_dir ''test_dir''" and ?is = "[0..<TEST_COUNT]"
  let ?src = "path_push ?dir ''src''" and ?meta = "path_push ?dir ''meta''" and ?metas = "map (test_meta new_uuid) [0..<TEST_COUNT]"
  let ?fd = "\<lparr>fd_uuid_list = [], fd_data_dir = ?dir, fd_bundle_file = path_push ?dir ''bundle''\<rparr>"
  let ?pms = "map (\<lambda>i. (path_push ?src (test_file_name i), ?metas ! i)) ?is"
  note dirs = test_dirs [of current_dir]
  have pos: "0 < TEST_COUNT" by (simp add: TEST_COUNT_def)
  obtain disk1 where c: "create_files ?src new_uuid ?is disk [] = (?metas, disk1)"
    "\<forall>i \<in> set ?is. disk1 (path_push ?src (test_file_name i)) \<noteq> None"
    "\<forall>p. p \<notin> (\<lambda>i. path_push ?src (test_file_name i)) ` set ?is \<longrightarrow> disk1 p = disk p"
    using create_files_spec [of ?src new_uuid ?is disk "[]"] by auto
  have "?meta \<notin> (\<lambda>i. path_push ?src (test_file_name i)) ` set ?is" by (auto simp: dirs)
  then have "disk1 ?meta = disk ?meta" using c(3) by blast
  then have old: "content_of disk1 ?meta = frames enc ms" using assms(4) by (simp add: content_of_def)
  have file_of: "path_file_name (path_push ?src (test_file_name i)) = Some (test_file_name i)" for i
    by (simp only: dirs)
  have nth: "?metas ! i = test_meta new_uuid i" if "i < TEST_COUNT" for i using that by simp
  have ok: "i < length ?metas \<and> savable disk1 (path_push ?src (test_file_name i)) \<and> meta_fits mc enc (?metas ! i)"
    if "i \<in> set ?is" for i
    using that c(2) assms(1) test_file_name_simps(2) [of i] file_of [of i] by (auto simp: savable_def)
  let ?disk2 = "save_files mc ?fd disk1 ?pms"
  from save_test_files_spec [of ?is ?metas disk1 ?src mc enc ?fd] ok
  have s: "save_test_files mc ?fd ?src ?metas ?is disk1 = (Ok (), ?disk2)" by blast
  have pairs: "map snd ?pms = ?metas" by (rule nth_equalityI) simp_all
  have ok_pms: "\<forall>(p, m) \<in> set ?pms. savable disk1 p \<and> meta_fits mc enc m" using ok by auto
  have "?pms \<noteq> []" using pos by simp
  with save_files_content [OF ok_pms, of ?meta ?fd]
  have "content_of ?disk2 ?meta = frames enc (ms @ ?metas)" "?disk2 ?meta \<noteq> None"
    unfolding pairs old frames_simps by simp_all
  then have m: "?disk2 ?meta = Some (frames enc (ms @ ?metas))" by (auto simp: content_of_def)
  have fits: "\<forall>m \<in> set (ms @ ?metas). meta_fits mc enc m" using assms(1,5) by auto
  from print_metas_frames [OF fits, of 0] have p:
    "print_metas mc \<lparr>it_rest = frames enc (ms @ ?metas), it_current_pos = 0, it_end_pos = length (frames enc (ms @ ?metas))\<rparr> = Some ()"
    by (simp only: add_0)
  have inj: "inj_on new_uuid (set ?is)" using assms(2) by (simp add: atLeast0LessThan)
  have "map md_uuid ?metas = map new_uuid ?is" by (simp add: test_meta_def meta_new_def)
  then have "distinct (map md_uuid ?metas)" using inj by (simp only: distinct_map distinct_upt)
  then have l: "latest (ms @ ?metas) (md_uuid m) = Some m" if "m \<in> set ?metas" for m
    using that by (rule latest_map_of)
  have first: "?is = 0 # [1..<TEST_COUNT]" using pos by (simp add: upt_rec)
  obtain fd' where find: "find_test_files mc ?disk2 index ?metas ?is ?fd = Ok fd'" "map_of (fd_uuid_list fd') = latest (ms @ ?metas)"
  proof -
    let ?u = "md_uuid (?metas ! index 0)"
    have i0: "index 0 < length ?metas" using assms(3) pos by simp
    have mem: "?metas ! index 0 \<in> set ?metas" using i0 by (rule nth_mem)
    from find_meta_cold [where u = ?u and disk = ?disk2 and fd = ?fd and enc = enc and mc = mc, OF fits] m obtain lst where
      f: "find_meta mc ?disk2 ?u ?fd = (latest (ms @ ?metas) ?u, ?fd\<lparr>fd_uuid_list := lst\<rparr>)" "map_of lst = latest (ms @ ?metas)"
      by auto
    have "lst \<noteq> []" using f(2) l [OF mem] by (metis map_of.simps(1) option.distinct(1))
    then have "find_test_files mc ?disk2 index ?metas [1..<TEST_COUNT] (?fd\<lparr>fd_uuid_list := lst\<rparr>) = Ok (?fd\<lparr>fd_uuid_list := lst\<rparr>)"
      using assms(3) l f(2) by (intro find_test_files_warm) (auto simp del: set_map)
    then have "find_test_files mc ?disk2 index ?metas ?is ?fd = Ok (?fd\<lparr>fd_uuid_list := lst\<rparr>)"
      using i0 l [OF mem] f(1) unfolding first by (simp add: vec_index_def del: nth_map)
    with f(2) show ?thesis by (intro that [of "?fd\<lparr>fd_uuid_list := lst\<rparr>"]) simp_all
  qed
  have "check_cache (fd_uuid_list fd') ?is ?metas = Ok ()"
    using l find(2) by (intro check_cache_Ok) auto
  with c(1) s m p find(1) show ?thesis
    by (simp add: test_file_database_def file_database_new_def iterator_new_def clear_test_dir_def Let_def)
qed

section \<open>Properties\<close>

text \<open>The two bundle tests use one file, \<open>chains.bundle\<close>, and expect it to be new. The test that saves chain
  by chain passes, and removes the file, only if the file held no chains; otherwise its comparison fails and the
  file keeps the old and the new chains. The test that saves a vector passes if its frames cover the old
  content; otherwise the old frames it leaves behind make the comparison fail.\<close>

theorem bundle_tests_verdict:
  assumes "\<forall>i < 10. \<forall>j < 9. in_window (start i) 500 (snd (snd (draw i j)))"
    and "build_chains sha start draw [0..<10] [] = Ok cs"
    and "faker_data_chains_vector sha start' draw' len_rate gap_rate 10 100 1000000 = Ok ds"
    and "in_pieces pieces_of"
    and "\<forall>c \<in> set (olds @ left @ cs @ ds). codes cd enc c \<and> 4 + length (enc c) \<le> BUFFER_SIZE"
    and "length (frames enc ds) \<le> min limit BUFFER_SIZE"
    and "content_of disk DEFAULT_BUNDLE_FILE = frames enc olds"
    and "drop (length (frames enc ds)) (frames enc olds) = frames enc left"
  shows "test_bundle_save_and_load sha start draw cd pieces_of disk =
      (if olds = [] then (Ok (), disk(DEFAULT_BUNDLE_FILE := None))
       else (Panic, disk(DEFAULT_BUNDLE_FILE \<mapsto> frames enc (olds @ cs)))) \<and>
    test_save_chains_to_bundle sha start' draw' len_rate gap_rate cd (Some limit) pieces_of disk =
      (if left = [] then (Ok (), disk(DEFAULT_BUNDLE_FILE := None))
       else (Panic, disk(DEFAULT_BUNDLE_FILE \<mapsto> frames enc (ds @ left))))"
proof
  show "test_bundle_save_and_load sha start draw cd pieces_of disk =
      (if olds = [] then (Ok (), disk(DEFAULT_BUNDLE_FILE := None))
       else (Panic, disk(DEFAULT_BUNDLE_FILE \<mapsto> frames enc (olds @ cs))))"
    by (rule bundle_test_verdict [OF assms(1,2,4) _ assms(7)]) (use assms(5) in auto)
  have "\<forall>c \<in> set (ds @ left). codes cd enc c \<and> 4 + length (enc c) \<le> BUFFER_SIZE" using assms(5) by auto
  moreover have "drop (length (frames enc ds)) (content_of disk DEFAULT_BUNDLE_FILE) = frames enc left"
    using assms(7,8) by simp
  ultimately show "test_save_chains_to_bundle sha start' draw' len_rate gap_rate cd (Some limit) pieces_of disk =
      (if left = [] then (Ok (), disk(DEFAULT_BUNDLE_FILE := None))
       else (Panic, disk(DEFAULT_BUNDLE_FILE \<mapsto> frames enc (ds @ left))))"
    using assms(6) by (intro save_vector_test_verdict [OF assms(3,4)]) simp_all
qed

lemma sample_vectors:
  obtains cs ds where "build_chains sample_sha (\<lambda>_. 10) (\<lambda>_ _. (ZERO_HASH, ZERO_UUID, 12)) [0..<10] [] = Ok cs"
    and "faker_data_chains_vector sample_sha (\<lambda>_. 10) (\<lambda>_ _. (ZERO_HASH, ZERO_UUID, 12)) (\<lambda>_. 50) (\<lambda>_. 50) 10 100 1000000 = Ok ds"
    and "length cs = 10" and "length ds = 10"
proof -
  let ?draw = "\<lambda>_ _. (ZERO_HASH, ZERO_UUID, 12 :: u64)"
  have w: "in_window 10 500 12" "in_window 10 500000 12" by (simp_all add: in_window_def U64_MAX_def)
  from build_chains_Ok [of "[0..<10]" "\<lambda>_. 10" ?draw sample_sha "[]"] w(1) obtain cs where
    cs: "build_chains sample_sha (\<lambda>_. 10) ?draw [0..<10] [] = Ok cs" "length cs = 10" by auto
  have "\<forall>i \<in> set [0..<10]. vector_draws (\<lambda>_. 10) ?draw (\<lambda>_. 50) (\<lambda>_. 50) 100 1000000 i"
    using w(2) by (simp add: vector_draws_def)
  from vector_loop_Ok [OF _ _ this, of sample_sha "[]"] obtain ds where
    "faker_data_chains_vector sample_sha (\<lambda>_. 10) ?draw (\<lambda>_. 50) (\<lambda>_. 50) 10 100 1000000 = Ok ds" "length ds = 10"
    by (auto simp: faker_data_chains_vector_def U64_MAX_def)
  with cs show thesis by (intro that)
qed

theorem bundle_tests_verdict_instance:
  "\<exists>cd disk. fst (test_bundle_save_and_load sample_sha (\<lambda>_. 10) (\<lambda>_ _. (ZERO_HASH, ZERO_UUID, 12)) cd (map (\<lambda>b. [b])) Map.empty) = Ok () \<and>
    fst (test_bundle_save_and_load sample_sha (\<lambda>_. 10) (\<lambda>_ _. (ZERO_HASH, ZERO_UUID, 12)) cd (map (\<lambda>b. [b])) disk) = Panic \<and>
    fst (test_save_chains_to_bundle sample_sha (\<lambda>_. 10) (\<lambda>_ _. (ZERO_HASH, ZERO_UUID, 12)) (\<lambda>_. 50) (\<lambda>_. 50) cd (Some 1000)
      (map (\<lambda>b. [b])) disk) = Ok ()"
proof -
  let ?draw = "\<lambda>_ _. (ZERO_HASH, ZERO_UUID, 12 :: u64)" and ?start = "\<lambda>_. 10 :: u64"
  obtain cs ds where v: "build_chains sample_sha ?start ?draw [0..<10] [] = Ok cs"
    "faker_data_chains_vector sample_sha ?start ?draw (\<lambda>_. 50) (\<lambda>_. 50) 10 100 1000000 = Ok ds"
    "length cs = 10" "length ds = 10" by (rule sample_vectors)
  let ?cd = "table_codec (cs @ ds)" and ?enc = "table_enc (cs @ ds)"
  have codes: "codes ?cd ?enc c \<and> 4 + length (?enc c) \<le> BUFFER_SIZE" if "c \<in> set (cs @ ds)" for c
    using table_codec_codes [OF that] v(3,4) by (simp add: BUFFER_SIZE_def)
  have len: "length (frames ?enc xs) = 5 * length xs" for xs by (induction xs) simp_all
  have w: "\<forall>i < 10. \<forall>j < 9. in_window (?start i) 500 (snd (snd (?draw i j)))" by (simp add: in_window_def U64_MAX_def)
  have fits: "length (frames ?enc ds) \<le> min 1000 BUFFER_SIZE" using len [of ds] v(4) by (simp add: BUFFER_SIZE_def)
  note verdict = bundle_tests_verdict [OF w v(1,2) in_pieces_singletons _ fits]
  obtain c cs' where c: "cs = c # cs'" using v(3) by (cases cs) auto
  let ?disk = "[DEFAULT_BUNDLE_FILE \<mapsto> frames ?enc [c]]"
  have "\<forall>x \<in> set ([] @ [] @ cs @ ds). codes ?cd ?enc x \<and> 4 + length (?enc x) \<le> BUFFER_SIZE"
    "\<forall>x \<in> set ([c] @ [] @ cs @ ds). codes ?cd ?enc x \<and> 4 + length (?enc x) \<le> BUFFER_SIZE"
    using codes c by auto
  from verdict [OF this(1), of Map.empty] verdict [OF this(2), of ?disk] show ?thesis
    using len [of ds] len [of "[c]"] v(4)
    by (intro exI [of _ ?cd] exI [of _ ?disk]) (simp add: content_of_def)
qed

end
