(* ===== verification/FpscDefs.thy ===== *)
theory FpscDefs imports Prelude begin

text \<open>
  \<open>src/fpsc/ringbuf.rs\<close>, \<open>src/fpsc/producer_cosumer.rs\<close> and \<open>src/fpsc/mod.rs\<close>, the definitions: the
  shared buffer \<open>Inner\<close> with its state machine, the poll functions of the two ends, and the
  handles that share it.

  A poll function takes the waker of the polling task and returns its answer, the new buffer and
  the wakers it woke, in order. \<open>Vec::with_capacity\<close> may give more room than asked; the
  capacity it gives is the argument of \<open>inner_new\<close>. A poll runs to its end before another starts
  (the two ends run in one task, as under \<open>tokio::join!\<close>; the source has no lock; polls that
  overlap are in \<open>FpscThreads\<close>).
\<close>

section \<open>The shared buffer\<close>

datatype buf_state = Writable | Readable | WriteFinished | ReadFinished

record 'w inner =
  in_buf :: bytes
  in_capacity :: nat
  in_state :: buf_state
  in_counter :: nat
  in_w_waker :: "'w option"
  in_r_waker :: "'w option"

definition inner_new :: "nat \<Rightarrow> 'w inner" where
  "inner_new capacity =
     \<lparr>in_buf = [], in_capacity = capacity, in_state = Writable, in_counter = 1,
      in_w_waker = None, in_r_waker = None\<rparr>"

definition wake_writer :: "'w inner \<Rightarrow> 'w inner \<times> 'w list" where
  "wake_writer i =
     (case in_w_waker i of Some w \<Rightarrow> (i\<lparr>in_w_waker := None\<rparr>, [w]) | None \<Rightarrow> (i, []))"

definition wake_reader :: "'w inner \<Rightarrow> 'w inner \<times> 'w list" where
  "wake_reader i =
     (case in_r_waker i of Some w \<Rightarrow> (i\<lparr>in_r_waker := None\<rparr>, [w]) | None \<Rightarrow> (i, []))"

definition writer_waker_save :: "'w \<Rightarrow> 'w inner \<Rightarrow> 'w inner" where
  "writer_waker_save w i = i\<lparr>in_w_waker := Some w\<rparr>"

definition reader_waker_save :: "'w \<Rightarrow> 'w inner \<Rightarrow> 'w inner" where
  "reader_waker_save w i = i\<lparr>in_r_waker := Some w\<rparr>"

definition set_buf_state :: "buf_state \<Rightarrow> 'w inner \<Rightarrow> 'w inner" where
  "set_buf_state st i = i\<lparr>in_state := st\<rparr>"

text \<open>\<open>Ringbuf::reuse\<close>, which \<open>reuse_buf_from_consumer\<close> and \<open>produce_to_producer\<close> call.\<close>

definition reuse :: "'w inner \<Rightarrow> 'w inner" where
  "reuse i = set_buf_state Writable (i\<lparr>in_buf := []\<rparr>)"

text \<open>The getters of a handle.\<close>

definition get_mut_vec_buf :: "'w inner \<Rightarrow> bytes" where
  "get_mut_vec_buf i = in_buf i"

definition clone_buf_state :: "'w inner \<Rightarrow> buf_state" where
  "clone_buf_state i = in_state i"

definition ringbuf_capacity :: "'w inner \<Rightarrow> nat" where
  "ringbuf_capacity i = in_capacity i"

definition ringbuf_len :: "'w inner \<Rightarrow> nat" where
  "ringbuf_len i = length (in_buf i)"

section \<open>Writing and reading bytes\<close>

datatype 'a poll = Pending | Ready 'a

definition poll_write :: "'w inner \<Rightarrow> 'w \<Rightarrow> bytes \<Rightarrow> nat outcome poll \<times> 'w inner \<times> 'w list" where
  "poll_write i cx buf =
     (case in_state i of
        Writable \<Rightarrow>
          (let nwrite = min (in_capacity i) (length buf);
               i = i\<lparr>in_buf := take nwrite buf\<rparr>;
               i = (if nwrite = length buf then set_buf_state WriteFinished i
                    else set_buf_state Readable i)
           in (Ready (Ok nwrite), wake_reader i))
      | Readable \<Rightarrow> (Pending, writer_waker_save cx i, [])
      | WriteFinished \<Rightarrow> (Ready (Ok 0), wake_reader i)
      | ReadFinished \<Rightarrow> (Ready (Ok 0), wake_reader i))"

text \<open>A \<open>ReadBuf\<close>: what is filled and the whole capacity; \<open>put_slice\<close> panics without room.\<close>

record read_buf =
  rb_filled :: bytes
  rb_capacity :: nat

definition put_slice :: "read_buf \<Rightarrow> bytes \<Rightarrow> read_buf outcome" where
  "put_slice rb bs =
     (if length (rb_filled rb) + length bs \<le> rb_capacity rb
      then Ok (rb\<lparr>rb_filled := rb_filled rb @ bs\<rparr>) else Panic)"

definition poll_read ::
    "'w inner \<Rightarrow> 'w \<Rightarrow> read_buf \<Rightarrow> (unit outcome poll \<times> read_buf) \<times> 'w inner \<times> 'w list" where
  "poll_read i cx rb =
     (let save_state = in_state i in
      if save_state = Writable then ((Pending, rb), reader_waker_save cx i, [])
      else
        let total_len = length (in_buf i); nread = min total_len (rb_capacity rb) in
        if nread < total_len then ((Ready (Err H_IO), rb), i, [])
        else case put_slice rb (take nread (in_buf i)) of
               Ok rb' \<Rightarrow>
                 if save_state = WriteFinished then ((Ready (Ok ()), rb'), i\<lparr>in_buf := []\<rparr>, [])
                 else if save_state = ReadFinished then ((Ready (Ok ()), rb'), i\<lparr>in_buf := []\<rparr>, [])
                 else ((Ready (Ok ()), rb'), wake_writer (set_buf_state Writable i))
             | _ \<Rightarrow> ((Ready Panic, rb), i, []))"

text \<open>There is nothing to flush, and shutting the writer down does nothing: the reader is not told.\<close>

definition poll_flush :: "'w inner \<Rightarrow> 'w \<Rightarrow> unit outcome poll \<times> 'w inner" where
  "poll_flush i cx = (Ready (Ok ()), i)"

definition poll_shutdown :: "'w inner \<Rightarrow> 'w \<Rightarrow> unit outcome poll \<times> 'w inner" where
  "poll_shutdown i cx = (Ready (Ok ()), i)"

section \<open>The producer's future\<close>

text \<open>What the attached stream answers to the poll: not ready, the bytes it filled in, an error.\<close>

datatype stream_answer = StreamPending | StreamFilled bytes | StreamError

definition producer_poll ::
    "stream_answer option \<Rightarrow> 'w inner \<Rightarrow> 'w \<Rightarrow> nat outcome poll \<times> 'w inner \<times> 'w list" where
  "producer_poll stream i cx =
     (case in_state i of
        Writable \<Rightarrow>
          (case stream of
             Some answer \<Rightarrow>
               (case answer of
                  StreamPending \<Rightarrow> (Pending, writer_waker_save cx i, [])
                | StreamFilled bs \<Rightarrow>
                    if length bs < in_capacity i then
                      let i = set_buf_state WriteFinished (i\<lparr>in_buf := bs\<rparr>)
                      in (Ready (Ok (length (in_buf i))), wake_reader i)
                    else
                      let i = set_buf_state Readable (i\<lparr>in_buf := bs\<rparr>)
                      in (Ready (Ok (length (in_buf i))), wake_reader i)
                | StreamError \<Rightarrow> (Ready (Err (H_Message ''read stream error: {}'')), i, []))
           | None \<Rightarrow> (Ready (Err (H_Message ''no stream to read'')), i, []))
      | Readable \<Rightarrow> (Pending, writer_waker_save cx i, [])
      | WriteFinished \<Rightarrow> (Ready (Ok 0), i, [])
      | ReadFinished \<Rightarrow> (Ready (Ok 0), i, []))"

section \<open>The consumer's future\<close>

text \<open>The closure maps its captured state and the bytes it is lent to its verdict, the bytes as it
  leaves them and its new state.\<close>

type_synonym 's closure = "'s \<Rightarrow> bytes \<Rightarrow> bool \<times> bytes \<times> 's"

definition consumer_poll ::
    "'s closure option \<Rightarrow> 's \<Rightarrow> 'w inner \<Rightarrow> 'w \<Rightarrow> nat outcome poll \<times> 's \<times> 'w inner \<times> 'w list" where
  "consumer_poll task s i cx =
     (case in_state i of
        Readable \<Rightarrow>
          (case task of
             Some f \<Rightarrow>
               (case f s (in_buf i) of
                  (True, bs, s') \<Rightarrow>
                    let i = i\<lparr>in_buf := bs\<rparr>; nread = length (in_buf i)
                    in (Ready (Ok nread), s', wake_writer (set_buf_state Writable i))
                | (False, bs, s') \<Rightarrow>
                    (Ready (Err (H_Message ''error in consumer closure'')), s', i\<lparr>in_buf := bs\<rparr>, []))
           | None \<Rightarrow> (Ready (Ok 0), s, wake_writer (set_buf_state Writable i)))
      | WriteFinished \<Rightarrow>
          (case task of
             Some f \<Rightarrow>
               (case f s (in_buf i) of
                  (True, bs, s') \<Rightarrow>
                    (Ready (Ok (length bs)), s', set_buf_state ReadFinished (i\<lparr>in_buf := bs\<rparr>), [])
                | (False, bs, s') \<Rightarrow>
                    (Ready (Err (H_Message ''error in consumer closure'')), s',
                     set_buf_state ReadFinished (i\<lparr>in_buf := bs\<rparr>), []))
           | None \<Rightarrow> (Ready (Ok 0), s, set_buf_state ReadFinished i, []))
      | ReadFinished \<Rightarrow> (Ready (Ok 0), s, i, [])
      | Writable \<Rightarrow> (Pending, s, reader_waker_save cx i, []))"

section \<open>Handles\<close>

text \<open>The leaked box: \<open>None\<close> once it is freed; an access through a handle after that is undefined.\<close>

type_synonym 'w box = "'w inner option"

definition ringbuf_new :: "nat \<Rightarrow> 'w box" where
  "ringbuf_new capacity =
     (let i = inner_new capacity in Some (i\<lparr>in_counter := in_counter i + 1\<rparr>))"

definition bufptr_clone :: "'w box \<Rightarrow> 'w box outcome" where
  "bufptr_clone b =
     (case b of Some i \<Rightarrow> Ok (Some (i\<lparr>in_counter := in_counter i + 1\<rparr>)) | None \<Rightarrow> Undefined)"

definition ringbuf_drop :: "'w box \<Rightarrow> 'w box outcome" where
  "ringbuf_drop b =
     (case b of
        Some i \<Rightarrow>
          (let previous = in_counter i; i = i\<lparr>in_counter := in_counter i - 1\<rparr> in
           if previous = 1 then Ok None else Ok (Some i))
      | None \<Rightarrow> Undefined)"

text \<open>Reusing a buffer from either end.\<close>

definition reuse_buf_from_consumer :: "'w box \<Rightarrow> 'w box outcome" where
  "reuse_buf_from_consumer b = (case b of Some i \<Rightarrow> Ok (Some (reuse i)) | None \<Rightarrow> Undefined)"

definition produce_to_producer :: "'w box \<Rightarrow> 'w box outcome" where
  "produce_to_producer b = (case b of Some i \<Rightarrow> Ok (Some (reuse i)) | None \<Rightarrow> Undefined)"

section \<open>The loops of the two tasks\<close>

datatype task_id = Producer | Consumer

text \<open>One turn of \<open>produce_all\<close>, that is of \<open>write_all\<close>: write what remains until nothing does; a
  write of nothing is an error.\<close>

definition write_all_turn ::
    "bytes \<Rightarrow> task_id inner \<Rightarrow> unit outcome poll option \<times> bytes \<times> task_id inner \<times> task_id list" where
  "write_all_turn rest i =
     (if rest = [] then (Some (Ready (Ok ())), rest, i, [])
      else case poll_write i Producer rest of
        (Pending, i', ws) \<Rightarrow> (Some Pending, rest, i', ws)
      | (Ready (Ok n), i', ws) \<Rightarrow>
          (if n = 0 then (Some (Ready (Err H_IO)), rest, i', ws) else (None, drop n rest, i', ws))
      | (Ready (Err e), i', ws) \<Rightarrow> (Some (Ready (Err e)), rest, i', ws)
      | (Ready _, i', ws) \<Rightarrow> (Some (Ready Panic), rest, i', ws))"

text \<open>One turn of the loop of \<open>consume_all\<close>.\<close>

definition consume_all_turn ::
    "'s closure option \<Rightarrow> nat \<Rightarrow> 's \<Rightarrow> task_id inner \<Rightarrow>
     nat outcome poll option \<times> nat \<times> 's \<times> task_id inner \<times> task_id list" where
  "consume_all_turn task tot s i =
     (case consumer_poll task s i Consumer of
        (Pending, s', i', ws) \<Rightarrow> (Some Pending, tot, s', i', ws)
      | (Ready (Ok n), s', i', ws) \<Rightarrow>
          (let tot = tot + n in
           if in_state i' = ReadFinished then (Some (Ready (Ok tot)), tot, s', i', ws)
           else (None, tot, s', i', ws))
      | (Ready r, s', i', ws) \<Rightarrow> (Some (Ready r), tot, s', i', ws))"

text \<open>One turn of \<open>produce_from_stream\<close>.\<close>

definition produce_from_stream_turn ::
    "stream_answer \<Rightarrow> nat \<Rightarrow> task_id inner \<Rightarrow>
     nat outcome poll option \<times> nat \<times> task_id inner \<times> task_id list" where
  "produce_from_stream_turn answer tot i =
     (case producer_poll (Some answer) i Producer of
        (Pending, i', ws) \<Rightarrow> (Some Pending, tot, i', ws)
      | (Ready (Ok n), i', ws) \<Rightarrow>
          (let tot = tot + n in
           if n = 0 then (Some (Ready (Ok tot)), tot, i', ws) else (None, tot, i', ws))
      | (Ready r, i', ws) \<Rightarrow> (Some (Ready r), tot, i', ws))"

section \<open>Building the pair\<close>

record 'st producer_buf =
  pr_stream :: "'st option"

record 's consumer_buf =
  co_task :: "'s closure option"

definition producer_new :: "'st producer_buf" where
  "producer_new = \<lparr>pr_stream = None\<rparr>"

definition producer_stream :: "'st \<Rightarrow> 'st producer_buf \<Rightarrow> 'st producer_buf" where
  "producer_stream stream p = p\<lparr>pr_stream := Some stream\<rparr>"

definition consumer_new :: "'s consumer_buf" where
  "consumer_new = \<lparr>co_task = None\<rparr>"

definition consumer_task :: "'s closure \<Rightarrow> 's consumer_buf \<Rightarrow> 's consumer_buf" where
  "consumer_task f c = c\<lparr>co_task := Some f\<rparr>"

text \<open>The getters of the two ends.\<close>

definition producer_capacity :: "'w inner \<Rightarrow> nat" where "producer_capacity i = ringbuf_capacity i"

definition consumer_capacity :: "'w inner \<Rightarrow> nat" where "consumer_capacity i = ringbuf_capacity i"

definition with_closure :: "nat \<Rightarrow> 's closure \<Rightarrow> 'w box \<times> 'st producer_buf \<times> 's consumer_buf" where
  "with_closure capacity f = (ringbuf_new capacity, producer_new, \<lparr>co_task = Some f\<rparr>)"

definition fpsc_new :: "nat \<Rightarrow> 'w box \<times> 'st producer_buf \<times> 's consumer_buf" where
  "fpsc_new capacity = (ringbuf_new capacity, producer_new, consumer_new)"

text \<open>A poll of \<open>produce\<close> and of \<open>consume\<close>: one write, one turn of the consumer's future.\<close>

definition produce_poll :: "bytes \<Rightarrow> 'w inner \<Rightarrow> 'w \<Rightarrow> nat outcome poll \<times> 'w inner \<times> 'w list" where
  "produce_poll data i cx = poll_write i cx data"

definition consume_poll ::
    "'s consumer_buf \<Rightarrow> 's \<Rightarrow> 'w inner \<Rightarrow> 'w \<Rightarrow> nat outcome poll \<times> 's \<times> 'w inner \<times> 'w list" where
  "consume_poll c s i cx = consumer_poll (co_task c) s i cx"

end
