(* ===== verification/Fpsc.thy ===== *)
theory Fpsc imports FpscDefs begin

text \<open>
  What the single-producer single-consumer buffer promises. One task runs \<open>produce_all\<close>, the other
  \<open>consume_all\<close>; a task is polled while it is scheduled, a poll that answers \<open>Pending\<close> takes it
  off the schedule, and only a wake-up puts it back. The step relation \<open>fp_step\<close> interleaves
  their turns in every order. The closure of the consumer is the \<open>recorder\<close>, which appends what it
  is lent to its state.
\<close>

section \<open>The two tasks\<close>

record 's fpsc =
  fp_inner :: "task_id inner"
  fp_rest :: bytes
  fp_prod :: "unit outcome option"     \<comment> \<open>the result of \<open>produce_all\<close>, once it has returned\<close>
  fp_prod_ready :: bool
  fp_env :: 's
  fp_tot :: nat
  fp_cons :: "nat outcome option"      \<comment> \<open>the result of \<open>consume_all\<close>, once it has returned\<close>
  fp_cons_ready :: bool

definition fp_init :: "nat \<Rightarrow> bytes \<Rightarrow> 's \<Rightarrow> 's fpsc" where
  "fp_init capacity data env =
     \<lparr>fp_inner = inner_new capacity, fp_rest = data, fp_prod = None, fp_prod_ready = True,
      fp_env = env, fp_tot = 0, fp_cons = None, fp_cons_ready = True\<rparr>"

definition fp_wake :: "task_id list \<Rightarrow> 's fpsc \<Rightarrow> 's fpsc" where
  "fp_wake ws s = s\<lparr>fp_prod_ready := (fp_prod_ready s \<or> Producer \<in> set ws),
                   fp_cons_ready := (fp_cons_ready s \<or> Consumer \<in> set ws)\<rparr>"

fun returned :: "'a outcome poll option \<Rightarrow> 'a outcome option" where
  "returned (Some (Ready r)) = Some r"
| "returned _ = None"

definition fp_produce :: "'s fpsc \<Rightarrow> 's fpsc" where
  "fp_produce s =
     (case write_all_turn (fp_rest s) (fp_inner s) of (ans, rest, i, ws) \<Rightarrow>
        fp_wake ws (s\<lparr>fp_inner := i, fp_rest := rest, fp_prod := returned ans,
                     fp_prod_ready := (ans \<noteq> Some Pending)\<rparr>))"

definition fp_consume :: "'s closure option \<Rightarrow> 's fpsc \<Rightarrow> 's fpsc" where
  "fp_consume task s =
     (case consume_all_turn task (fp_tot s) (fp_env s) (fp_inner s) of (ans, tot, env, i, ws) \<Rightarrow>
        fp_wake ws (s\<lparr>fp_inner := i, fp_tot := tot, fp_env := env, fp_cons := returned ans,
                     fp_cons_ready := (ans \<noteq> Some Pending)\<rparr>))"

inductive fp_step :: "'s closure option \<Rightarrow> 's fpsc \<Rightarrow> 's fpsc \<Rightarrow> bool" for task where
  produce: "fp_prod s = None \<Longrightarrow> fp_prod_ready s \<Longrightarrow> fp_step task s (fp_produce s)"
| consume: "fp_cons s = None \<Longrightarrow> fp_cons_ready s \<Longrightarrow> fp_step task s (fp_consume task s)"

inductive_cases fp_stepE [elim]: "fp_step task s s'"

inductive fp_run :: "'s closure option \<Rightarrow> 's fpsc \<Rightarrow> nat \<Rightarrow> 's fpsc \<Rightarrow> bool" for task s0 where
  start: "fp_run task s0 0 s0"
| more: "fp_run task s0 n s \<Longrightarrow> fp_step task s s' \<Longrightarrow> fp_run task s0 (Suc n) s'"

definition stuck :: "'s closure option \<Rightarrow> 's fpsc \<Rightarrow> bool" where
  "stuck task s \<longleftrightarrow> \<not> (fp_prod s = None \<and> fp_prod_ready s) \<and> \<not> (fp_cons s = None \<and> fp_cons_ready s)"

lemma stuck_iff: "stuck task s \<longleftrightarrow> (\<nexists>s'. fp_step task s s')"
  unfolding stuck_def by (blast intro: produce consume)

definition recorder :: "bytes closure" where
  "recorder got bs = (True, bs, got @ bs)"

section \<open>The invariant\<close>

text \<open>The bytes that sit in the buffer for the consumer.\<close>

definition in_flight :: "'w inner \<Rightarrow> bytes" where
  "in_flight i = (if in_state i \<in> {Readable, WriteFinished} then in_buf i else [])"

definition fp_inv :: "nat \<Rightarrow> bytes \<Rightarrow> bytes fpsc \<Rightarrow> bool" where
  "fp_inv capacity data s \<longleftrightarrow>
     fp_env s @ in_flight (fp_inner s) @ fp_rest s = data \<and> fp_tot s = length (fp_env s) \<and>
     in_capacity (fp_inner s) = capacity \<and>
     in_w_waker (fp_inner s) \<in> {None, Some Producer} \<and> in_r_waker (fp_inner s) \<in> {None, Some Consumer} \<and>
     (case in_state (fp_inner s) of
        Writable \<Rightarrow> fp_rest s \<noteq> [] \<and> fp_prod s = None \<and> fp_cons s = None \<and> fp_prod_ready s \<and>
          (fp_cons_ready s \<or> in_r_waker (fp_inner s) = Some Consumer)
      | Readable \<Rightarrow> fp_rest s \<noteq> [] \<and> in_buf (fp_inner s) \<noteq> [] \<and> fp_prod s = None \<and> fp_cons s = None \<and>
          fp_cons_ready s \<and> (fp_prod_ready s \<or> in_w_waker (fp_inner s) = Some Producer)
      | WriteFinished \<Rightarrow> fp_rest s = [] \<and> in_buf (fp_inner s) \<noteq> [] \<and> fp_cons s = None \<and> fp_cons_ready s \<and>
          (fp_prod s = None \<and> fp_prod_ready s \<or> fp_prod s = Some (Ok ()))
      | ReadFinished \<Rightarrow> fp_rest s = [] \<and> fp_cons s = Some (Ok (length data)) \<and>
          (fp_prod s = None \<and> fp_prod_ready s \<or> fp_prod s = Some (Ok ())))"

definition fp_measure :: "'s fpsc \<Rightarrow> nat" where
  "fp_measure s =
     8 * length (fp_rest s) + (if in_state (fp_inner s) \<in> {Readable, WriteFinished} then 4 else 0) +
     (if fp_prod s = None then 2 else 0) + (if fp_cons s = None then 2 else 0) +
     (if fp_prod_ready s then 1 else 0) + (if fp_cons_ready s then 1 else 0)"

lemmas waker_defs = wake_writer_def wake_reader_def writer_waker_save_def reader_waker_save_def
  set_buf_state_def fp_wake_def
lemmas turn_defs = fp_produce_def write_all_turn_def poll_write_def fp_consume_def
  consume_all_turn_def consumer_poll_def recorder_def

lemma fp_inv_init: "data \<noteq> [] \<Longrightarrow> fp_inv capacity data (fp_init capacity data [])"
  by (simp add: fp_inv_def fp_init_def inner_new_def in_flight_def)

lemma produce_step:
  assumes "fp_inv capacity data s" and "0 < capacity" and "fp_prod s = None" and "fp_prod_ready s"
  shows "fp_inv capacity data (fp_produce s) \<and> fp_measure (fp_produce s) < fp_measure s"
proof (cases "in_state (fp_inner s)")
  case Writable
  let ?n = "min capacity (length (fp_rest s))"
  have rest: "fp_rest s \<noteq> []" and n: "0 < ?n"
    using assms(1,2) Writable by (auto simp: fp_inv_def)
  then have less: "length (drop ?n (fp_rest s)) < length (fp_rest s)" by auto
  have i: "in_capacity (fp_inner s) = capacity" "fp_env s @ fp_rest s = data" "fp_tot s = length (fp_env s)"
    "fp_cons s = None" "fp_cons_ready s \<or> in_r_waker (fp_inner s) = Some Consumer"
    "in_w_waker (fp_inner s) \<in> {None, Some Producer}" "in_r_waker (fp_inner s) \<in> {None, Some Consumer}"
    using assms(1) Writable by (auto simp: fp_inv_def in_flight_def)
  let ?w = "wake_reader (set_buf_state (if ?n = length (fp_rest s) then WriteFinished else Readable)
              ((fp_inner s)\<lparr>in_buf := take ?n (fp_rest s)\<rparr>))"
  have "write_all_turn (fp_rest s) (fp_inner s) = (None, drop ?n (fp_rest s), fst ?w, snd ?w)"
    using rest n Writable i(1)
    by (cases "?n = length (fp_rest s)") (auto simp: write_all_turn_def poll_write_def Let_def split: prod.split)
  then have p: "fp_produce s = fp_wake (snd ?w) (s\<lparr>fp_inner := fst ?w, fp_rest := drop ?n (fp_rest s),
      fp_prod := None, fp_prod_ready := True\<rparr>)"
    by (simp add: fp_produce_def case_prod_unfold)
  have w: "Consumer \<in> set (snd ?w) \<or> fp_cons_ready s" "in_r_waker (fst ?w) = None"
    "in_buf (fst ?w) = take ?n (fp_rest s)" "in_w_waker (fst ?w) = in_w_waker (fp_inner s)"
    "in_capacity (fst ?w) = capacity"
    "in_state (fst ?w) = (if ?n = length (fp_rest s) then WriteFinished else Readable)"
    using i(1,5) by (auto simp: wake_reader_def set_buf_state_def split: option.split)
  have "take ?n (fp_rest s) \<noteq> []" using rest n by auto
  moreover have "drop ?n (fp_rest s) = [] \<longleftrightarrow> ?n = length (fp_rest s)" by auto
  moreover have "fp_env s @ take ?n (fp_rest s) @ drop ?n (fp_rest s) = data" using i(2) by simp
  moreover have "fp_inv capacity data (fp_produce s)"
    unfolding fp_inv_def p using w i calculation
    by (auto simp: fp_wake_def in_flight_def)
  moreover have "fp_measure (fp_produce s) < fp_measure s"
    unfolding fp_measure_def p using w(6) i Writable assms(3,4) less by (auto simp: fp_wake_def)
  ultimately show ?thesis by blast
next
  case Readable
  then show ?thesis using assms
    by (auto simp: fp_inv_def turn_defs waker_defs in_flight_def fp_measure_def)
next
  case WriteFinished
  then show ?thesis using assms
    by (auto simp: fp_inv_def turn_defs waker_defs in_flight_def fp_measure_def)
next
  case ReadFinished
  then show ?thesis using assms
    by (auto simp: fp_inv_def turn_defs waker_defs in_flight_def fp_measure_def)
qed

lemma consume_step:
  assumes "fp_inv capacity data s" and "fp_cons s = None" and "fp_cons_ready s"
  shows "fp_inv capacity data (fp_consume (Some recorder) s) \<and>
         fp_measure (fp_consume (Some recorder) s) < fp_measure s"
  using assms
  by (cases "in_state (fp_inner s)")
    (auto simp: fp_inv_def turn_defs waker_defs in_flight_def fp_measure_def Let_def split: option.split)

lemma run_inv:
  assumes "fp_run (Some recorder) (fp_init capacity data []) n s" and "0 < capacity" and "data \<noteq> []"
  shows "fp_inv capacity data s \<and> n + fp_measure s \<le> 8 * length data + 6"
  using assms(1)
proof (induction rule: fp_run.induct)
  case start
  then show ?case
    using fp_inv_init [OF assms(3)] by (simp add: fp_measure_def fp_init_def inner_new_def)
next
  case (more n s s')
  from more.hyps(2) have "fp_inv capacity data s' \<and> fp_measure s' < fp_measure s"
    using more.IH assms(2) by (cases rule: fp_step.cases) (auto dest: produce_step consume_step)
  with more.IH show ?case by simp
qed

lemma inv_stuck:
  assumes "fp_inv capacity data s" and "stuck task s"
  shows "fp_prod s = Some (Ok ())" and "fp_cons s = Some (Ok (length data))" and "fp_env s = data"
  using assms by (auto simp: fp_inv_def stuck_def in_flight_def split: buf_state.splits)

section \<open>Handles\<close>

text \<open>A shared box with a reference count, as its clients see it.\<close>

locale refcounted =
  fixes refs :: "'b \<Rightarrow> nat option" and clone :: "'b \<Rightarrow> 'b outcome" and drop_ref :: "'b \<Rightarrow> 'b outcome"
  assumes clone_live: "refs b = Some n \<Longrightarrow> \<exists>b'. clone b = Ok b' \<and> refs b' = Some (Suc n)"
    and drop_live: "refs b = Some (Suc n) \<Longrightarrow>
      \<exists>b'. drop_ref b = Ok b' \<and> refs b' = (if n = 0 then None else Some n)"

datatype handle_op = CloneHandle | DropHandle

text \<open>A program owns \<open>n\<close> handles; it can clone or drop a handle only while it owns one.\<close>

fun owned :: "nat \<Rightarrow> handle_op list \<Rightarrow> nat option" where
  "owned n [] = Some n"
| "owned 0 (_ # ops) = None"
| "owned (Suc n) (CloneHandle # ops) = owned (Suc (Suc n)) ops"
| "owned (Suc n) (DropHandle # ops) = owned n ops"

fun run_handles :: "('b \<Rightarrow> 'b outcome) \<Rightarrow> ('b \<Rightarrow> 'b outcome) \<Rightarrow> handle_op list \<Rightarrow> 'b \<Rightarrow> 'b outcome" where
  "run_handles clone drop_ref [] b = Ok b"
| "run_handles clone drop_ref (CloneHandle # ops) b = and_then (clone b) (run_handles clone drop_ref ops)"
| "run_handles clone drop_ref (DropHandle # ops) b = and_then (drop_ref b) (run_handles clone drop_ref ops)"

context refcounted begin

lemma run_handles_live:
  assumes "refs b = (if n = 0 then None else Some n)" and "owned n ops = Some m"
  shows "\<exists>b'. run_handles clone drop_ref ops b = Ok b' \<and> refs b' = (if m = 0 then None else Some m)"
  using assms
proof (induction n ops arbitrary: b rule: owned.induct)
  case (3 n ops)
  then obtain b' where b': "clone b = Ok b'" "refs b' = Some (Suc (Suc n))"
    using clone_live [of b "Suc n"] by auto
  then show ?case using 3 by auto
next
  case (4 n ops)
  then obtain b' where b': "drop_ref b = Ok b'" "refs b' = (if n = 0 then None else Some n)"
    using drop_live [of b n] by auto
  then show ?case using 4 by auto
qed auto

end

interpretation ringbuf_handles: refcounted "map_option in_counter" bufptr_clone ringbuf_drop
  by unfold_locales (auto simp: bufptr_clone_def ringbuf_drop_def Let_def)

section \<open>The order of the states\<close>

instantiation buf_state :: linorder begin

definition less_eq_buf_state :: "buf_state \<Rightarrow> buf_state \<Rightarrow> bool" where
  "less_eq_buf_state a b \<longleftrightarrow> (case a of Writable \<Rightarrow> True | Readable \<Rightarrow> b \<noteq> Writable
     | WriteFinished \<Rightarrow> b = WriteFinished \<or> b = ReadFinished | ReadFinished \<Rightarrow> b = ReadFinished)"

definition less_buf_state :: "buf_state \<Rightarrow> buf_state \<Rightarrow> bool" where
  "less_buf_state a b \<longleftrightarrow> a \<le> b \<and> \<not> b \<le> (a :: buf_state)"

instance
  by standard (auto simp: less_eq_buf_state_def less_buf_state_def split: buf_state.splits)

end

lemma finished_iff: "WriteFinished \<le> st \<longleftrightarrow> st = WriteFinished \<or> st = ReadFinished"
  by (simp add: less_eq_buf_state_def)

lemma wake_state [simp]:
  "in_state (fst (wake_reader i)) = in_state i" "in_state (fst (wake_writer i)) = in_state i"
  "in_buf (fst (wake_reader i)) = in_buf i" "in_buf (fst (wake_writer i)) = in_buf i"
  by (simp_all add: wake_reader_def wake_writer_def split: option.split)

section \<open>Properties\<close>

text \<open>In every run of \<open>produce_all\<close> against \<open>consume_all\<close>, whatever the interleaving, what the consumer
  has taken, followed by what lies in the buffer, followed by what is left to write, is the data
  of the producer: nothing is lost, doubled or reordered.\<close>

theorem fpsc_in_order:
  assumes "fp_run (Some recorder) (fp_init capacity data []) n s" and "0 < capacity" and "data \<noteq> []"
  shows "fp_env s @ in_flight (fp_inner s) @ fp_rest s = data \<and> fp_tot s = length (fp_env s)"
  using run_inv [OF assms] by (simp add: fp_inv_def)

definition sample_fpsc :: "bytes fpsc" where
  "sample_fpsc = fp_produce (fp_init 2 [1, 2, 3] [])"

theorem fpsc_in_order_instance:
  "fp_env sample_fpsc @ in_flight (fp_inner sample_fpsc) @ fp_rest sample_fpsc = [1, 2, 3]"
proof -
  have "fp_run (Some recorder) (fp_init 2 [1, 2, 3] []) (Suc 0) sample_fpsc"
    unfolding sample_fpsc_def
    by (rule fp_run.more [OF fp_run.start fp_step.produce]) (simp_all add: fp_init_def)
  from fpsc_in_order [OF this zero_less_numeral list.simps(3)] show ?thesis by blast
qed

text \<open>C6: As long as polls do not overlap no wake-up is lost: every run of \<open>produce_all\<close> on non-empty data against \<open>consume_all\<close>,
  over a buffer of any capacity but zero, ends after at
  most \<open>8 * length data + 6\<close> turns, and it can only stop with both calls returned successfully, all
  the data consumed and its length reported.\<close>

theorem fpsc_delivers:
  assumes "fp_run (Some recorder) (fp_init capacity data []) n s" and "0 < capacity" and "data \<noteq> []"
  shows "n \<le> 8 * length data + 6 \<and>
    ((\<nexists>s'. fp_step (Some recorder) s s') \<longrightarrow>
       fp_prod s = Some (Ok ()) \<and> fp_cons s = Some (Ok (length data)) \<and> fp_env s = data)"
proof -
  from run_inv [OF assms] have "fp_inv capacity data s" "n \<le> 8 * length data + 6" by auto
  with inv_stuck [OF this(1), of "Some recorder"] show ?thesis by (auto simp: stuck_iff)
qed

lemma sample_run:
  "let s1 = fp_produce (fp_init 2 [7] []); s2 = fp_produce s1; s3 = fp_consume (Some recorder) s2 in
   fp_run (Some recorder) (fp_init 2 [7] []) 3 s3 \<and> stuck (Some recorder) s3"
proof -
  let ?s0 = "fp_init 2 [7] [] :: bytes fpsc"
  have s: "fp_prod ?s0 = None \<and> fp_prod_ready ?s0"
    "fp_prod (fp_produce ?s0) = None \<and> fp_prod_ready (fp_produce ?s0)"
    "fp_cons (fp_produce (fp_produce ?s0)) = None \<and> fp_cons_ready (fp_produce (fp_produce ?s0))"
    "stuck (Some recorder) (fp_consume (Some recorder) (fp_produce (fp_produce ?s0)))"
    by code_simp+
  then have "fp_run (Some recorder) ?s0 (Suc (Suc (Suc 0)))
      (fp_consume (Some recorder) (fp_produce (fp_produce ?s0)))"
    by (intro fp_run.more [OF fp_run.more [OF fp_run.more [OF fp_run.start fp_step.produce] fp_step.produce]
          fp_step.consume]) auto
  with s show ?thesis by (simp add: Let_def numeral_3_eq_3)
qed

theorem fpsc_delivers_witness:
  "fp_cons (fp_consume (Some recorder) (fp_produce (fp_produce (fp_init 2 [7] [])))) = Some (Ok 1)"
  using sample_run fpsc_delivers [of 2 "[7]" 3 "fp_consume (Some recorder) (fp_produce (fp_produce (fp_init 2 [7] [])))"]
  by (simp add: Let_def stuck_iff)

lemma empty_run:
  assumes "fp_run task (fp_init capacity [] env) n s"
  shows "in_state (fp_inner s) = Writable \<and> fp_rest s = [] \<and> fp_cons s = None \<and>
    n + (if fp_prod s = None then 1 else 0) + (if fp_cons_ready s then 1 else 0) = 2 \<and>
    (fp_prod s = None \<longrightarrow> fp_prod_ready s) \<and> in_w_waker (fp_inner s) = None"
  using assms
proof (induction rule: fp_run.induct)
  case start
  then show ?case by (simp add: fp_init_def inner_new_def)
next
  case (more n s s')
  from more.hyps(2) more.IH show ?case
    by (cases rule: fp_step.cases)
      (auto simp: fp_produce_def write_all_turn_def fp_consume_def consume_all_turn_def
        consumer_poll_def waker_defs split: if_splits)
qed

text \<open>With nothing to produce the pair hangs: \<open>produce_all\<close> of the empty slice returns without touching the
  buffer, and in every run \<open>consume_all\<close> has not returned after the two turns that are possible.\<close>

theorem fpsc_empty_hangs:
  assumes "fp_run task (fp_init capacity [] env) n s"
  shows "fp_cons s = None \<and> n \<le> 2 \<and> (n = 2 \<longrightarrow> (\<nexists>s'. fp_step task s s'))"
  using empty_run [OF assms] by (auto simp: stuck_def simp flip: stuck_iff split: if_splits)

theorem fpsc_empty_hangs_instance:
  "fp_cons (fp_produce (fp_init 2 [] ())) = None"
proof -
  have "fp_run (None :: unit closure option) (fp_init 2 [] ()) (Suc 0) (fp_produce (fp_init 2 [] ()))"
    by (rule fp_run.more [OF fp_run.start fp_step.produce]) (simp_all add: fp_init_def)
  from fpsc_empty_hangs [OF this] show ?thesis by blast
qed

text \<open>A short read of the attached stream is taken for its end: if the stream fills less than the buffer's
  capacity the state becomes \<open>WriteFinished\<close>, and from then on no poll of either end leaves the
  finished states and \<open>produce_from_stream\<close> returns the bytes moved so far, whatever the stream
  still holds; a write then reports zero bytes and leaves the buffer as it is.\<close>

theorem stream_short_read_ends:
  assumes "in_state i = Writable" and "length bs < in_capacity i"
    and "WriteFinished \<le> in_state j"
  shows "fst (producer_poll (Some (StreamFilled bs)) i cx) = Ready (Ok (length bs)) \<and>
    in_state (fst (snd (producer_poll (Some (StreamFilled bs)) i cx))) = WriteFinished \<and>
    fst (produce_from_stream_turn answer tot j) = Some (Ready (Ok tot)) \<and>
    fst (poll_write j w buf) = Ready (Ok 0) \<and> in_buf (fst (snd (poll_write j w buf))) = in_buf j \<and>
    in_state j \<le> in_state (fst (snd (poll_write j w buf))) \<and>
    in_state j \<le> in_state (fst (snd (producer_poll stream j w))) \<and>
    in_state j \<le> in_state (fst (snd (poll_read j w' rb))) \<and>
    in_state j \<le> in_state (fst (snd (snd (consumer_poll task s j w'))))"
proof -
  have j: "in_state j = WriteFinished \<or> in_state j = ReadFinished"
    using assms(3) by (simp add: finished_iff)
  have "in_state j \<le> ReadFinished" by (cases "in_state j") (simp_all add: less_eq_buf_state_def)
  with j show ?thesis
    using assms(1,2)
    by (auto simp: producer_poll_def produce_from_stream_turn_def poll_write_def poll_read_def
        consumer_poll_def set_buf_state_def Let_def case_prod_unfold
        split: outcome.split option.split bool.split)
qed

theorem stream_short_read_ends_instance:
  "in_state (fst (snd (producer_poll (Some (StreamFilled [1, 2])) (inner_new 4 :: nat inner) 0))) = WriteFinished"
proof -
  have "in_state (inner_new 4 :: nat inner) = Writable" "length [1, 2 :: u8] < in_capacity (inner_new 4 :: nat inner)"
    "WriteFinished \<le> in_state (set_buf_state WriteFinished (inner_new 4 :: task_id inner))"
    by (simp_all add: inner_new_def set_buf_state_def)
  then show ?thesis by (rule conjunct1 [OF conjunct2 [OF stream_short_read_ends]])
qed

text \<open>A read of a buffer that is not writable hands over everything that lies in it or nothing: it fails
  if that exceeds the capacity of the reader's buffer, panics if it fits the capacity but not the
  room that is left, and otherwise appends it; a plain read then reopens the buffer for writing,
  and a read after the last write empties it.\<close>

theorem poll_read_verdict:
  assumes "in_state i \<noteq> Writable" and "length (rb_filled rb) \<le> rb_capacity rb"
  shows "fst (fst (poll_read i cx rb)) = Ready
      (if rb_capacity rb < length (in_buf i) then Err H_IO
       else if rb_capacity rb < length (rb_filled rb) + length (in_buf i) then Panic else Ok ()) \<and>
    (fst (fst (poll_read i cx rb)) = Ready (Ok ()) \<longrightarrow>
       rb_filled (snd (fst (poll_read i cx rb))) = rb_filled rb @ in_buf i \<and>
       (in_state i = Readable \<longrightarrow> in_state (fst (snd (poll_read i cx rb))) = Writable) \<and>
       (in_state i \<noteq> Readable \<longrightarrow> in_buf (fst (snd (poll_read i cx rb))) = []))"
  using assms
  by (cases "in_state i") (auto simp: poll_read_def put_slice_def set_buf_state_def Let_def min_def)

theorem poll_read_verdict_instance:
  "fst (fst (poll_read (set_buf_state Readable ((inner_new 4 :: nat inner)\<lparr>in_buf := [1, 2, 3]\<rparr>)) 0
     \<lparr>rb_filled = [9, 9], rb_capacity = 4\<rparr>)) = Ready Panic"
  using poll_read_verdict [of "set_buf_state Readable ((inner_new 4 :: nat inner)\<lparr>in_buf := [1, 2, 3]\<rparr>)"
    "\<lparr>rb_filled = [9, 9], rb_capacity = 4\<rparr>" 0]
  by (simp add: set_buf_state_def)

text \<open>C37: However the handles of a ring buffer are cloned and dropped, the shared box is never touched after
  it is freed, and it is freed exactly when the last handle is gone.\<close>

theorem ringbuf_freed_once:
  assumes "owned 2 ops = Some m"
  shows "\<exists>b. run_handles bufptr_clone ringbuf_drop ops (ringbuf_new capacity) = Ok b \<and>
    map_option in_counter b = (if m = 0 then None else Some m)"
  using ringbuf_handles.run_handles_live [of "ringbuf_new capacity" 2 ops m] assms
  by (simp add: ringbuf_new_def inner_new_def Let_def numeral_2_eq_2)

theorem ringbuf_freed_once_witness:
  "run_handles bufptr_clone ringbuf_drop [DropHandle, CloneHandle, DropHandle, DropHandle]
     (ringbuf_new 8 :: nat box) = Ok None"
  using ringbuf_freed_once [of "[DropHandle, CloneHandle, DropHandle, DropHandle]" 0 8]
  by (auto simp: numeral_2_eq_2)

end
