(* ===== verification/FpscTests.thy ===== *)
theory FpscTests imports TestBase Fpsc begin

text \<open>
  The tests of \<open>src/fpsc\<close>: two futures joined in one task. \<open>tokio::join!\<close> polls a future when it
  was woken; the order of the turns is the argument \<open>sched\<close> of a test, \<open>capacity\<close> is what
  \<open>Vec::with_capacity(10)\<close> gave. The closures of the tests print what they are lent: \<open>recorder\<close>.
\<close>

section \<open>The other tasks of the tests\<close>

text \<open>\<open>produce_from_stream\<close> on a \<open>Cursor\<close>, which fills as much of the buffer as it has bytes for; the cursor
  moves only when it is polled. The total the call returns is left out.\<close>

definition fp_stream :: "'s fpsc \<Rightarrow> 's fpsc" where
  "fp_stream s =
     (let room = in_capacity (fp_inner s) in
      case produce_from_stream_turn (StreamFilled (take room (fp_rest s))) 0 (fp_inner s) of (ans, tot, i, ws) \<Rightarrow>
        fp_wake ws (s\<lparr>fp_inner := i,
          fp_rest := (if in_state (fp_inner s) = Writable then drop room (fp_rest s) else fp_rest s),
          fp_prod := map_option (\<lambda>r. and_then r (\<lambda>_. Ok ())) (returned ans), fp_prod_ready := (ans \<noteq> Some Pending)\<rparr>))"

text \<open>\<open>while n < data.len() { n += writer.write(&data[n..]) }\<close>.\<close>

definition write_loop_turn ::
    "bytes \<Rightarrow> task_id inner \<Rightarrow> unit outcome poll option \<times> bytes \<times> task_id inner \<times> task_id list" where
  "write_loop_turn rest i =
     (if rest = [] then (Some (Ready (Ok ())), rest, i, [])
      else case poll_write i Producer rest of
        (Pending, i', ws) \<Rightarrow> (Some Pending, rest, i', ws)
      | (Ready r, i', ws) \<Rightarrow>
          (case unwrap_ok r of Ok n \<Rightarrow> (None, drop n rest, i', ws) | _ \<Rightarrow> (Some (Ready Panic), rest, i', ws)))"

definition fp_write_loop :: "'s fpsc \<Rightarrow> 's fpsc" where
  "fp_write_loop s =
     (case write_loop_turn (fp_rest s) (fp_inner s) of (ans, rest, i, ws) \<Rightarrow>
        fp_wake ws (s\<lparr>fp_inner := i, fp_rest := rest, fp_prod := returned ans,
                     fp_prod_ready := (ans \<noteq> Some Pending)\<rparr>))"

text \<open>Reading until a read gives nothing; \<open>room tot\<close> is the length of the slice offered once \<open>tot\<close> bytes came.\<close>

definition read_turn ::
    "(nat \<Rightarrow> nat) \<Rightarrow> nat \<Rightarrow> bytes \<Rightarrow> task_id inner \<Rightarrow>
     nat outcome poll option \<times> nat \<times> bytes \<times> task_id inner \<times> task_id list" where
  "read_turn room tot got i =
     (case poll_read i Consumer \<lparr>rb_filled = [], rb_capacity = room tot\<rparr> of
        ((Pending, rb), i', ws) \<Rightarrow> (Some Pending, tot, got, i', ws)
      | ((Ready r, rb), i', ws) \<Rightarrow>
          (case unwrap_ok r of
             Ok _ \<Rightarrow>
               let nread = length (rb_filled rb) in
               (if nread = 0 then Some (Ready (Ok tot)) else None, tot + nread, got @ rb_filled rb, i', ws)
           | _ \<Rightarrow> (Some (Ready Panic), tot, got, i', ws)))"

definition fp_read :: "(nat \<Rightarrow> nat) \<Rightarrow> bytes fpsc \<Rightarrow> bytes fpsc" where
  "fp_read room s =
     (case read_turn room (fp_tot s) (fp_env s) (fp_inner s) of (ans, tot, got, i, ws) \<Rightarrow>
        fp_wake ws (s\<lparr>fp_inner := i, fp_tot := tot, fp_env := got, fp_cons := returned ans,
                     fp_cons_ready := (ans \<noteq> Some Pending)\<rparr>))"

section \<open>Joining two tasks\<close>

definition prod_turn :: "('s fpsc \<Rightarrow> 's fpsc) \<Rightarrow> 's fpsc \<Rightarrow> 's fpsc" where
  "prod_turn step s = (if fp_prod s = None \<and> fp_prod_ready s then step s else s)"

definition cons_turn :: "('s fpsc \<Rightarrow> 's fpsc) \<Rightarrow> 's fpsc \<Rightarrow> 's fpsc" where
  "cons_turn step s = (if fp_cons s = None \<and> fp_cons_ready s then step s else s)"

fun join_turns :: "('s fpsc \<Rightarrow> 's fpsc) \<Rightarrow> ('s fpsc \<Rightarrow> 's fpsc) \<Rightarrow> task_id list \<Rightarrow> 's fpsc \<Rightarrow> 's fpsc" where
  "join_turns produce consume [] s = s"
| "join_turns produce consume (Producer # ts) s = join_turns produce consume ts (prod_turn produce s)"
| "join_turns produce consume (Consumer # ts) s = join_turns produce consume ts (cons_turn consume s)"

text \<open>Both futures have returned, and what they unwrap is there.\<close>

definition join_result :: "'s fpsc \<Rightarrow> unit outcome" where
  "join_result s =
     (case (fp_prod s, fp_cons s) of
        (Some r, Some r') \<Rightarrow> and_then (unwrap_ok r) (\<lambda>_. and_then (unwrap_ok r') (\<lambda>_. Ok ()))
      | (Some r, None) \<Rightarrow> and_then (unwrap_ok r) (\<lambda>_. Diverge)
      | (None, Some r') \<Rightarrow> and_then (unwrap_ok r') (\<lambda>_. Diverge)
      | (None, None) \<Rightarrow> Diverge)"

text \<open>The two ends of a new buffer, before their first turn.\<close>

definition joined_start :: "task_id box \<Rightarrow> bytes \<Rightarrow> bytes fpsc outcome" where
  "joined_start box data =
     (case box of Some i \<Rightarrow> Ok ((fp_init 0 data [])\<lparr>fp_inner := i\<rparr>) | None \<Rightarrow> Undefined)"

section \<open>The tests\<close>

definition test_producer_consumer_all :: "nat \<Rightarrow> task_id list \<Rightarrow> unit outcome" where
  "test_producer_consumer_all capacity sched =
     (case fpsc_new capacity :: task_id box \<times> unit producer_buf \<times> bytes consumer_buf of (box, producer, consumer) \<Rightarrow>
      let data = replicate 21 1; consumer = consumer_task recorder consumer in
      and_then (joined_start box data) (\<lambda>s.
      join_result (join_turns fp_produce (fp_consume (co_task consumer)) sched s)))"

text \<open>The loop of the consuming task of this test is that of \<open>consume_all\<close>, with an \<open>unwrap\<close> of each poll.\<close>

definition test_producer_consumer :: "nat \<Rightarrow> task_id list \<Rightarrow> unit outcome" where
  "test_producer_consumer capacity sched =
     (case with_closure capacity recorder :: task_id box \<times> unit producer_buf \<times> bytes consumer_buf of
        (box, producer, consumer) \<Rightarrow>
      let data = replicate 11 1 in
      and_then (joined_start box data) (\<lambda>s.
      join_result (join_turns fp_produce (fp_consume (co_task consumer)) sched s)))"

definition test_producer_consumer_stream :: "nat \<Rightarrow> task_id list \<Rightarrow> unit outcome" where
  "test_producer_consumer_stream capacity sched =
     (case with_closure capacity recorder :: task_id box \<times> bytes producer_buf \<times> bytes consumer_buf of
        (box, producer, consumer) \<Rightarrow>
      let data = replicate 11 1 in
      and_then (joined_start box data) (\<lambda>s.
      join_result (join_turns fp_stream (fp_consume (co_task consumer)) sched s)))"

definition test_ringbuf :: "nat \<Rightarrow> task_id list \<Rightarrow> unit outcome" where
  "test_ringbuf capacity sched =
     (let box = ringbuf_new capacity; data = replicate 21 1; room = (\<lambda>tot. 30 - tot) in
      and_then (joined_start box data) (\<lambda>s. join_result (join_turns fp_write_loop (fp_read room) sched s)))"

definition test_ringbuf_write_all :: "nat \<Rightarrow> task_id list \<Rightarrow> unit outcome" where
  "test_ringbuf_write_all capacity sched =
     (let box = ringbuf_new capacity; data = replicate 20 1; room = (\<lambda>_. 10) in
      and_then (joined_start box data) (\<lambda>s. join_result (join_turns fp_produce (fp_read room) sched s)))"

section \<open>Two tasks that make progress\<close>

text \<open>An invariant both tasks keep, a measure each turn lowers, and no state in which both sleep.\<close>

locale two_tasks =
  fixes inv :: "'s fpsc \<Rightarrow> bool" and cost :: "'s fpsc \<Rightarrow> nat" and produce consume :: "'s fpsc \<Rightarrow> 's fpsc"
  assumes produce_inv: "inv s \<Longrightarrow> fp_prod s = None \<Longrightarrow> fp_prod_ready s \<Longrightarrow> inv (produce s) \<and> cost (produce s) < cost s"
    and consume_inv: "inv s \<Longrightarrow> fp_cons s = None \<Longrightarrow> fp_cons_ready s \<Longrightarrow> inv (consume s) \<and> cost (consume s) < cost s"
    and both_return: "inv s \<Longrightarrow> stuck task s \<Longrightarrow> fp_prod s = Some (Ok ()) \<and> (\<exists>n. fp_cons s = Some (Ok n))"

text \<open>Enough rounds in each of which both tasks have a turn.\<close>

definition fair :: "nat \<Rightarrow> task_id list \<Rightarrow> bool" where
  "fair n sched \<longleftrightarrow> (\<exists>rounds. sched = concat rounds \<and> n \<le> length rounds \<and> (\<forall>r \<in> set rounds. {Producer, Consumer} \<subseteq> set r))"

lemma join_turns_append: "join_turns p c (ts @ us) s = join_turns p c us (join_turns p c ts s)"
proof (induction ts arbitrary: s)
  case (Cons t ts)
  then show ?case by (cases t) simp_all
qed simp

lemma join_turns_stuck: "stuck task s \<Longrightarrow> join_turns p c ts s = s"
proof (induction ts)
  case (Cons t ts)
  then show ?case by (cases t) (auto simp: prod_turn_def cons_turn_def stuck_def)
qed simp

context two_tasks begin

lemma turn_inv: "inv s \<Longrightarrow> inv (join_turns produce consume ts s) \<and> cost (join_turns produce consume ts s) \<le> cost s"
proof (induction ts arbitrary: s)
  case (Cons t ts)
  have "inv (prod_turn produce s) \<and> cost (prod_turn produce s) \<le> cost s"
    "inv (cons_turn consume s) \<and> cost (cons_turn consume s) \<le> cost s"
    using Cons.prems produce_inv [of s] consume_inv [of s] by (auto simp: prod_turn_def cons_turn_def)
  with Cons.IH show ?case by (cases t) (auto intro: order_trans)
qed simp

lemma round_progress:
  assumes "inv s" and "\<not> stuck task s" and "{Producer, Consumer} \<subseteq> set r"
  shows "cost (join_turns produce consume r s) < cost s"
proof -
  have "cost (join_turns produce consume r s) < cost s"
    if "Producer \<in> set r \<and> fp_prod s = None \<and> fp_prod_ready s \<or> Consumer \<in> set r \<and> fp_cons s = None \<and> fp_cons_ready s" for r
    using that
  proof (induction r)
    case (Cons t r)
    show ?case
    proof (cases "fp_prod s = None \<and> fp_prod_ready s \<and> t = Producer \<or> fp_cons s = None \<and> fp_cons_ready s \<and> t = Consumer")
      case True
      then show ?thesis
        using assms(1) produce_inv [of s] consume_inv [of s] turn_inv [of "produce s" r] turn_inv [of "consume s" r]
        by (auto simp: prod_turn_def cons_turn_def)
    next
      case False
      then have "join_turns produce consume (t # r) s = join_turns produce consume r s"
        by (cases t) (auto simp: prod_turn_def cons_turn_def)
      moreover have "cost (join_turns produce consume r s) < cost s" using Cons False by (intro Cons.IH) auto
      ultimately show ?thesis by simp
    qed
  qed simp
  then show ?thesis using assms(2,3) by (auto simp: stuck_def)
qed

lemma fair_stuck:
  assumes "inv s" and "fair (cost s) sched"
  shows "inv (join_turns produce consume sched s) \<and> stuck None (join_turns produce consume sched s)"
proof -
  from assms(2) obtain rounds where r: "sched = concat rounds" "cost s \<le> length rounds"
    "\<forall>r \<in> set rounds. {Producer, Consumer} \<subseteq> set r" by (auto simp: fair_def)
  have "stuck None (join_turns produce consume (concat rounds) s)"
    using r(2,3) assms(1)
  proof (induction rounds arbitrary: s)
    case Nil
    then show ?case
      using produce_inv [of s] consume_inv [of s] by (auto simp: stuck_def)
  next
    case (Cons r rs)
    let ?s = "join_turns produce consume r s"
    show ?case
    proof (cases "stuck None s")
      case True
      then show ?thesis by (simp add: join_turns_stuck)
    next
      case False
      then have "cost ?s < cost s" using round_progress Cons.prems by auto
      then have "stuck None (join_turns produce consume (concat rs) ?s)"
        using Cons.prems turn_inv [of s r] by (intro Cons.IH) auto
      then show ?thesis by (simp add: join_turns_append)
    qed
  qed
  with turn_inv [OF assms(1), of sched] show ?thesis unfolding r(1) by simp
qed

lemma fair_join: "inv s \<Longrightarrow> fair (cost s) sched \<Longrightarrow> join_result (join_turns produce consume sched s) = Ok ()"
  using fair_stuck [of s sched] both_return by (auto simp: join_result_def dest!: both_return)

end

section \<open>The pairs of tasks\<close>

definition all_inv :: "bytes fpsc \<Rightarrow> bool" where
  "all_inv s \<longleftrightarrow> (\<exists>capacity data. 0 < capacity \<and> data \<noteq> [] \<and> fp_inv capacity data s)"

interpretation all: two_tasks all_inv fp_measure fp_produce "fp_consume (Some recorder)"
  by unfold_locales (use produce_step consume_step inv_stuck in \<open>unfold all_inv_def, blast+\<close>)

text \<open>A stream against \<open>consume_all\<close>: the stream may turn out to be at its end when the buffer is writable.\<close>

definition stream_inv :: "bytes \<Rightarrow> bytes fpsc \<Rightarrow> bool" where
  "stream_inv data s \<longleftrightarrow> 0 < in_capacity (fp_inner s) \<and>
     fp_env s @ in_flight (fp_inner s) @ fp_rest s = data \<and> fp_tot s = length (fp_env s) \<and>
     in_w_waker (fp_inner s) \<in> {None, Some Producer} \<and> in_r_waker (fp_inner s) \<in> {None, Some Consumer} \<and>
     (case in_state (fp_inner s) of
        Writable \<Rightarrow> fp_prod s = None \<and> fp_cons s = None \<and> fp_prod_ready s \<and>
          (fp_cons_ready s \<or> in_r_waker (fp_inner s) = Some Consumer)
      | Readable \<Rightarrow> fp_prod s = None \<and> fp_cons s = None \<and> fp_cons_ready s \<and>
          (fp_prod_ready s \<or> in_w_waker (fp_inner s) = Some Producer)
      | WriteFinished \<Rightarrow> fp_rest s = [] \<and> fp_cons s = None \<and> fp_cons_ready s \<and>
          (fp_prod s = None \<and> fp_prod_ready s \<or> fp_prod s = Some (Ok ()))
      | ReadFinished \<Rightarrow> fp_rest s = [] \<and> fp_cons s = Some (Ok (length data)) \<and> (fp_prod s = None \<and> fp_prod_ready s \<or> fp_prod s = Some (Ok ())))"

definition stream_cost :: "bytes fpsc \<Rightarrow> nat" where
  "stream_cost s = 8 * length (fp_rest s) +
     (case in_state (fp_inner s) of Writable \<Rightarrow> 6 | Readable \<Rightarrow> 8 | WriteFinished \<Rightarrow> 4 | ReadFinished \<Rightarrow> 0) +
     (if fp_prod s = None then 2 else 0) + (if fp_cons s = None then 2 else 0) +
     (if fp_prod_ready s then 1 else 0) + (if fp_cons_ready s then 1 else 0)"

abbreviation fpsc_state ::
    "bytes \<Rightarrow> nat \<Rightarrow> buf_state \<Rightarrow> nat \<Rightarrow> task_id option \<Rightarrow> task_id option \<Rightarrow> bytes \<Rightarrow> unit outcome option \<Rightarrow> bool \<Rightarrow>
     's \<Rightarrow> nat \<Rightarrow> nat outcome option \<Rightarrow> bool \<Rightarrow> 's fpsc" where
  "fpsc_state b c st ct ww rw rest pd pr env tot cn cr \<equiv>
     \<lparr>fp_inner = \<lparr>in_buf = b, in_capacity = c, in_state = st, in_counter = ct, in_w_waker = ww, in_r_waker = rw\<rparr>,
      fp_rest = rest, fp_prod = pd, fp_prod_ready = pr, fp_env = env, fp_tot = tot, fp_cons = cn, fp_cons_ready = cr\<rparr>"

lemma fpsc_fields:
  obtains b c st ct ww rw rest pd pr env tot cn cr where
    "s = fpsc_state b c st ct ww rw rest pd pr env tot cn cr"
proof -
  obtain i rest pd pr env tot cn cr where
    s: "s = \<lparr>fp_inner = i, fp_rest = rest, fp_prod = pd, fp_prod_ready = pr, fp_env = env, fp_tot = tot,
      fp_cons = cn, fp_cons_ready = cr\<rparr>" by (cases s) blast
  obtain b c st ct ww rw where
    "i = \<lparr>in_buf = b, in_capacity = c, in_state = st, in_counter = ct, in_w_waker = ww, in_r_waker = rw\<rparr>"
    by (cases i) blast
  with s that show thesis by blast
qed

text \<open>What a turn of each task does in each state of the buffer.\<close>

lemma stream_turns:
  "length rest < c \<Longrightarrow> fp_stream (fpsc_state b c Writable ct ww rw rest pd pr env tot cn cr) =
     fpsc_state rest c WriteFinished ct ww None [] (if rest = [] then Some (Ok ()) else None) True env tot cn (cr \<or> rw = Some Consumer)"
  "c \<le> length rest \<Longrightarrow> 0 < c \<Longrightarrow> fp_stream (fpsc_state b c Writable ct ww rw rest pd pr env tot cn cr) =
     fpsc_state (take c rest) c Readable ct ww None (drop c rest) None True env tot cn (cr \<or> rw = Some Consumer)"
  "fp_stream (fpsc_state b c Readable ct ww rw rest pd pr env tot cn cr) =
     fpsc_state b c Readable ct (Some Producer) rw rest None False env tot cn cr"
  "fp_stream (fpsc_state b c WriteFinished ct ww rw rest pd pr env tot cn cr) =
     fpsc_state b c WriteFinished ct ww rw rest (Some (Ok ())) True env tot cn cr"
  "fp_stream (fpsc_state b c ReadFinished ct ww rw rest pd pr env tot cn cr) =
     fpsc_state b c ReadFinished ct ww rw rest (Some (Ok ())) True env tot cn cr"
  by (cases rw; cases "rest = []";
      simp add: fp_stream_def produce_from_stream_turn_def producer_poll_def waker_defs Let_def min_def; auto)+

lemma consume_turns:
  "fp_consume (Some recorder) (fpsc_state b c Writable ct ww rw rest pd pr env tot cn cr) =
     fpsc_state b c Writable ct ww (Some Consumer) rest pd pr env tot None False"
  "fp_consume (Some recorder) (fpsc_state b c Readable ct ww rw rest pd pr env tot cn cr) =
     fpsc_state b c Writable ct None rw rest pd (pr \<or> ww = Some Producer) (env @ b) (tot + length b) None True"
  "fp_consume (Some recorder) (fpsc_state b c WriteFinished ct ww rw rest pd pr env tot cn cr) =
     fpsc_state b c ReadFinished ct ww rw rest pd pr (env @ b) (tot + length b) (Some (Ok (tot + length b))) True"
  by (cases ww; simp add: fp_consume_def consume_all_turn_def consumer_poll_def recorder_def waker_defs Let_def; auto)+

lemma write_turns:
  "rest \<noteq> [] \<Longrightarrow> length rest \<le> c \<Longrightarrow> fp_produce (fpsc_state b c Writable ct ww rw rest pd pr env tot cn cr) =
     fpsc_state rest c WriteFinished ct ww None [] None True env tot cn (cr \<or> rw = Some Consumer)"
  "rest \<noteq> [] \<Longrightarrow> 0 < c \<Longrightarrow> c < length rest \<Longrightarrow> fp_produce (fpsc_state b c Writable ct ww rw rest pd pr env tot cn cr) =
     fpsc_state (take c rest) c Readable ct ww None (drop c rest) None True env tot cn (cr \<or> rw = Some Consumer)"
  "rest \<noteq> [] \<Longrightarrow> fp_produce (fpsc_state b c Readable ct ww rw rest pd pr env tot cn cr) =
     fpsc_state b c Readable ct (Some Producer) rw rest None False env tot cn cr"
  "fp_produce (fpsc_state b c st ct ww rw [] pd pr env tot cn cr) =
     fpsc_state b c st ct ww rw [] (Some (Ok ())) True env tot cn cr"
  by (cases rw; simp add: fp_produce_def write_all_turn_def poll_write_def waker_defs Let_def min_def; auto)+

lemma read_turns:
  "fp_read room (fpsc_state b c Writable ct ww rw rest pd pr env tot cn cr) =
     fpsc_state b c Writable ct ww (Some Consumer) rest pd pr env tot None False"
  "length b \<le> room tot \<Longrightarrow> fp_read room (fpsc_state b c Readable ct ww rw rest pd pr env tot cn cr) =
     fpsc_state b c Writable ct None rw rest pd (pr \<or> ww = Some Producer) (env @ b) (tot + length b)
       (if b = [] then Some (Ok tot) else None) True"
  "length b \<le> room tot \<Longrightarrow> fp_read room (fpsc_state b c WriteFinished ct ww rw rest pd pr env tot cn cr) =
     fpsc_state [] c WriteFinished ct ww rw rest pd pr (env @ b) (tot + length b)
       (if b = [] then Some (Ok tot) else None) True"
  by (cases ww; cases "b = []"; simp add: fp_read_def read_turn_def poll_read_def put_slice_def waker_defs Let_def min_def; auto)+

lemma stream_step:
  assumes "stream_inv data s" and "fp_prod s = None" and "fp_prod_ready s"
  shows "stream_inv data (fp_stream s) \<and> stream_cost (fp_stream s) < stream_cost s"
proof (cases s rule: fpsc_fields)
  case s: (1 b c st ct ww rw rest pd pr env tot cn cr)
  have "length rest < c \<or> 0 < c \<and> c \<le> length rest" using assms(1) by (auto simp: s stream_inv_def)
  then show ?thesis using assms unfolding s
    by (elim disjE; cases st; simp add: stream_turns stream_inv_def stream_cost_def in_flight_def; auto)
qed

lemma stream_consume_step:
  assumes "stream_inv data s" and "fp_cons s = None" and "fp_cons_ready s"
  shows "stream_inv data (fp_consume (Some recorder) s) \<and> stream_cost (fp_consume (Some recorder) s) < stream_cost s"
proof (cases s rule: fpsc_fields)
  case s: (1 b c st ct ww rw rest pd pr env tot cn cr)
  show ?thesis using assms unfolding s
    by (cases st; simp add: consume_turns stream_inv_def stream_cost_def in_flight_def; auto)
qed

lemma stream_return:
  assumes "stream_inv data s" and "stuck task s"
  shows "fp_prod s = Some (Ok ()) \<and> (\<exists>n. fp_cons s = Some (Ok n))"
  using assms by (cases "in_state (fp_inner s)") (auto simp: stream_inv_def stuck_def)

interpretation stream: two_tasks "stream_inv data" stream_cost fp_stream "fp_consume (Some recorder)"
  by unfold_locales (fact stream_step stream_consume_step stream_return)+

text \<open>A writer against a reader of bytes, whose slices have room for every part.\<close>

definition read_inv :: "(nat \<Rightarrow> nat) \<Rightarrow> bytes fpsc \<Rightarrow> bool" where
  "read_inv room s \<longleftrightarrow> (let i = fp_inner s; size = fp_tot s + length (in_flight i) + length (fp_rest s) in
     0 < in_capacity i \<and> (\<forall>tot k. tot + k \<le> size \<and> k \<le> in_capacity i \<longrightarrow> k \<le> room tot) \<and>
     length (in_flight i) \<le> in_capacity i \<and>
     in_w_waker i \<in> {None, Some Producer} \<and> in_r_waker i \<in> {None, Some Consumer} \<and>
     (case in_state i of
        Writable \<Rightarrow> fp_rest s \<noteq> [] \<and> fp_prod s = None \<and> fp_cons s = None \<and> fp_prod_ready s \<and>
          (fp_cons_ready s \<or> in_r_waker i = Some Consumer)
      | Readable \<Rightarrow> fp_rest s \<noteq> [] \<and> in_buf i \<noteq> [] \<and> fp_prod s = None \<and> fp_cons s = None \<and> fp_cons_ready s \<and>
          (fp_prod_ready s \<or> in_w_waker i = Some Producer)
      | WriteFinished \<Rightarrow> fp_rest s = [] \<and> (fp_cons s = None \<and> fp_cons_ready s \<or> in_buf i = [] \<and> (\<exists>n. fp_cons s = Some (Ok n))) \<and>
          (fp_prod s = None \<and> fp_prod_ready s \<or> fp_prod s = Some (Ok ()))
      | ReadFinished \<Rightarrow> False))"

definition read_cost :: "bytes fpsc \<Rightarrow> nat" where
  "read_cost s = 8 * length (fp_rest s) + (if in_flight (fp_inner s) \<noteq> [] then 4 else 0) +
     (if fp_prod s = None then 2 else 0) + (if fp_cons s = None then 2 else 0) +
     (if fp_prod_ready s then 1 else 0) + (if fp_cons_ready s then 1 else 0)"

lemma write_same:
  assumes "read_inv room s"
  shows "fp_write_loop s = fp_produce s"
proof (cases s rule: fpsc_fields)
  case s: (1 b c st ct ww rw rest pd pr env tot cn cr)
  have "0 < c" "st \<noteq> ReadFinished" "st = WriteFinished \<Longrightarrow> rest = []"
    using assms unfolding s by (cases st; simp add: read_inv_def Let_def)+
  then show ?thesis unfolding s
    by (cases st; cases "rest = []"; simp add: fp_write_loop_def write_loop_turn_def fp_produce_def write_all_turn_def
        poll_write_def wake_reader_def set_buf_state_def Let_def min_def split: option.split)
qed

lemma read_write_step:
  assumes "read_inv room s" and "fp_prod s = None" and "fp_prod_ready s"
  shows "read_inv room (fp_produce s) \<and> read_cost (fp_produce s) < read_cost s"
proof (cases s rule: fpsc_fields)
  case s: (1 b c st ct ww rw rest pd pr env tot cn cr)
  have "0 < c" using assms(1) by (auto simp: s read_inv_def Let_def)
  moreover have "rest = [] \<or> Suc 0 \<le> length rest" by (cases rest) simp_all
  ultimately show ?thesis using assms unfolding s
    by (cases st; cases "rest = []"; cases "length rest \<le> c";
      simp add: write_turns read_inv_def read_cost_def in_flight_def Let_def; auto)
qed

lemma read_step:
  assumes "read_inv room s" and "fp_cons s = None" and "fp_cons_ready s"
  shows "read_inv room (fp_read room s) \<and> read_cost (fp_read room s) < read_cost s"
proof (cases s rule: fpsc_fields)
  case s: (1 b c st ct ww rw rest pd pr env tot cn cr)
  have "length (in_flight (fp_inner s)) \<le> room (fp_tot s)" using assms(1) by (simp add: read_inv_def Let_def)
  then have "st \<noteq> Writable \<Longrightarrow> st \<noteq> ReadFinished \<Longrightarrow> length b \<le> room tot"
    unfolding s by (cases st; simp add: in_flight_def)
  then show ?thesis using assms unfolding s
    by (cases st; cases "b = []"; simp add: read_turns read_inv_def read_cost_def in_flight_def Let_def; auto)
qed

lemma read_return:
  assumes "read_inv room s" and "stuck task s"
  shows "fp_prod s = Some (Ok ()) \<and> (\<exists>n. fp_cons s = Some (Ok n))"
  using assms by (cases "in_state (fp_inner s)") (auto simp: read_inv_def stuck_def Let_def)

interpretation write_all: two_tasks "read_inv room" read_cost fp_produce "fp_read room"
  by unfold_locales (fact read_write_step read_step read_return)+

interpretation write_loop: two_tasks "read_inv room" read_cost fp_write_loop "fp_read room"
  by unfold_locales (use read_write_step read_step write_same read_return in \<open>simp, blast+\<close>)

section \<open>Properties\<close>

lemma fair_mono: "fair n sched \<Longrightarrow> m \<le> n \<Longrightarrow> fair m sched"
  by (auto simp: fair_def)

lemma fair_rounds: "fair n (concat (replicate n [Producer, Consumer]))"
  unfolding fair_def by (intro exI [of _ "replicate n [Producer, Consumer]"]) simp

lemma start_state:
  "joined_start (ringbuf_new capacity) data = Ok (fpsc_state [] capacity Writable 2 None None data None True [] 0 None True)"
  by (simp add: joined_start_def ringbuf_new_def inner_new_def fp_init_def)

lemma start_invs:
  assumes "0 < capacity" and "s = fpsc_state [] capacity Writable 2 None None data None True [] 0 None True"
  shows "data \<noteq> [] \<Longrightarrow> all_inv s" "stream_inv data s"
    "data \<noteq> [] \<Longrightarrow> \<forall>tot k. tot + k \<le> length data \<and> k \<le> capacity \<longrightarrow> k \<le> room tot \<Longrightarrow> read_inv room s"
    "fp_measure s \<le> 8 * length data + 10" "stream_cost s \<le> 8 * length data + 12" "read_cost s \<le> 8 * length data + 10"
  using assms
  by (auto simp: all_inv_def fp_inv_def stream_inv_def read_inv_def in_flight_def fp_measure_def stream_cost_def read_cost_def Let_def)

lemma ringbuf_needs_exact_capacity:
  assumes "10 < capacity"
  shows "test_ringbuf_write_all capacity [Producer, Consumer] = Panic"
proof -
  let ?s = "fpsc_state [] capacity Writable 2 None None (replicate 20 1) None True [] 0 None True :: bytes fpsc"
  have r: "fp_cons (fp_read (\<lambda>_. 10) (fp_produce ?s)) = Some Panic" "fp_cons (fp_produce ?s) = None \<and> fp_cons_ready (fp_produce ?s)"
    "fp_prod (fp_read (\<lambda>_. 10) (fp_produce ?s)) = None"
    using assms
    by (cases "20 \<le> capacity"; simp add: write_turns fp_read_def read_turn_def poll_read_def fp_wake_def Let_def)+
  have "join_turns fp_produce (fp_read (\<lambda>_. 10)) [Producer, Consumer] ?s = fp_read (\<lambda>_. 10) (fp_produce ?s)"
    using r(2) by (auto simp: prod_turn_def cons_turn_def)
  with r(1,3) show ?thesis
    by (simp add: test_ringbuf_write_all_def start_state join_result_def Let_def unwrap_ok_def del: join_turns.simps)
qed

text \<open>C26: A stream given to \<open>produce_from_stream\<close> that fills the buffer until it ends, of any length, also an
  empty one, is delivered through a buffer of any capacity but zero: under every schedule with as many rounds as its measure both calls return, and the
  consumer was lent exactly the bytes of the stream, in order, and counts them.\<close>

theorem stream_delivers:
  assumes "0 < capacity" and "fair (8 * length data + 12) sched"
    and "joined_start (ringbuf_new capacity) data = Ok start"
  shows "fp_prod (join_turns fp_stream (fp_consume (Some recorder)) sched start) = Some (Ok ()) \<and>
    fp_cons (join_turns fp_stream (fp_consume (Some recorder)) sched start) = Some (Ok (length data)) \<and>
    fp_env (join_turns fp_stream (fp_consume (Some recorder)) sched start) = data"
proof -
  have s: "start = fpsc_state [] capacity Writable 2 None None data None True [] 0 None True"
    using assms(3) by (simp add: start_state)
  let ?s = "join_turns fp_stream (fp_consume (Some recorder)) sched start"
  from stream.fair_stuck [OF start_invs(2) [OF assms(1) s] fair_mono [OF assms(2) start_invs(5) [OF assms(1) s]]]
  have i: "stream_inv data ?s" "stuck None ?s" by simp_all
  then show ?thesis by (cases "in_state (fp_inner ?s)") (auto simp: stream_inv_def stuck_def in_flight_def)
qed

theorem stream_delivers_witness:
  "\<exists>start. joined_start (ringbuf_new 2) [] = Ok start \<and>
    fp_cons (join_turns fp_stream (fp_consume (Some recorder)) (concat (replicate 12 [Producer, Consumer])) start) = Some (Ok 0)"
  using stream_delivers [OF _ _ start_state, of 2 "[]" "concat (replicate 12 [Producer, Consumer])"] fair_rounds [of 12]
  by (intro exI [of _ "fpsc_state [] 2 Writable 2 None None [] None True [] 0 None True"]) (simp add: start_state del: join_turns.simps)

text \<open>The tests of the ring buffer and of the producer and the consumer pass under every schedule with
  two hundred rounds in which both tasks have a turn, also the one fed by a stream, which the proof of \<open>produce_all\<close>
  does not cover. The one that reads through slices of ten bytes relies on \<open>Vec::with_capacity(10)\<close> giving no more
  than ten, which its documentation does not promise: with more room the first read fails.\<close>

theorem fpsc_tests_verdict:
  assumes "0 < capacity" and "fair 200 sched"
  shows "test_producer_consumer_all capacity sched = Ok () \<and> test_producer_consumer capacity sched = Ok () \<and>
    test_producer_consumer_stream capacity sched = Ok () \<and> test_ringbuf capacity sched = Ok () \<and>
    (if capacity \<le> 10 then test_ringbuf_write_all capacity sched = Ok ()
     else test_ringbuf_write_all capacity [Producer, Consumer] = Panic)"
proof -
  let ?s = "\<lambda>n. fpsc_state [] capacity Writable 2 None None (replicate n 1) None True [] 0 None True"
  note start = start_invs [OF assms(1) refl]
  have f: "fair m sched" if "m \<le> 200" for m using fair_mono [OF assms(2) that] .
  have 1: "join_result (join_turns fp_produce (fp_consume (Some recorder)) sched (?s n)) = Ok ()" if "0 < n" "n \<le> 21" for n
    using that start(1,4) [of "replicate n 1"] by (intro all.fair_join f) auto
  have 2: "join_result (join_turns fp_stream (fp_consume (Some recorder)) sched (?s n)) = Ok ()" if "n \<le> 21" for n
    using that start(2,5) [of "replicate n 1"] by (intro stream.fair_join f) auto
  have 3: "join_result (join_turns fp_write_loop (fp_read (\<lambda>tot. 30 - tot)) sched (?s 21)) = Ok ()"
  proof (intro write_loop.fair_join f)
    show "read_inv (\<lambda>tot. 30 - tot) (?s 21)" by (intro start(3)) auto
    show "read_cost (?s 21) \<le> 200" using start(6) [of "replicate 21 1"] by simp
  qed
  have 4: "join_result (join_turns fp_produce (fp_read (\<lambda>_. 10)) sched (?s 20)) = Ok ()" if "capacity \<le> 10"
  proof (intro write_all.fair_join f)
    show "read_inv (\<lambda>_. 10) (?s 20)" using that by (intro start(3)) auto
    show "read_cost (?s 20) \<le> 200" using start(6) [of "replicate 20 1"] by simp
  qed
  note defs = with_closure_def fpsc_new_def consumer_new_def consumer_task_def start_state Let_def
  have "test_producer_consumer_all capacity sched = Ok ()" "test_producer_consumer capacity sched = Ok ()"
    using 1 [of 21] 1 [of 11] by (simp_all add: test_producer_consumer_all_def test_producer_consumer_def defs)
  moreover have "test_producer_consumer_stream capacity sched = Ok ()"
    using 2 [of 11] by (simp add: test_producer_consumer_stream_def defs)
  moreover have "test_ringbuf capacity sched = Ok ()" using 3 by (simp add: test_ringbuf_def defs)
  moreover have "test_ringbuf_write_all capacity sched = Ok ()" if "capacity \<le> 10"
    using 4 [OF that] by (simp add: test_ringbuf_write_all_def defs)
  ultimately show ?thesis using ringbuf_needs_exact_capacity [of capacity] by auto
qed

theorem fpsc_tests_verdict_instance:
  "test_ringbuf 10 (concat (replicate 200 [Producer, Consumer])) = Ok () \<and>
    test_producer_consumer_stream 16 (concat (replicate 200 [Producer, Consumer])) = Ok () \<and>
    test_ringbuf_write_all 16 [Producer, Consumer] = Panic"
  using fpsc_tests_verdict [OF _ fair_rounds, of 10] fpsc_tests_verdict [OF _ fair_rounds, of 16] by simp

end
