(* ===== verification/FpscThreads.thy ===== *)
theory FpscThreads imports Fpsc begin

text \<open>
  The two ends of the buffer in two threads. \<open>BufPtr\<close> is declared \<open>Send\<close> and \<open>Sync\<close> in
  \<open>src/fpsc/ringbuf.rs\<close>, so nothing keeps a program from running \<open>produce_all\<close> and \<open>consume_all\<close> in two
  tasks of a runtime with several threads. Here a poll is no single step: the steps are its accesses to the shared buffer,
  in the order of the source, and the accesses of the two threads interleave as they like. Every access
  takes effect at once and in order, which is more than Rust promises for these unsynchronised fields.
\<close>

section \<open>The accesses\<close>

text \<open>Where a thread stands. \<open>WIdle\<close> and \<open>RIdle\<close>: the task is not being polled. \<open>WLoop\<close> and \<open>RLoop\<close>: it is, at the head
  of the loop of \<open>write_all\<close> or \<open>consume_all\<close>. Behind these, inside a poll: what has been read from the buffer and
  how many bytes the poll will report. \<open>WTook\<close> and \<open>RTook\<close>: the waker is taken out of its place and not yet woken.\<close>

datatype write_pc = WIdle | WLoop | WLoaded buf_state | WCleared nat | WFilled nat | WStored nat | WTook nat "task_id list"

datatype read_pc =
  RIdle | RLoop | RLoaded buf_state | RLent nat | RStored nat | RTook nat "task_id list" | RLast "nat outcome" | RReturn nat

fun write_access :: "write_pc \<Rightarrow> 's fpsc \<Rightarrow> write_pc \<times> 's fpsc" where
  "write_access WIdle b = (WLoop, b\<lparr>fp_prod_ready := False\<rparr>)"
| "write_access WLoop b =
     (if fp_rest b = [] then (WLoop, b\<lparr>fp_prod := Some (Ok ())\<rparr>) else (WLoaded (clone_buf_state (fp_inner b)), b))"
| "write_access (WLoaded Writable) b =
     (WCleared (min (in_capacity (fp_inner b)) (length (fp_rest b))), b\<lparr>fp_inner := (fp_inner b)\<lparr>in_buf := []\<rparr>\<rparr>)"
| "write_access (WLoaded Readable) b = (WIdle, b\<lparr>fp_inner := writer_waker_save Producer (fp_inner b)\<rparr>)"
| "write_access (WLoaded _) b = (case wake_reader (fp_inner b) of (i, ws) \<Rightarrow> (WTook 0 ws, b\<lparr>fp_inner := i\<rparr>))"
| "write_access (WCleared nwrite) b =
     (WFilled nwrite, b\<lparr>fp_inner := (fp_inner b)\<lparr>in_buf := in_buf (fp_inner b) @ take nwrite (fp_rest b)\<rparr>\<rparr>)"
| "write_access (WFilled nwrite) b =
     (WStored nwrite,
      b\<lparr>fp_inner := set_buf_state (if nwrite = length (fp_rest b) then WriteFinished else Readable) (fp_inner b)\<rparr>)"
| "write_access (WStored nwrite) b = (case wake_reader (fp_inner b) of (i, ws) \<Rightarrow> (WTook nwrite ws, b\<lparr>fp_inner := i\<rparr>))"
| "write_access (WTook nwrite ws) b =
     (WLoop, fp_wake ws (if nwrite = 0 then b\<lparr>fp_prod := Some (Err H_IO)\<rparr> else b\<lparr>fp_rest := drop nwrite (fp_rest b)\<rparr>))"

fun read_access :: "'s closure option \<Rightarrow> read_pc \<Rightarrow> 's fpsc \<Rightarrow> read_pc \<times> 's fpsc" where
  "read_access task RIdle b = (RLoop, b\<lparr>fp_cons_ready := False\<rparr>)"
| "read_access task RLoop b = (RLoaded (clone_buf_state (fp_inner b)), b)"
| "read_access task (RLoaded Writable) b = (RIdle, b\<lparr>fp_inner := reader_waker_save Consumer (fp_inner b)\<rparr>)"
| "read_access task (RLoaded Readable) b =
     (case task of
        None \<Rightarrow> (RLent 0, b)
      | Some f \<Rightarrow>
          (case f (fp_env b) (in_buf (fp_inner b)) of (ok, bs, env) \<Rightarrow>
             (let b = b\<lparr>fp_inner := (fp_inner b)\<lparr>in_buf := bs\<rparr>, fp_env := env\<rparr> in
              if ok then (RLent (length bs), b)
              else (RLoop, b\<lparr>fp_cons := Some (Err (H_Message ''error in consumer closure''))\<rparr>))))"
| "read_access task (RLoaded WriteFinished) b =
     (case task of
        None \<Rightarrow> (RLast (Ok 0), b)
      | Some f \<Rightarrow>
          (case f (fp_env b) (in_buf (fp_inner b)) of (ok, bs, env) \<Rightarrow>
             (RLast (if ok then Ok (length bs) else Err (H_Message ''error in consumer closure'')),
              b\<lparr>fp_inner := (fp_inner b)\<lparr>in_buf := bs\<rparr>, fp_env := env\<rparr>)))"
| "read_access task (RLoaded ReadFinished) b = (RReturn 0, b)"
| "read_access task (RLent nread) b = (RStored nread, b\<lparr>fp_inner := set_buf_state Writable (fp_inner b)\<rparr>)"
| "read_access task (RStored nread) b = (case wake_writer (fp_inner b) of (i, ws) \<Rightarrow> (RTook nread ws, b\<lparr>fp_inner := i\<rparr>))"
| "read_access task (RTook nread ws) b = (RReturn nread, fp_wake ws b)"
| "read_access task (RLast (Ok nread)) b = (RReturn nread, b\<lparr>fp_inner := set_buf_state ReadFinished (fp_inner b)\<rparr>)"
| "read_access task (RLast r) b =
     (RLoop, b\<lparr>fp_inner := set_buf_state ReadFinished (fp_inner b), fp_cons := Some r\<rparr>)"
| "read_access task (RReturn nread) b =
     (let b = b\<lparr>fp_tot := fp_tot b + nread\<rparr> in
      (RLoop, if clone_buf_state (fp_inner b) = ReadFinished then b\<lparr>fp_cons := Some (Ok (fp_tot b))\<rparr> else b))"

section \<open>The two threads\<close>

text \<open>A task that is not being polled moves when it has been woken; the flag of a task that is being polled
  says whether it has been woken since.\<close>

record 's threads =
  th_base :: "'s fpsc"
  th_write :: write_pc
  th_read :: read_pc

definition th_init :: "nat \<Rightarrow> bytes \<Rightarrow> 's \<Rightarrow> 's threads" where
  "th_init capacity data env = \<lparr>th_base = fp_init capacity data env, th_write = WIdle, th_read = RIdle\<rparr>"

definition th_produce :: "'s threads \<Rightarrow> 's threads" where
  "th_produce s = (case write_access (th_write s) (th_base s) of (pc, b) \<Rightarrow> s\<lparr>th_base := b, th_write := pc\<rparr>)"

definition th_consume :: "'s closure option \<Rightarrow> 's threads \<Rightarrow> 's threads" where
  "th_consume task s = (case read_access task (th_read s) (th_base s) of (pc, b) \<Rightarrow> s\<lparr>th_base := b, th_read := pc\<rparr>)"

definition producer_moves :: "'s threads \<Rightarrow> bool" where
  "producer_moves s \<longleftrightarrow> fp_prod (th_base s) = None \<and> (th_write s = WIdle \<longrightarrow> fp_prod_ready (th_base s))"

definition consumer_moves :: "'s threads \<Rightarrow> bool" where
  "consumer_moves s \<longleftrightarrow> fp_cons (th_base s) = None \<and> (th_read s = RIdle \<longrightarrow> fp_cons_ready (th_base s))"

inductive th_step :: "'s closure option \<Rightarrow> 's threads \<Rightarrow> 's threads \<Rightarrow> bool" for task where
  th_write_step: "producer_moves s \<Longrightarrow> th_step task s (th_produce s)"
| th_read_step: "consumer_moves s \<Longrightarrow> th_step task s (th_consume task s)"

inductive th_run :: "'s closure option \<Rightarrow> 's threads \<Rightarrow> 's threads \<Rightarrow> bool" for task s0 where
  th_start: "th_run task s0 s0"
| th_more: "th_run task s0 s \<Longrightarrow> th_step task s s' \<Longrightarrow> th_run task s0 s'"

inductive_cases th_stepE [elim]: "th_step task s s'"

inductive_simps th_step_simps: "th_step task s s'"

lemma th_run_write:
  "th_run task s0 \<lparr>th_base = b, th_write = pc, th_read = r\<rparr> \<Longrightarrow> write_access pc b = (pc', b') \<Longrightarrow>
     fp_prod b = None \<Longrightarrow> (pc = WIdle \<longrightarrow> fp_prod_ready b) \<Longrightarrow>
     th_run task s0 \<lparr>th_base = b', th_write = pc', th_read = r\<rparr>"
  using th_more [OF _ th_write_step, of task s0 "\<lparr>th_base = b, th_write = pc, th_read = r\<rparr>"]
  by (simp add: producer_moves_def th_produce_def)

lemma th_run_read:
  "th_run task s0 \<lparr>th_base = b, th_write = w, th_read = pc\<rparr> \<Longrightarrow> read_access task pc b = (pc', b') \<Longrightarrow>
     fp_cons b = None \<Longrightarrow> (pc = RIdle \<longrightarrow> fp_cons_ready b) \<Longrightarrow>
     th_run task s0 \<lparr>th_base = b', th_write = w, th_read = pc'\<rparr>"
  using th_more [OF _ th_read_step, of task s0 "\<lparr>th_base = b, th_write = w, th_read = pc\<rparr>"]
  by (simp add: consumer_moves_def th_consume_def)

section \<open>A lost wake-up\<close>

text \<open>C7: Between threads a wake-up can be lost: for any data but the empty slice and any capacity but zero, the consumer may read
  the state, then the producer fill the buffer and find no waker, and the consumer then leave its own and
  sleep. Nothing wakes it: the run is stuck with \<open>consume_all\<close> waiting for ever and nothing delivered,
  and when the data fits the buffer \<open>produce_all\<close> has reported success.\<close>

theorem threads_lose_wakeup:
  assumes "0 < capacity" and "data \<noteq> []"
  shows "\<exists>s. th_run task (th_init capacity data env) s \<and> (\<nexists>s'. th_step task s s') \<and>
    fp_cons (th_base s) = None \<and> fp_env (th_base s) = env \<and> fp_tot (th_base s) = 0 \<and>
    fp_prod (th_base s) = (if length data \<le> capacity then Some (Ok ()) else None)"
proof -
  let ?n = "min capacity (length data)"
  let ?st = "if ?n = length data then WriteFinished else Readable"
  let ?b = "\<lambda>buf st ww rw rest pd pr cr. \<lparr>fp_inner = \<lparr>in_buf = buf, in_capacity = capacity, in_state = st,
      in_counter = 1, in_w_waker = ww, in_r_waker = rw\<rparr>, fp_rest = rest, fp_prod = pd, fp_prod_ready = pr,
      fp_env = env, fp_tot = 0, fp_cons = None, fp_cons_ready = cr\<rparr>"
  let ?run = "\<lambda>b w r. th_run task (th_init capacity data env) \<lparr>th_base = b, th_write = w, th_read = r\<rparr>"
  note eqs = fp_init_def inner_new_def clone_buf_state_def waker_defs
  have n: "0 < ?n" using assms by simp
  have "?run (?b [] Writable None None data None True True) WIdle RIdle"
    using th_start [of task "th_init capacity data env"] by (simp add: th_init_def eqs)
  from th_run_read [OF this] have "?run (?b [] Writable None None data None True False) WIdle RLoop" by simp
  from th_run_read [OF this] have "?run (?b [] Writable None None data None True False) WIdle (RLoaded Writable)"
    by (simp add: eqs)
  from th_run_write [OF this] have "?run (?b [] Writable None None data None False False) WLoop (RLoaded Writable)" by simp
  from th_run_write [OF this]
  have "?run (?b [] Writable None None data None False False) (WLoaded Writable) (RLoaded Writable)"
    using assms(2) by (simp add: eqs)
  from th_run_write [OF this]
  have "?run (?b [] Writable None None data None False False) (WCleared ?n) (RLoaded Writable)" by simp
  from th_run_write [OF this]
  have "?run (?b (take ?n data) Writable None None data None False False) (WFilled ?n) (RLoaded Writable)" by simp
  from th_run_write [OF this]
  have "?run (?b (take ?n data) ?st None None data None False False) (WStored ?n) (RLoaded Writable)"
    by (simp add: eqs)
  from th_run_write [OF this]
  have "?run (?b (take ?n data) ?st None None data None False False) (WTook ?n []) (RLoaded Writable)"
    by (simp add: eqs)
  from th_run_write [OF this]
  have filled: "?run (?b (take ?n data) ?st None None (drop ?n data) None False False) WLoop (RLoaded Writable)"
    using n by (simp add: eqs)
  show ?thesis
  proof (cases "length data \<le> capacity")
    case True
    then have m: "min capacity (length data) = length data" by simp
    from th_run_write [OF filled]
    have "?run (?b data WriteFinished None None [] (Some (Ok ())) False False) WLoop (RLoaded Writable)" by (simp add: m)
    from th_run_read [OF this]
    have "?run (?b data WriteFinished None (Some Consumer) [] (Some (Ok ())) False False) WLoop RIdle"
      by (simp add: eqs)
    then show ?thesis by (intro exI conjI) (assumption, auto simp: producer_moves_def consumer_moves_def True)
  next
    case False
    then have m: "min capacity (length data) = capacity" "drop capacity data \<noteq> []" "capacity \<noteq> length data" by auto
    from th_run_write [OF filled]
    have "?run (?b (take capacity data) Readable None None (drop capacity data) None False False) (WLoaded Readable) (RLoaded Writable)"
      using m by (simp add: eqs)
    from th_run_write [OF this]
    have "?run (?b (take capacity data) Readable (Some Producer) None (drop capacity data) None False False) WIdle (RLoaded Writable)"
      by (simp add: eqs)
    from th_run_read [OF this]
    have "?run (?b (take capacity data) Readable (Some Producer) (Some Consumer) (drop capacity data) None False False) WIdle RIdle"
      by (simp add: eqs)
    then show ?thesis by (intro exI conjI) (assumption, auto simp: producer_moves_def consumer_moves_def False)
  qed
qed

theorem threads_lose_wakeup_witness:
  "\<exists>s. th_run (Some recorder) (th_init 4 [1, 2] []) s \<and> (\<nexists>s'. th_step (Some recorder) s s') \<and>
    fp_prod (th_base s) = Some (Ok ()) \<and> fp_cons (th_base s) = None \<and> fp_env (th_base s) = []"
  using threads_lose_wakeup [of 4 "[1, 2]" "Some recorder" "[]"] by auto

section \<open>The bytes arrive in order\<close>

text \<open>What a poll in progress has already written of the bytes that count as left to write, what it has
  already taken but not yet counted, and the bytes in the buffer the consumer has not been lent yet.\<close>

fun sent_of :: "write_pc \<Rightarrow> nat" where
  "sent_of (WStored nwrite) = nwrite"
| "sent_of (WTook nwrite ws) = nwrite"
| "sent_of _ = 0"

fun taken_of :: "read_pc \<Rightarrow> nat" where
  "taken_of (RLent nread) = nread"
| "taken_of (RStored nread) = nread"
| "taken_of (RTook nread ws) = nread"
| "taken_of (RLast (Ok nread)) = nread"
| "taken_of (RReturn nread) = nread"
| "taken_of _ = 0"

fun lent :: "read_pc \<Rightarrow> bool" where
  "lent (RLent nread) = True"
| "lent (RLast r) = True"
| "lent _ = False"

definition th_unsent :: "'s threads \<Rightarrow> bytes" where
  "th_unsent s = drop (sent_of (th_write s)) (fp_rest (th_base s))"

definition th_in_flight :: "'s threads \<Rightarrow> bytes" where
  "th_in_flight s = (if lent (th_read s) then [] else in_flight (fp_inner (th_base s)))"

text \<open>What each thread may rely on where it stands: only the writer leaves \<open>Writable\<close>, only the reader
  leaves the other states, and the buffer belongs to the one whose state it is.\<close>

fun writer_at :: "nat \<Rightarrow> bytes \<Rightarrow> buf_state \<Rightarrow> bytes \<Rightarrow> write_pc \<Rightarrow> bool" where
  "writer_at capacity rest state buf (WLoaded st) \<longleftrightarrow> rest \<noteq> [] \<and> st \<in> {Writable, Readable} \<and> (st = Writable \<longrightarrow> state = Writable)"
| "writer_at capacity rest state buf (WCleared n) \<longleftrightarrow> n = min capacity (length rest) \<and> 0 < n \<and> state = Writable \<and> buf = []"
| "writer_at capacity rest state buf (WFilled n) \<longleftrightarrow>
     n = min capacity (length rest) \<and> 0 < n \<and> state = Writable \<and> buf = take n rest"
| "writer_at capacity rest state buf (WStored n) \<longleftrightarrow> 0 < n"
| "writer_at capacity rest state buf (WTook n ws) \<longleftrightarrow> 0 < n"
| "writer_at capacity rest state buf _ \<longleftrightarrow> True"

fun reader_at :: "buf_state \<Rightarrow> read_pc \<Rightarrow> bool" where
  "reader_at state (RLoaded st) \<longleftrightarrow> state \<noteq> ReadFinished \<and> (st \<noteq> Writable \<longrightarrow> state = st)"
| "reader_at state (RLent n) \<longleftrightarrow> state = Readable"
| "reader_at state (RLast r) \<longleftrightarrow> state = WriteFinished \<and> is_ok r"
| "reader_at state (RReturn n) \<longleftrightarrow> True"
| "reader_at state _ \<longleftrightarrow> state \<noteq> ReadFinished"

definition th_inv :: "nat \<Rightarrow> bytes \<Rightarrow> bytes threads \<Rightarrow> bool" where
  "th_inv capacity data s \<longleftrightarrow>
     (let b = th_base s; i = fp_inner b in
      in_capacity i = capacity \<and> fp_env b @ th_in_flight s @ th_unsent s = data \<and>
      fp_tot b + taken_of (th_read s) = length (fp_env b) \<and>
      (th_unsent s = [] \<longleftrightarrow> in_state i \<in> {WriteFinished, ReadFinished}) \<and>
      writer_at capacity (fp_rest b) (in_state i) (in_buf i) (th_write s) \<and> fp_prod b \<in> {None, Some (Ok ())} \<and>
      (fp_prod b \<noteq> None \<longrightarrow> th_write s = WLoop \<and> fp_rest b = []) \<and>
      (fp_cons b = None \<longrightarrow> reader_at (in_state i) (th_read s)) \<and>
      (fp_cons b \<noteq> None \<longrightarrow> fp_cons b = Some (Ok (fp_tot b)) \<and> in_state i = ReadFinished \<and> th_read s = RLoop))"

lemma th_inv_init: "data \<noteq> [] \<Longrightarrow> th_inv capacity data (th_init capacity data [])"
  by (simp add: th_inv_def th_init_def fp_init_def inner_new_def th_in_flight_def th_unsent_def in_flight_def)

lemmas th_defs = th_inv_def th_in_flight_def th_unsent_def in_flight_def clone_buf_state_def waker_defs Let_def

lemma th_produce_inv:
  assumes "th_inv capacity data s" and "0 < capacity" and "producer_moves s"
  shows "th_inv capacity data (th_produce s)"
proof (cases "th_write s")
  case (WLoaded st)
  with assms show ?thesis
    by (cases st) (auto simp: th_defs th_produce_def producer_moves_def split: option.split)
next
  case (WFilled n)
  with assms show ?thesis
    by (cases "th_read s") (auto simp: th_defs th_produce_def producer_moves_def min_def split: if_splits)
next
  case (WStored n)
  with assms show ?thesis by (auto simp: th_defs th_produce_def producer_moves_def split: option.split)
next
  case WLoop
  with assms show ?thesis
    by (cases "in_state (fp_inner (th_base s))") (auto simp: th_defs th_produce_def producer_moves_def)
qed (use assms in \<open>auto simp: th_defs th_produce_def producer_moves_def\<close>)

lemma th_consume_inv:
  assumes "th_inv capacity data s" and "consumer_moves s"
  shows "th_inv capacity data (th_consume (Some recorder) s)"
proof (cases "th_read s")
  case (RLoaded st)
  with assms show ?thesis
    by (cases st) (auto simp: th_defs th_consume_def consumer_moves_def recorder_def)
next
  case (RLast r)
  with assms show ?thesis
    by (cases r; cases "th_write s") (auto simp: th_defs th_consume_def consumer_moves_def)
next
  case (RLent n)
  with assms show ?thesis
    by (cases "th_write s") (auto simp: th_defs th_consume_def consumer_moves_def)
next
  case (RStored n)
  with assms show ?thesis
    by (cases "th_write s") (auto simp: th_defs th_consume_def consumer_moves_def split: option.split)
qed (use assms in \<open>auto simp: th_defs th_consume_def consumer_moves_def\<close>)

lemma th_run_inv:
  assumes "th_run (Some recorder) (th_init capacity data []) s" and "0 < capacity" and "data \<noteq> []"
  shows "th_inv capacity data s"
  using assms(1)
proof (induction rule: th_run.induct)
  case th_start
  show ?case using th_inv_init [OF assms(3)] .
next
  case (th_more s s')
  from th_more.hyps(2) th_more.IH show ?case
    by (cases rule: th_step.cases) (auto intro: th_produce_inv [OF _ assms(2)] th_consume_inv)
qed

text \<open>The accesses to the bytes of the buffer: clearing and filling it, lending it to the closure.\<close>

definition writes_bytes :: "write_pc \<Rightarrow> bool" where
  "writes_bytes w \<longleftrightarrow> w = WLoaded Writable \<or> (\<exists>n. w = WCleared n)"

definition lends_bytes :: "read_pc \<Rightarrow> bool" where
  "lends_bytes r \<longleftrightarrow> r = RLoaded Readable \<or> r = RLoaded WriteFinished"

lemma th_inv_exclusive:
  "th_inv capacity data s \<Longrightarrow> fp_cons (th_base s) = None \<Longrightarrow> \<not> (writes_bytes (th_write s) \<and> lends_bytes (th_read s))"
  by (auto simp: th_inv_def Let_def writes_bytes_def lends_bytes_def)

text \<open>C9: Also between threads no byte is lost, doubled or reordered, for any data but the empty slice and any
  capacity but zero: however the accesses of the two polls
  interleave, what the consumer has been lent, followed by what lies in the buffer for it and what is left to
  write, is the data; the two ends are never both about to touch the bytes of the buffer; and if the calls
  return, \<open>produce_all\<close> has succeeded and \<open>consume_all\<close> has been lent all the data and counted it.\<close>

theorem threads_in_order:
  assumes "th_run (Some recorder) (th_init capacity data []) s" and "0 < capacity" and "data \<noteq> []"
  shows "fp_env (th_base s) @ th_in_flight s @ th_unsent s = data \<and>
    \<not> (producer_moves s \<and> writes_bytes (th_write s) \<and> consumer_moves s \<and> lends_bytes (th_read s)) \<and>
    (\<forall>r. fp_prod (th_base s) = Some r \<longrightarrow> r = Ok ()) \<and>
    (\<forall>r. fp_cons (th_base s) = Some r \<longrightarrow> r = Ok (length data) \<and> fp_env (th_base s) = data)"
proof -
  have i: "th_inv capacity data s" using th_run_inv [OF assms] .
  from th_inv_exclusive [OF i]
  have "\<not> (producer_moves s \<and> writes_bytes (th_write s) \<and> consumer_moves s \<and> lends_bytes (th_read s))"
    by (auto simp: consumer_moves_def)
  moreover have "fp_env (th_base s) = data" if "fp_cons (th_base s) = Some r" for r
  proof -
    have "th_unsent s = []" "th_in_flight s = []"
      using i that by (auto simp: th_inv_def Let_def th_in_flight_def in_flight_def)
    with i show ?thesis by (simp add: th_inv_def Let_def)
  qed
  moreover have "fp_env (th_base s) @ th_in_flight s @ th_unsent s = data" "fp_prod (th_base s) \<in> {None, Some (Ok ())}"
    using i by (simp_all add: th_inv_def Let_def)
  moreover have "r = Ok (length (fp_env (th_base s)))" if "fp_cons (th_base s) = Some r" for r
    using i that by (auto simp: th_inv_def Let_def)
  ultimately show ?thesis by auto
qed

theorem threads_in_order_witness:
  "let s = th_produce (th_init 4 [1, 2] ([] :: bytes)) in
    fp_env (th_base s) @ th_in_flight s @ th_unsent s = [1, 2]"
proof -
  have "producer_moves (th_init 4 [1, 2] ([] :: bytes))" by (simp add: producer_moves_def th_init_def fp_init_def)
  from threads_in_order [OF th_more [OF th_start th_write_step [OF this]]] show ?thesis by (simp add: Let_def)
qed

section \<open>Turns are uninterrupted polls\<close>

text \<open>Between polls, the state as \<open>Fpsc\<close> sees it: a task that is being polled is on the schedule.\<close>

definition turn_of :: "'s threads \<Rightarrow> 's fpsc" where
  "turn_of s = (th_base s)\<lparr>fp_prod_ready := (fp_prod_ready (th_base s) \<or> th_write s \<noteq> WIdle),
                          fp_cons_ready := (fp_cons_ready (th_base s) \<or> th_read s \<noteq> RIdle)\<rparr>"

definition between_polls :: "'s threads \<Rightarrow> bool" where
  "between_polls s \<longleftrightarrow> th_write s \<in> {WIdle, WLoop} \<and> th_read s \<in> {RIdle, RLoop}"

text \<open>When no poll has been interrupted, nobody is woken while it is being polled, and a waker in its place
  belongs to a task that sleeps.\<close>

definition undisturbed :: "'s threads \<Rightarrow> bool" where
  "undisturbed s \<longleftrightarrow> (let b = th_base s; i = fp_inner b in
     between_polls s \<and> in_w_waker i \<in> {None, Some Producer} \<and> in_r_waker i \<in> {None, Some Consumer} \<and>
     (th_write s = WLoop \<or> in_w_waker i \<noteq> None \<longrightarrow> \<not> fp_prod_ready b) \<and>
     (th_read s = RLoop \<or> in_r_waker i \<noteq> None \<longrightarrow> \<not> fp_cons_ready b) \<and>
     (in_w_waker i \<noteq> None \<longrightarrow> th_write s = WIdle) \<and> (in_r_waker i \<noteq> None \<longrightarrow> th_read s = RIdle))"

lemmas poll_defs = undisturbed_def between_polls_def turn_of_def clone_buf_state_def waker_defs Let_def

fun writes :: "nat \<Rightarrow> write_pc \<Rightarrow> 's fpsc \<Rightarrow> (write_pc \<times> 's fpsc) option" where
  "writes 0 w b = Some (w, b)"
| "writes (Suc n) w b =
     (if fp_prod b = None \<and> (w = WIdle \<longrightarrow> fp_prod_ready b)
      then case write_access w b of (w, b) \<Rightarrow> writes n w b else None)"

lemma th_run_writes:
  "th_run task s0 \<lparr>th_base = b, th_write = w, th_read = r\<rparr> \<Longrightarrow> writes n w b = Some (w', b') \<Longrightarrow>
     th_run task s0 \<lparr>th_base = b', th_write = w', th_read = r\<rparr>"
proof (induction n w b rule: writes.induct)
  case (2 n w b)
  then show ?case by (cases "write_access w b") (auto split: if_splits dest: th_run_write)
qed simp

lemma write_poll:
  assumes "undisturbed \<lparr>th_base = b, th_write = WLoop, th_read = r\<rparr>" and "fp_prod b = None"
  shows "\<exists>n w b'. writes n WLoop b = Some (w, b') \<and> undisturbed \<lparr>th_base = b', th_write = w, th_read = r\<rparr> \<and>
    turn_of \<lparr>th_base = b', th_write = w, th_read = r\<rparr> = fp_produce (turn_of \<lparr>th_base = b, th_write = WLoop, th_read = r\<rparr>)"
proof -
  obtain i rest pd pr env tot cd cr where b: "b = \<lparr>fp_inner = i, fp_rest = rest, fp_prod = pd, fp_prod_ready = pr,
      fp_env = env, fp_tot = tot, fp_cons = cd, fp_cons_ready = cr\<rparr>" by (cases b)
  obtain buf capacity st counter ww rw where i: "i = \<lparr>in_buf = buf, in_capacity = capacity, in_state = st,
      in_counter = counter, in_w_waker = ww, in_r_waker = rw\<rparr>" by (cases i)
  have f: "pd = None" "\<not> pr" "ww = None" "rw = None \<or> rw = Some Consumer \<and> r = RIdle \<and> \<not> cr"
    "r = RIdle \<or> r = RLoop \<and> \<not> cr"
    using assms by (auto simp: b i poll_defs)
  show ?thesis
  proof (cases "rest = []")
    case True
    with f show ?thesis
      by (intro exI [of _ 1]) (auto simp: b i poll_defs fp_produce_def write_all_turn_def)
  next
    case False
    with f show ?thesis
      by (cases st; intro exI [of _ "case st of Writable \<Rightarrow> 6 | Readable \<Rightarrow> 2 | _ \<Rightarrow> 3"])
        (auto simp: b i poll_defs fp_produce_def write_all_turn_def poll_write_def eval_nat_numeral)
  qed
qed

fun reads :: "'s closure option \<Rightarrow> nat \<Rightarrow> read_pc \<Rightarrow> 's fpsc \<Rightarrow> (read_pc \<times> 's fpsc) option" where
  "reads task 0 r b = Some (r, b)"
| "reads task (Suc n) r b =
     (if fp_cons b = None \<and> (r = RIdle \<longrightarrow> fp_cons_ready b)
      then case read_access task r b of (r, b) \<Rightarrow> reads task n r b else None)"

lemma th_run_reads:
  "th_run task s0 \<lparr>th_base = b, th_write = w, th_read = r\<rparr> \<Longrightarrow> reads task n r b = Some (r', b') \<Longrightarrow>
     th_run task s0 \<lparr>th_base = b', th_write = w, th_read = r'\<rparr>"
proof (induction task n r b rule: reads.induct)
  case (2 task n r b)
  then show ?case by (cases "read_access task r b") (auto split: if_splits dest: th_run_read)
qed simp

lemma read_poll:
  assumes "undisturbed \<lparr>th_base = b, th_write = w, th_read = RLoop\<rparr>" and "fp_cons b = None"
  shows "\<exists>n r b'. reads task n RLoop b = Some (r, b') \<and> undisturbed \<lparr>th_base = b', th_write = w, th_read = r\<rparr> \<and>
    turn_of \<lparr>th_base = b', th_write = w, th_read = r\<rparr> =
      fp_consume task (turn_of \<lparr>th_base = b, th_write = w, th_read = RLoop\<rparr>)"
proof -
  obtain i rest pd pr env tot cd cr where b: "b = \<lparr>fp_inner = i, fp_rest = rest, fp_prod = pd, fp_prod_ready = pr,
      fp_env = env, fp_tot = tot, fp_cons = cd, fp_cons_ready = cr\<rparr>" by (cases b)
  obtain buf capacity st counter ww rw where i: "i = \<lparr>in_buf = buf, in_capacity = capacity, in_state = st,
      in_counter = counter, in_w_waker = ww, in_r_waker = rw\<rparr>" by (cases i)
  have f: "cd = None" "\<not> cr" "rw = None" "ww = None \<or> ww = Some Producer \<and> w = WIdle \<and> \<not> pr"
    "w = WIdle \<or> w = WLoop \<and> \<not> pr"
    using assms by (auto simp: b i poll_defs)
  note defs = b i poll_defs fp_consume_def consume_all_turn_def consumer_poll_def eval_nat_numeral
  show ?thesis
  proof (cases st)
    case Writable
    with f show ?thesis by (intro exI [of _ 2]) (auto simp: defs)
  next
    case Readable
    show ?thesis
    proof (cases task)
      case None
      with f Readable show ?thesis by (intro exI [of _ 6]) (auto simp: defs)
    next
      case (Some g)
      obtain ok bs env' where "g env buf = (ok, bs, env')" by (cases "g env buf")
      with f Readable Some show ?thesis
        by (cases ok; intro exI [of _ "if ok then 6 else 2"]) (auto simp: defs)
    qed
  next
    case WriteFinished
    show ?thesis
    proof (cases task)
      case None
      with f WriteFinished show ?thesis by (intro exI [of _ 4]) (auto simp: defs)
    next
      case (Some g)
      obtain ok bs env' where "g env buf = (ok, bs, env')" by (cases "g env buf")
      with f WriteFinished Some show ?thesis
        by (cases ok; intro exI [of _ "if ok then 4 else 3"]) (auto simp: defs)
    qed
  next
    case ReadFinished
    with f show ?thesis by (intro exI [of _ 3]) (auto simp: defs)
  qed
qed

lemma start_write:
  assumes "th_run task s0 \<lparr>th_base = b, th_write = w, th_read = r\<rparr>"
    and "undisturbed \<lparr>th_base = b, th_write = w, th_read = r\<rparr>"
    and "fp_prod b = None" and "fp_prod_ready b \<or> w \<noteq> WIdle"
  shows "th_run task s0 \<lparr>th_base = b\<lparr>fp_prod_ready := False\<rparr>, th_write = WLoop, th_read = r\<rparr> \<and>
    undisturbed \<lparr>th_base = b\<lparr>fp_prod_ready := False\<rparr>, th_write = WLoop, th_read = r\<rparr> \<and>
    fp_produce (turn_of \<lparr>th_base = b\<lparr>fp_prod_ready := False\<rparr>, th_write = WLoop, th_read = r\<rparr>) =
      fp_produce (turn_of \<lparr>th_base = b, th_write = w, th_read = r\<rparr>)"
proof (cases "w = WIdle")
  case True
  with assms th_run_write [OF assms(1), of WLoop "b\<lparr>fp_prod_ready := False\<rparr>"] show ?thesis
    by (auto simp: undisturbed_def between_polls_def turn_of_def Let_def)
next
  case False
  with assms(2) have "w = WLoop" "\<not> fp_prod_ready b" by (auto simp: undisturbed_def between_polls_def Let_def)
  then have "b\<lparr>fp_prod_ready := False\<rparr> = b" by simp
  with assms \<open>w = WLoop\<close> show ?thesis by simp
qed

lemma start_read:
  assumes "th_run task s0 \<lparr>th_base = b, th_write = w, th_read = r\<rparr>"
    and "undisturbed \<lparr>th_base = b, th_write = w, th_read = r\<rparr>"
    and "fp_cons b = None" and "fp_cons_ready b \<or> r \<noteq> RIdle"
  shows "th_run task s0 \<lparr>th_base = b\<lparr>fp_cons_ready := False\<rparr>, th_write = w, th_read = RLoop\<rparr> \<and>
    undisturbed \<lparr>th_base = b\<lparr>fp_cons_ready := False\<rparr>, th_write = w, th_read = RLoop\<rparr> \<and>
    fp_consume task (turn_of \<lparr>th_base = b\<lparr>fp_cons_ready := False\<rparr>, th_write = w, th_read = RLoop\<rparr>) =
      fp_consume task (turn_of \<lparr>th_base = b, th_write = w, th_read = r\<rparr>)"
proof (cases "r = RIdle")
  case True
  with assms th_run_read [OF assms(1), of RLoop "b\<lparr>fp_cons_ready := False\<rparr>"] show ?thesis
    by (auto simp: undisturbed_def between_polls_def turn_of_def Let_def)
next
  case False
  with assms(2) have "r = RLoop" "\<not> fp_cons_ready b" by (auto simp: undisturbed_def between_polls_def Let_def)
  then have "b\<lparr>fp_cons_ready := False\<rparr> = b" by simp
  with assms \<open>r = RLoop\<close> show ?thesis by simp
qed

lemma turn_is_poll:
  assumes "th_run task s0 t" and "undisturbed t" and "fp_step task (turn_of t) s'"
  shows "\<exists>t'. th_run task s0 t' \<and> undisturbed t' \<and> turn_of t' = s'"
proof -
  obtain b w r where t: "t = \<lparr>th_base = b, th_write = w, th_read = r\<rparr>" by (cases t)
  from assms(3) show ?thesis
  proof cases
    case produce
    then have "fp_prod b = None" "fp_prod_ready b \<or> w \<noteq> WIdle" by (auto simp: t turn_of_def)
    note start = start_write [OF assms(1,2) [unfolded t] this]
    with write_poll [OF conjunct1 [OF conjunct2 [OF start]]] \<open>fp_prod b = None\<close> produce(1)
    show ?thesis using th_run_writes [OF conjunct1 [OF start]] by (fastforce simp: t)
  next
    case consume
    then have "fp_cons b = None" "fp_cons_ready b \<or> r \<noteq> RIdle" by (auto simp: t turn_of_def)
    note start = start_read [OF assms(1,2) [unfolded t] this]
    with read_poll [OF conjunct1 [OF conjunct2 [OF start]]] \<open>fp_cons b = None\<close> consume(1)
    show ?thesis using th_run_reads [OF conjunct1 [OF start]] by (fastforce simp: t)
  qed
qed

text \<open>The turns of \<open>Fpsc\<close> are the polls that nobody interrupts: every run of the pair turn by turn, whatever
  the closure does, is a run of the accesses in which both threads are between polls at its end, with
  the same buffer, bytes, results and the same tasks on the schedule.\<close>

theorem threads_refine_turns:
  assumes "fp_run task (fp_init capacity data env) n s"
  shows "\<exists>t. th_run task (th_init capacity data env) t \<and> between_polls t \<and> turn_of t = s"
proof -
  from assms have "\<exists>t. th_run task (th_init capacity data env) t \<and> undisturbed t \<and> turn_of t = s"
  proof (induction rule: fp_run.induct)
    case start
    have "undisturbed (th_init capacity data env)" "turn_of (th_init capacity data env) = fp_init capacity data env"
      by (simp_all add: th_init_def fp_init_def inner_new_def poll_defs)
    then show ?case using th_start by blast
  next
    case (more n s s')
    then show ?case using turn_is_poll by blast
  qed
  then show ?thesis by (auto simp: undisturbed_def Let_def)
qed

theorem threads_refine_turns_instance:
  "\<exists>t. th_run (Some recorder) (th_init 2 [7] []) t \<and> between_polls t \<and>
    turn_of t = fp_consume (Some recorder) (fp_produce (fp_produce (fp_init 2 [7] [])))"
  using sample_run threads_refine_turns [of "Some recorder" 2 "[7]" "[]" 3] by (simp add: Let_def)

end
