(* ===== verification/Ledger.thy ===== *)
theory Ledger imports Executor begin

text \<open>
  What an executor is to its clients: an append-only ledger with one entry for every chain whose digest
  block went into the main chain. The executor with its keeper, its blocks and its table of side chains refines it.
\<close>

section \<open>Refinement, request by request\<close>

fun serve :: "('s \<Rightarrow> 'i \<Rightarrow> 'o \<times> 's) \<Rightarrow> 's \<Rightarrow> 'i list \<Rightarrow> 'o list \<times> 's" where
  "serve step s [] = ([], s)"
| "serve step s (req # reqs) = (case step s req of (out, s) \<Rightarrow> case serve step s reqs of (outs, s) \<Rightarrow> (out # outs, s))"

locale functional_refinement =
  fixes impl :: "'s \<Rightarrow> 'i \<Rightarrow> 'o \<times> 's"
    and spec :: "'a \<Rightarrow> 'i \<Rightarrow> 'o \<times> 'a"
    and view :: "'s \<Rightarrow> 'a"
    and inv :: "'s \<Rightarrow> bool"
  assumes impl_inv: "inv s \<Longrightarrow> inv (snd (impl s req))"
    and impl_spec: "inv s \<Longrightarrow> spec (view s) req = (fst (impl s req), view (snd (impl s req)))"
begin

lemma serve_spec: "inv s \<Longrightarrow> serve spec (view s) reqs = (fst (serve impl s reqs), view (snd (serve impl s reqs)))"
proof (induction reqs arbitrary: s)
  case (Cons req reqs)
  then show ?case using impl_inv [OF Cons.prems] impl_spec [OF Cons.prems] by (simp add: case_prod_unfold)
qed simp

end

section \<open>The ledger\<close>

text \<open>An entry: the Merkle root and the length the digest block records, and the chain that is found under
  its number; a chain that was refused after its digest block had been added leaves none. The first digest
  block of the main chain is its genesis block and no entry.\<close>

type_synonym entry = "hash outcome \<times> u32 \<times> data_block block_chain option"

datatype executor_request = AddBlock uuid u64 bytes | AddChain u64 "data_block block_chain"

definition entry_of :: "sha \<Rightarrow> data_block block_chain \<Rightarrow> entry" where
  "entry_of sha c =
     (merkle_root sha (map db_hash (bc_blocks c)), word_of_nat (length (bc_blocks c)),
      if chain_verify block_chain_impl (data_block_impl sha) c = Ok () then Some c else None)"

text \<open>The specification: \<open>start\<close> is when the ledger was opened. It says whether the request succeeds.\<close>

fun ledger_step :: "sha \<Rightarrow> chain_limit \<Rightarrow> u64 \<Rightarrow> entry list \<Rightarrow> executor_request \<Rightarrow> bool \<times> entry list" where
  "ledger_step sha limit start l (AddBlock uuid now data) = (True, l)"
| "ledger_step sha limit start l (AddChain now c) =
     (let free = (bc_blocks c \<noteq> [] \<and> Suc (length l) < cl_max_len limit \<and> Suc (length l) < U32_MAX \<and> unat start \<le> unat now \<and>
            unat now \<le> unat start + unat (cl_time_gap limit) \<and> unat start + unat (cl_time_gap limit) \<le> U64_MAX)
      in (free \<and> chain_verify block_chain_impl (data_block_impl sha) c = Ok (), if free then l @ [entry_of sha c] else l))"

text \<open>The executor, and how it is seen as a ledger.\<close>

fun executor_step ::
    "sha \<Rightarrow> (data_block, digest_block) executor \<Rightarrow> executor_request \<Rightarrow> bool \<times> (data_block, digest_block) executor" where
  "executor_step sha e (AddBlock uuid now data) =
     (case add_block sha (data_block_impl sha) uuid now e data of (r, e) \<Rightarrow> (is_ok r, e))"
| "executor_step sha e (AddChain now c) =
     (case add_chain (data_block_impl sha) (digest_block_impl sha) now e c of (r, e) \<Rightarrow> (is_ok r, e))"

definition opened :: "(data_block, digest_block) executor \<Rightarrow> u64" where
  "opened e = dg_timestamp (hd (main_blocks e))"

definition ledger_of :: "(data_block, digest_block) executor \<Rightarrow> entry list" where
  "ledger_of e = map (\<lambda>b. (Ok (dg_merkle_root b), dg_length b, side_ref (ex_keeper e) (dg_digest_id b))) (tl (main_blocks e))"

definition ledger_inv :: "sha \<Rightarrow> chain_limit \<Rightarrow> u64 \<Rightarrow> (data_block, digest_block) executor \<Rightarrow> bool" where
  "ledger_inv sha limit start e \<longleftrightarrow>
     executor_reach sha (data_block_impl sha) (digest_block_impl sha) limit e \<and> opened e = start"

lemma executor_step_reach:
  assumes "executor_reach sha (data_block_impl sha) (digest_block_impl sha) limit e"
  shows "executor_reach sha (data_block_impl sha) (digest_block_impl sha) limit (snd (executor_step sha e req))"
  using assms by (cases req) (auto simp: case_prod_unfold intro: executor_reach.intros prod.collapse [symmetric])

lemma digest_ids:
  assumes "executor_reach sha (data_block_impl sha) (digest_block_impl sha) limit e" and "b \<in> set (main_blocks e)"
  shows "unat (dg_digest_id b) \<le> length (main_blocks e)"
proof -
  obtain i where "i < length (main_blocks e)" "b = main_blocks e ! i" using assms(2) by (metis in_set_conv_nth)
  moreover have "indexed_from (digest_block_impl sha) 1 (main_blocks e)"
    using reach_inv [OF assms(1)] by (simp add: keeper_inv_def Let_def)
  ultimately show ?thesis using indexed_from_nth [of "digest_block_impl sha" 1 "main_blocks e" i] by simp
qed

text \<open>The number of the next digest block has no side chain.\<close>

lemma next_side_free:
  assumes "executor_reach sha (data_block_impl sha) (digest_block_impl sha) limit e" and "length (main_blocks e) < U32_MAX"
  shows "side_ref (ex_keeper e) (word_of_nat (Suc (length (main_blocks e)))) = None"
proof (rule ccontr)
  let ?d = "word_of_nat (Suc (length (main_blocks e))) :: u32"
  assume "side_ref (ex_keeper e) ?d \<noteq> None"
  then obtain c where "side_ref (ex_keeper e) ?d = Some c" by blast
  from side_ref_committed [OF assms(1) this] have "unat ?d \<le> length (main_blocks e)" by (simp add: committed_def)
  moreover have "unat ?d = Suc (length (main_blocks e))" using assms(2) by (intro unat_u32_of_nat) simp
  ultimately show False by simp
qed

lemma add_chain_ledger:
  assumes "executor_reach sha (data_block_impl sha) (digest_block_impl sha) limit e"
  shows "ledger_step sha limit (opened e) (ledger_of e) (AddChain now c) =
      (is_ok (fst (add_chain (data_block_impl sha) (digest_block_impl sha) now e c)),
       ledger_of (snd (add_chain (data_block_impl sha) (digest_block_impl sha) now e c))) \<and>
    opened (snd (add_chain (data_block_impl sha) (digest_block_impl sha) now e c)) = opened e"
proof -
  let ?IB = "data_block_impl sha" and ?ID = "digest_block_impl sha" and ?n = "length (main_blocks e)"
  have len: "Suc (length (ledger_of e)) = ?n" using reach_main(1) [OF assms(1)] by (simp add: ledger_of_def)
  show ?thesis
  proof (cases "?n < cl_max_len limit \<and> ?n < U32_MAX \<and> open_at limit e now \<and> bc_blocks c \<noteq> []")
    case False
    from add_chain_refused [OF assms(1) this] False show ?thesis
      by (auto simp: len open_at_def opened_def Let_def is_ok_def split: outcome.splits)
  next
    case True
    then obtain root where root: "merkle_root sha (map db_hash (bc_blocks c)) = Ok root" by (simp add: merkle_root_Ok)
    have room: "?n < U32_MAX" using True by simp
    let ?b = "next_digest ?ID now (main_blocks e) root (length (bc_blocks c))"
    let ?d = "word_of_nat (Suc ?n) :: u32"
    have d: "unat ?d = Suc ?n" using room by (intro unat_u32_of_nat) simp
    have b: "dg_digest_id ?b = ?d" "dg_merkle_root ?b = root" "dg_length ?b = word_of_nat (length (bc_blocks c))"
      by (simp_all add: next_digest_def digest_create_def digest_private_new_def digest_block_args_new_def Let_def)
    have old: "dg_digest_id b' \<noteq> ?d" if "b' \<in> set (tl (main_blocks e))" for b'
      using digest_ids [OF assms(1), of b'] that d by (auto dest: list.set_sel(2) [OF reach_main(1) [OF assms(1)]])
    have ne: "main_blocks e \<noteq> []" using reach_main(1) [OF assms(1)] .
    let ?ok = "chain_verify block_chain_impl ?IB c = Ok ()" and ?r = "add_chain ?IB ?ID now e c"
    note eq = add_chain_open [OF assms(1) conjunct1 [OF True] room conjunct1 [OF conjunct2 [OF conjunct2 [OF True]]] root]
    have r: "fst ?r = chain_verify block_chain_impl ?IB c" "main_blocks (snd ?r) = main_blocks e @ [?b]"
      unfolding eq by simp_all
    have sides: "side_ref (ex_keeper (snd ?r)) d = (if ?ok \<and> d = ?d then Some c else side_ref (ex_keeper e) d)" for d
    proof (cases ?ok)
      case True
      then show ?thesis unfolding eq by (simp add: side_ref_insert del: of_nat_Suc)
    next
      case False
      then show ?thesis unfolding eq by (simp add: side_ref_def)
    qed
    have "ledger_of (snd ?r) = ledger_of e @ [entry_of sha c]"
      using old ne next_side_free [OF assms(1) room]
      by (simp add: ledger_of_def r sides b entry_of_def root del: of_nat_Suc)
    moreover have "opened (snd ?r) = opened e" by (simp add: opened_def r(2) ne)
    moreover have "is_ok (fst ?r) \<longleftrightarrow> ?ok" unfolding r(1) by (auto simp: is_ok_def split: outcome.split)
    ultimately show ?thesis using True by (simp add: len open_at_def opened_def Let_def)
  qed
qed

interpretation executor_ledger: functional_refinement "executor_step sha" "ledger_step sha limit start" ledger_of
    "ledger_inv sha limit start"
  for sha and limit and start
proof
  fix e req assume "ledger_inv sha limit start e"
  then have inv: "executor_reach sha (data_block_impl sha) (digest_block_impl sha) limit e"
    "opened e = start" by (simp_all add: ledger_inv_def)
  have "opened (snd (executor_step sha e req)) = start \<and>
    ledger_step sha limit start (ledger_of e) req = (fst (executor_step sha e req), ledger_of (snd (executor_step sha e req)))"
  proof (cases req)
    case (AddBlock uuid now data)
    from add_block_not_stored [OF inv(1), of uuid now data] obtain b
      where "add_block sha (data_block_impl sha) uuid now e data = (Ok b, e)" by blast
    then show ?thesis by (simp add: AddBlock inv(2))
  next
    case (AddChain now c)
    with add_chain_ledger [OF inv(1), of now c] show ?thesis by (simp add: inv(2) case_prod_unfold del: ledger_step.simps)
  qed
  then show "ledger_inv sha limit start (snd (executor_step sha e req))"
    and "ledger_step sha limit start (ledger_of e) req = (fst (executor_step sha e req), ledger_of (snd (executor_step sha e req)))"
    using executor_step_reach [OF inv(1)] by (simp_all add: ledger_inv_def)
qed

section \<open>Property\<close>

text \<open>C4: The executor refines an append-only ledger: from any executor the program can reach on, and for any
  requests in any order, whatever the limits are, the same requests succeed as in the ledger, and what the
  executor then holds, read off its main chain and its side chains, is the ledger: every chain with a block
  that came while the main chain was below its limit and below the last number a \<open>u32\<close> holds, and the time
  window open, is appended with its root and length, with the chain itself if it verified and without it if
  not, nothing else is, and no entry is ever changed or removed.\<close>

theorem executor_refines_ledger:
  assumes "executor_reach sha (data_block_impl sha) (digest_block_impl sha) limit e"
  shows "serve (ledger_step sha limit (opened e)) (ledger_of e) reqs =
    (fst (serve (executor_step sha) e reqs), ledger_of (snd (serve (executor_step sha) e reqs)))"
  using assms by (intro executor_ledger.serve_spec) (simp add: ledger_inv_def)

theorem executor_refines_ledger_witness:
  "fst (serve (executor_step sample_sha) (sample_executor 3)
      [AddChain 12 lone_block, AddBlock ZERO_UUID 12 [1, 2], AddChain 12 (sample_chain 1), AddChain 12 (sample_chain 2)]) =
     [False, True, True, False]"
proof -
  have "ledger_of (sample_executor 3) = []" "opened (sample_executor 3) = 10"
    by (simp_all add: ledger_of_def opened_def)
  moreover have "chain_verify block_chain_impl sample_IB lone_block \<noteq> Ok ()"
    by (simp add: bc.verify_short lone_block_def)
  ultimately show ?thesis
    using executor_refines_ledger [OF sample_reach [of 3], of "[AddChain 12 lone_block, AddBlock ZERO_UUID 12 [1, 2],
        AddChain 12 (sample_chain 1), AddChain 12 (sample_chain 2)]"]
    by (simp add: chain_limit_new_def U32_MAX_def U64_MAX_def sample_chain_verify lone_block_def)
qed

end
