(* ===== verification/Spec2Isabelle.thy ===== *)
theory Spec2Isabelle imports Widths Pipe Protocol Join Center TaskTests StoreTests FpscTests FpscThreads Ledger begin

text \<open>
  A verification development for history-chain, a Rust library (crate sources under \<open>src/src/\<close>) that
  keeps hash-linked chains of data blocks, commits every finished chain to a main chain of digest
  blocks, archives chains in bundle files and talks to other nodes over signed UDP messages.

  \<^bold>\<open>The parts and how they interact.\<close> Blocks (\<open>block.rs\<close>) carry hashes made by \<open>hash.rs\<close>; chains
  (\<open>chain.rs\<close>) are vectors of blocks under a length and a time limit. The keeper (\<open>keeper.rs\<close>) holds the
  main chain and the side chains, the executor (\<open>executor.rs\<close>) adds to them. The serializer
  (\<open>serializer.rs\<close>) turns values into length-prefixed frames; bundles and the metadata store (\<open>db.rs\<close>)
  write them to files. Identities (\<open>nodes/identity.rs\<close>) sign, messages (\<open>network/protocol.rs\<close>) travel in
  packets with a signed header, \<open>network/udp.rs\<close> sends and receives them. A node (\<open>nodes/node.rs\<close>) runs
  four tasks that turn a datagram into its answer; they hand each other requests (\<open>req_resp.rs\<close>) and find
  the handler of a payload in a register (\<open>network/register.rs\<close>). The buffer of \<open>fpsc/\<close> connects one
  producer to one consumer, \<open>pipe.rs\<close> two tasks both ways.

  \<^bold>\<open>Theories and sources.\<close>
  \<^item> \<open>Prelude\<close>: machine integers, the result type \<open>outcome\<close> (value, \<open>HError\<close>, panic, undefined
    behaviour, no return), checked slices and arithmetic, \<open>herrors.rs\<close>, \<open>constants.rs\<close>.
  \<^item> \<open>Hash\<close>: \<open>hash.rs\<close>, \<open>archive.rs\<close>. \<open>Block\<close>: \<open>block.rs\<close> and the vote block of \<open>network/protocol.rs\<close>.
  \<^item> \<open>ChainDefs\<close>, \<open>Chain\<close>: \<open>chain.rs\<close>. \<open>Executor\<close>, \<open>Widths\<close>, \<open>Ledger\<close>: \<open>keeper.rs\<close>,
    \<open>executor.rs\<close>; \<open>Ledger\<close> holds the abstract ledger the executor refines.
  \<^item> \<open>SerializerDefs\<close>, \<open>Serializer\<close>: \<open>serializer.rs\<close>. \<open>DbDefs\<close>, \<open>Db\<close>: \<open>db.rs\<close>.
  \<^item> \<open>FpscDefs\<close>, \<open>Fpsc\<close>: \<open>fpsc/ringbuf.rs\<close>, \<open>fpsc/producer_cosumer.rs\<close>, \<open>fpsc/mod.rs\<close>. \<open>FpscThreads\<close>: the same
    two calls in two threads, access by access.
  \<^item> \<open>Identity\<close>: \<open>nodes/identity.rs\<close> and \<open>NodeInfo\<close>. \<open>ProtocolDefs\<close>, \<open>Protocol\<close>: \<open>network/protocol.rs\<close>,
    \<open>network/udp.rs\<close>.
  \<^item> \<open>ReqResp\<close>: \<open>req_resp.rs\<close>. \<open>Pipe\<close>: \<open>pipe.rs\<close>. \<open>Register\<close>: \<open>network/register.rs\<close>. \<open>Network\<close>:
    \<open>network/signal.rs\<close>, \<open>network/network.rs\<close>. \<open>Logger\<close>: the logger functions of \<open>herrors.rs\<close>.
  \<^item> \<open>NodeDefs\<close>, \<open>Node\<close>: \<open>nodes/node.rs\<close>, task by task. \<open>NodeSystemDefs\<close>, \<open>NodeSystem\<close>: the four tasks and
    the children of one node side by side, as a step relation. \<open>Join\<close>: such
    a node and another that asks it with \<open>make_new\<close>. \<open>Center\<close>: \<open>nodes/center.rs\<close>, \<open>nodes/normal.rs\<close>.
  \<^item> \<open>Utils\<close>: the sample builders of \<open>utils/utils.rs\<close>. This theory: what spans components.
  \<^item> \<open>TestBase\<close>, \<open>MessageTests\<close>, \<open>TaskTests\<close>, \<open>StoreTests\<close>, \<open>FpscTests\<close>: the repository's tests, as
    computations over the model, and \<open>uuidbytes.rs\<close>. A test is \<open>Ok ()\<close> when it passes, \<open>Panic\<close> when an assertion fails
    and \<open>Diverge\<close> when it waits for ever; what it prints and measures is left out.

  A struct is a record whose fields carry the source's names with a prefix; a trait is a record of its
  required methods (\<open>block_impl\<close>, \<open>carrier_impl\<close>, \<open>digester_impl\<close>, \<open>chain_impl\<close>, \<open>node_impl\<close>) and its
  default methods take that record, as generic code does; a method with \<open>&mut self\<close> returns its result
  and the new value. Functions keep their Rust names, with a prefix where two structs share one.

  \<^bold>\<open>Interfaces.\<close> What one component relies on in another is a locale, interpreted on the model's own
  definitions where these are: \<open>lawful_block\<close>, \<open>sealed_block\<close> (the three block types), \<open>lawful_chain\<close>
  (\<open>BlockChain\<close> and \<open>Main\<close>), \<open>lawful_digester\<close> (the digest block), \<open>handler_register\<close> (both registers),
  \<open>lawful_node\<close> (the \<open>TestNode\<close>), \<open>refcounted\<close> (the shared box of the ring buffer), \<open>metered\<close> (runs whose steps use
  up input: the node's step relation), \<open>functional_refinement\<close> (the executor and its ledger), \<open>two_tasks\<close> (two joined futures that never both sleep: the four pairs of
  the buffer's tests).

  \<^bold>\<open>Parameters.\<close> Code outside the repository is an argument with the documented behaviour as a named
  hypothesis. SHA-256 is \<open>sha\<close> (\<open>sha256_width\<close>: 32 bytes; binding statements say which inputs must not
  collide). bincode is a \<open>codec\<close> (\<open>codes\<close>, \<open>codec_ok_on\<close>, \<open>header_codec_ok\<close>: what fits a slice is written
  and read back, what does not reports \<open>UnexpectedEnd\<close>). ed25519 is a \<open>sig_scheme\<close> (\<open>sig_ok\<close>: fixed widths
  and a signature verifies under its own key; unforgeability is nowhere assumed). The bounded channel of tokio is a record \<open>mpsc\<close> where \<open>Pipe\<close> keeps channels
  (\<open>mpsc_ok\<close>), the crates log and env_logger a record \<open>log_crate\<close> (\<open>log_ok\<close>: a second \<open>init\<close> panics). Clock readings, fresh uuids, random
  bytes, what a socket, a stream, a file system call or a tokio channel answers and which one-shot
  channel a request gets are arguments of the operations. Every hypothesis of this kind is met by a
  concrete instance in a witness.

  \<^bold>\<open>Concurrency.\<close> A lock held for a whole operation makes it one step (keeper, executor, register). The
  polls of the \<open>fpsc\<close> buffer are atomic and interleave in every order (\<open>fp_step\<close>): the source has no lock
  there, so this is the case where both ends run in one task. For two threads \<open>th_step\<close> interleaves the single
  accesses of the polls, each of them taking effect at once and in order (weaker memory is not modelled). A task around \<open>select!\<close> is a function of
  the list of what \<open>select!\<close> yields, turn after turn; tasks are joined by what a channel guarantees
  (a receiver sees, in order, a prefix of what was sent), and children that may finish in any order by a
  multiset. \<open>node_step\<close> interleaves the four tasks and the children in every order, over their channels.
  \<open>tokio::join!\<close> in the tests is a list of turns, and a statement about it holds for every list with enough rounds.

  \<^bold>\<open>Termination and fuel.\<close> No fuel is used. Loops that end are total functions with a measure
  (\<open>find_meta_loop\<close>: the bytes left in the file; \<open>merkle_depth\<close>), the two that need not end
  (\<open>merkle_loop\<close>, \<open>header_loop\<close>) are partial functions into an option for which returning is proved, and
  \<open>encode_vec_into\<close> returns \<open>Diverge\<close> where its retry loop repeats without growing. Runs of the \<open>fpsc\<close> pair
  end by the measure \<open>fp_measure\<close>, at most \<open>8 * length data + 6\<close> turns; the tests of the buffer end within two
  hundred rounds, which is more than the measure of their start. Runs of \<open>node_step\<close> are bounded by what arrives.

  \<^bold>\<open>What is shown.\<close>
  \<^item> Ledger (\<open>Hash\<close>, \<open>Block\<close>, \<open>Chain\<close>, \<open>Executor\<close>, \<open>Widths\<close>): the Merkle loop is the top-down tree and the
    root binds the hashes; blocks are tamper-evident; built chains verify and verified chains are determined by
    their last hash; every reachable executor keeps only committed, verified side chains, with the
    verdict of \<open>add_chain\<close> on every branch, and is for its clients an append-only ledger; every hash of it keeps its
    32 bytes (which Rust's types promise, and the model's lists have to be shown to do); what index selection
    does on and off consecutive indices.
  \<^item> Storage (\<open>Serializer\<close>, \<open>Db\<close>): round trips of vectors, streams and bundles, the description of a
    bundle as the union of its chains' windows, the metadata store as a map; what overflow, damage, a
    stale cache and a missing truncation do.
  \<^item> Transport (\<open>Fpsc\<close>, \<open>ReqResp\<close>, \<open>Pipe\<close>, \<open>Register\<close>): the buffer loses no wake-up and no byte and is freed once;
    between threads it still loses no byte, but a wake-up can get lost and the consumer waits for ever
    (the polls that nobody interrupts are the turns of \<open>Fpsc\<close>, so the two models agree);
    a worker answers the requests it gets once each, until it is cancelled or its function panics; the two
    ends of a pipe hear each other in order and nobody else, also what was sent before a close;
    the payload tasks are workers over the register's lookup.
  \<^item> Network (\<open>Protocol\<close>, \<open>Node\<close>, \<open>NodeSystem\<close>): messages come back from their packets and exactly the signed ones
    for the node are accepted; the four tasks refine the one call \<open>msg_delivery\<close> and stay within the size of a
    datagram; in every interleaving only authenticated senders are answered, and all of them are when the node
    comes to rest; children are not bounded, and a bad datagram stops the receiving task; the question of \<open>make_new\<close> is
    never heard answered, as the answers go to another port (\<open>Join\<close>).
  \<^item> Tests: which of the repository's tests pass and on what they depend: the order of two sockets, a logger that
    can be set once, one port for all checks, a file two tests share, the exact capacity of a vector.
  \<^item> Across (below): archived chains, loaded from their bundle, are committed by an executor and found
    under consecutive numbers.

  \<^bold>\<open>Not modelled.\<close> The trait declarations (signatures; their default methods are modelled) and the getters that
  only borrow a field; the empty \<open>tcp.rs\<close> and \<open>router.rs\<close>; \<open>network/handlers.rs\<close>, \<open>FakerNomalNode\<close> and \<open>faker_node\<close>,
  which are unfinished and do not compile; module declarations. A \<open>usize\<close> is a natural number: overflow above 2 to
  the 64 is not modelled for lengths, while \<open>u32\<close> and \<open>u64\<close> arithmetic is checked as in a development build. Paths
  are strings: links and \<open>..\<close> are not resolved. What a file operation wrote is in the file, in order, when it returns:
  the code drops its tokio files without a flush, so it has no such promise. The spare capacity behind the blocks
  of a vector is not modelled: a pointer moved beyond them counts as undefined. The cancellation of a signer in
  the middle of a run of the node's tasks is not modelled, nor another sender than step 1 on the channel of step 2.
\<close>

section \<open>Archived chains in an executor\<close>

text \<open>Adding chains one after another, each at its own clock reading.\<close>

fun commit_all ::
    "sha \<Rightarrow> (data_block, digest_block) executor \<Rightarrow> (u64 \<times> data_block block_chain) list \<Rightarrow>
     unit outcome list \<times> (data_block, digest_block) executor" where
  "commit_all sha e [] = ([], e)"
| "commit_all sha e ((now, c) # ncs) =
     (case add_chain (data_block_impl sha) (digest_block_impl sha) now e c of
        (r, e) \<Rightarrow> (case commit_all sha e ncs of (rs, e) \<Rightarrow> (r # rs, e)))"

lemma commit_all_stores:
  assumes "executor_reach sha (data_block_impl sha) (digest_block_impl sha) limit e"
    and "length (main_blocks e) + length ncs \<le> cl_max_len limit" and "length (main_blocks e) + length ncs \<le> U32_MAX"
    and "\<forall>(now, c) \<in> set ncs. open_at limit e now \<and>
      chain_verify block_chain_impl (data_block_impl sha) c = Ok ()"
  shows "\<exists>e'. commit_all sha e ncs = (replicate (length ncs) (Ok ()), e') \<and>
    executor_reach sha (data_block_impl sha) (digest_block_impl sha) limit e' \<and>
    (\<forall>d. unat d \<le> length (main_blocks e) \<longrightarrow> side_ref (ex_keeper e') d = side_ref (ex_keeper e) d) \<and>
    (\<forall>i < length ncs. side_ref (ex_keeper e') (word_of_nat (Suc (length (main_blocks e) + i))) = Some (snd (ncs ! i)))"
  using assms
proof (induction ncs arbitrary: e)
  case Nil
  then show ?case by simp
next
  case (Cons nc ncs)
  obtain now c where nc: "nc = (now, c)" by (cases nc)
  let ?n = "length (main_blocks e)"
  from Cons.prems(2,3) have room: "?n < cl_max_len limit" "?n < U32_MAX" by auto
  from Cons.prems(4) have c: "open_at limit e now" "chain_verify block_chain_impl (data_block_impl sha) c = Ok ()"
    by (simp_all add: nc)
  obtain e1 b where
    e1: "add_chain (data_block_impl sha) (digest_block_impl sha) now e c = (Ok (), e1)"
      "executor_reach sha (data_block_impl sha) (digest_block_impl sha) limit e1"
      "main_blocks e1 = main_blocks e @ [b]" "hd (main_blocks e1) = hd (main_blocks e)"
      "\<forall>d. side_ref (ex_keeper e1) d = (if d = word_of_nat (Suc ?n) then Some c else side_ref (ex_keeper e) d)"
    using add_chain_stores [OF Cons.prems(1) room c] by blast
  have n1: "length (main_blocks e1) = Suc ?n" by (simp add: e1(3))
  have "length (main_blocks e1) + length ncs \<le> cl_max_len limit" "length (main_blocks e1) + length ncs \<le> U32_MAX"
    using Cons.prems(2,3) n1 by simp_all
  moreover have "\<forall>(now, c) \<in> set ncs. open_at limit e1 now \<and>
      chain_verify block_chain_impl (data_block_impl sha) c = Ok ()"
    using Cons.prems(4) open_at_cong [OF e1(4)] by auto
  ultimately obtain e' where
    e': "commit_all sha e1 ncs = (replicate (length ncs) (Ok ()), e')"
      "executor_reach sha (data_block_impl sha) (digest_block_impl sha) limit e'"
      "\<forall>d. unat d \<le> Suc ?n \<longrightarrow> side_ref (ex_keeper e') d = side_ref (ex_keeper e1) d"
      "\<forall>i < length ncs. side_ref (ex_keeper e') (word_of_nat (Suc (Suc ?n + i))) = Some (snd (ncs ! i))"
    using Cons.IH [OF e1(2)] unfolding n1 by blast
  have u: "unat (word_of_nat (Suc ?n) :: u32) = Suc ?n"
    using room by (intro unat_u32_of_nat) simp
  have "side_ref (ex_keeper e') (word_of_nat (Suc (?n + i))) = Some (snd ((nc # ncs) ! i))"
    if "i < Suc (length ncs)" for i
  proof (cases i)
    case 0
    have "side_ref (ex_keeper e') (word_of_nat (Suc ?n)) = side_ref (ex_keeper e1) (word_of_nat (Suc ?n))"
      using e'(3) u by (metis order_refl)
    then show ?thesis using e1(5) by (simp add: 0 nc del: of_nat_Suc)
  next
    case (Suc j)
    with that e'(4) show ?thesis by (simp del: of_nat_Suc)
  qed
  moreover have "side_ref (ex_keeper e') d = side_ref (ex_keeper e) d" if "unat d \<le> ?n" for d
  proof -
    have "d \<noteq> word_of_nat (Suc ?n)" using that u by auto
    with that e'(3) e1(5) show ?thesis by simp
  qed
  ultimately show ?case using e1(1) e'(1,2) by (auto simp: nc simp del: of_nat_Suc)
qed


text \<open>C11: Archived chains can be committed by another executor: verified chains saved one by one into a new
  bundle file are loaded from it unchanged, a reachable executor with room and an open time window
  accepts each of them, finds them under consecutive numbers after the digest blocks it had, each
  next to a digest block with its Merkle root, and still finds every chain it had stored before. The
  conditions: every chain has blocks whose timestamps span a window within \<open>u64\<close> and a frame that fits the
  serializer's 128 KiB buffer; there is no bundle file yet, and what is saved is in the file when it is
  read, which happens in nonempty pieces shorter than that buffer (a piece that fills it makes the load
  fail); the executor has a clock reading in its window for each chain, and room for them all, both
  under its limit and in the \<open>u32\<close> numbers.\<close>

theorem archived_chains_commit:
  assumes "\<forall>c \<in> set cs. codes cd enc c \<and> windowed (data_block_impl sha) c \<and> 4 + length (enc c) \<le> BUFFER_SIZE \<and>
      chain_verify block_chain_impl (data_block_impl sha) c = Ok ()"
    and "cs \<noteq> []" and "disk DEFAULT_BUNDLE_FILE = None"
    and "concat (pieces_of (frames enc cs)) = frames enc cs"
    and "\<forall>p \<in> set (pieces_of (frames enc cs)). p \<noteq> [] \<and> length p < BUFFER_SIZE"
    and "executor_reach sha (data_block_impl sha) (digest_block_impl sha) limit e"
    and "length (main_blocks e) + length cs \<le> cl_max_len limit" and "length (main_blocks e) + length cs \<le> U32_MAX"
    and "length nows = length cs" and "\<forall>now \<in> set nows. open_at limit e now"
  shows "\<exists>b disk' loaded e'.
    save_all cd (data_block_impl sha) disk bundle_default_new cs = (map Ok cs, b, disk') \<and>
    fst (load_chains_from_bundle cd pieces_of disk' b) = Ok loaded \<and>
    commit_all sha e (zip nows loaded) = (replicate (length cs) (Ok ()), e') \<and>
    (\<forall>d. unat d \<le> length (main_blocks e) \<longrightarrow> side_ref (ex_keeper e') d = side_ref (ex_keeper e) d) \<and>
    (\<forall>i < length cs. \<exists>d. unat d = Suc (length (main_blocks e) + i) \<and> side_ref (ex_keeper e') d = Some (cs ! i) \<and>
       merkle_root sha (map db_hash (bc_blocks (cs ! i))) = Ok (dg_merkle_root (main_blocks e' ! (unat d - 1))))"
proof -
  let ?n = "length (main_blocks e)"
  have "\<forall>c \<in> set cs. codes cd enc c \<and> windowed (data_block_impl sha) c \<and> 4 + length (enc c) \<le> BUFFER_SIZE"
    using assms(1) by blast
  moreover have "length cs \<le> U32_MAX" using assms(8) by simp
  ultimately obtain b disk' where
    b: "save_all cd (data_block_impl sha) disk bundle_default_new cs = (map Ok cs, b, disk')"
      "fst (load_chains_from_bundle cd pieces_of disk' b) = Ok cs"
    using bundle_saved_loads [where disk = disk and pieces_of = pieces_of and cs = cs, OF _ assms(2) _ assms(3-5)] by blast
  have "?n + length (zip nows cs) \<le> cl_max_len limit" "?n + length (zip nows cs) \<le> U32_MAX"
    using assms(7-9) by simp_all
  moreover have "\<forall>(now, c) \<in> set (zip nows cs). open_at limit e now \<and>
      chain_verify block_chain_impl (data_block_impl sha) c = Ok ()"
    using assms(1,10) by (auto dest: set_zip_leftD set_zip_rightD)
  ultimately obtain e' where
    e': "commit_all sha e (zip nows cs) = (replicate (length cs) (Ok ()), e')"
      "executor_reach sha (data_block_impl sha) (digest_block_impl sha) limit e'"
      "\<forall>d. unat d \<le> ?n \<longrightarrow> side_ref (ex_keeper e') d = side_ref (ex_keeper e) d"
      "\<forall>i < length cs. side_ref (ex_keeper e') (word_of_nat (Suc (?n + i))) = Some (cs ! i)"
    using commit_all_stores [OF assms(6), of "zip nows cs"] assms(9) by auto
  have "\<exists>d. unat d = Suc (?n + i) \<and> side_ref (ex_keeper e') d = Some (cs ! i) \<and>
      merkle_root sha (map db_hash (bc_blocks (cs ! i))) = Ok (dg_merkle_root (main_blocks e' ! (unat d - 1)))"
    if "i < length cs" for i
  proof -
    let ?d = "word_of_nat (Suc (?n + i)) :: u32"
    have "unat ?d = Suc (?n + i)" using that assms(8) by (intro unat_u32_of_nat) simp
    moreover have "side_ref (ex_keeper e') ?d = Some (cs ! i)" using e'(4) that by blast
    ultimately show ?thesis
      using side_ref_committed [OF e'(2)] by (auto simp: committed_def simp del: of_nat_Suc)
  qed
  with b e'(1,3) show ?thesis by blast
qed

theorem archived_chains_commit_witness:
  "\<exists>b disk' loaded e'. save_all sample_chain_codec sample_IB Map.empty bundle_default_new [sample_chain 1, sample_chain 2] =
      (map Ok [sample_chain 1, sample_chain 2], b, disk') \<and>
    fst (load_chains_from_bundle sample_chain_codec (map (\<lambda>b. [b])) disk' b) = Ok loaded \<and>
    commit_all sample_sha (sample_executor 5) (zip [12, 12] loaded) = ([Ok (), Ok ()], e') \<and>
    side_ref (ex_keeper e') 3 = Some (sample_chain 2)"
proof -
  let ?cs = "[sample_chain 1, sample_chain 2]"
  let ?limit = "chain_limit_new 5 100" and ?e = "sample_executor 5"
  have c: "\<forall>c \<in> set ?cs. codes sample_chain_codec sample_chain_enc c \<and> windowed sample_IB c \<and>
      4 + length (sample_chain_enc c) \<le> BUFFER_SIZE \<and> chain_verify block_chain_impl sample_IB c = Ok ()"
    using sample_chain_codes sample_chain_window sample_chain_verify by (simp add: BUFFER_SIZE_def)
  have room: "length (main_blocks ?e) + length ?cs \<le> cl_max_len ?limit" "length (main_blocks ?e) + length ?cs \<le> U32_MAX"
    by (simp_all add: chain_limit_new_def U32_MAX_def)
  have nows: "\<forall>now \<in> set [12, 12]. open_at ?limit ?e now" by simp
  have basic: "?cs \<noteq> []" "Map.empty DEFAULT_BUNDLE_FILE = None" "length [12 :: u64, 12] = length ?cs" by simp_all
  from archived_chains_commit [where pieces_of = "map (\<lambda>b. [b])",
      OF c basic(1,2) concat_singletons singleton_pieces sample_reach room basic(3) nows]
  obtain b disk' loaded e' where
    a: "save_all sample_chain_codec sample_IB Map.empty bundle_default_new ?cs = (map Ok ?cs, b, disk')"
      "fst (load_chains_from_bundle sample_chain_codec (map (\<lambda>b. [b])) disk' b) = Ok loaded"
      "commit_all sample_sha ?e (zip [12, 12] loaded) = (replicate (length ?cs) (Ok ()), e')"
      "\<forall>i < length ?cs. \<exists>d. unat d = Suc (length (main_blocks ?e) + i) \<and> side_ref (ex_keeper e') d = Some (?cs ! i) \<and>
         merkle_root sample_sha (map db_hash (bc_blocks (?cs ! i))) = Ok (dg_merkle_root (main_blocks e' ! (unat d - 1)))"
    by (elim exE conjE) (rule that)
  from a(4) [rule_format, of 1] obtain d :: u32 where "unat d = Suc (Suc (Suc 0))" "side_ref (ex_keeper e') d = Some (sample_chain 2)" by auto
  moreover from this(1) have "d = 3" by (simp add: word_unat_eq_iff)
  ultimately show ?thesis using a(1-3) by (auto simp: numeral_2_eq_2)
qed

end
